(* ===== verification/Gate0_Prelude.thy ===== *)
theory Gate0_Prelude
  imports Main "HOL-Library.Word"
begin

text \<open>
  Shared vocabulary of the development: the machine integer types of the C code
  (ELF64, AArch64, little endian), byte strings, the little-endian object representation of an
  integer, struct fields cut out of a byte image, the first-match search loop, the circular
  read of an array, the clock arithmetic, and the ways in which a C operation can have no
  defined result. Lemmas that several components use are collected here, with
  \<open>byte_len\<close> (lengths of byte images) and \<open>codec\<close> (encode/decode rules) as the
  collections that the component proofs pass to the simplifier.
\<close>

unbundle bit_operations_syntax

named_theorems byte_len \<open>lengths of object representations\<close>
named_theorems codec \<open>decoding of encoded fields\<close>

section \<open>Machine types\<close>

type_synonym u8 = "8 word"
type_synonym u16 = "16 word"
type_synonym u32 = "32 word"
type_synonym u64 = "64 word"
type_synonym bytes = "8 word list"

text \<open>
  What libsodium offers to this code: a keyless hash (\<open>crypto_generichash\<close>,
  \<open>crypto_hash_sha256\<close>) from byte strings to byte strings, and a detached signature
  verification (signature, message, public key) that returns 0 on success. Neither is part of the repository, so
  each is a parameter of the definitions that call it.
\<close>

type_synonym hash_fun = "8 word list \<Rightarrow> 8 word list"
type_synonym sig_verify = "8 word list \<Rightarrow> 8 word list \<Rightarrow> 8 word list \<Rightarrow> int"

text \<open>Executions of C code with no defined result.\<close>

datatype fault = NullDeref | SignedOverflow | OutOfBounds

section \<open>Little-endian integers\<close>

primrec le_bytes :: "nat \<Rightarrow> 'a::len word \<Rightarrow> bytes" where
  "le_bytes 0 w = []"
| "le_bytes (Suc n) w = ucast w # le_bytes n (drop_bit 8 w)"

primrec le_word :: "bytes \<Rightarrow> 'a::len word" where
  "le_word [] = 0"
| "le_word (b # bs) = ucast b OR push_bit 8 (le_word bs)"

lemma length_le_bytes [simp, byte_len]: "length (le_bytes n w) = n"
  by (induction n arbitrary: w) auto

lemma nth_le_bytes: "i < n \<Longrightarrow> le_bytes n w ! i = ucast (drop_bit (8 * i) w)"
proof (induction n arbitrary: w i)
  case (Suc n)
  then show ?case by (cases i) (auto simp: add.commute)
qed simp

lemma bit_le_word:
  "bit (le_word bs :: 'a::len word) k \<longleftrightarrow>
     k < LENGTH('a) \<and> k div 8 < length bs \<and> bit (bs ! (k div 8)) (k mod 8)"
proof (induction bs arbitrary: k)
  case (Cons b bs)
  show ?case
  proof (cases "k < 8")
    case True
    then show ?thesis
      by (auto simp: bit_or_iff bit_push_bit_iff bit_ucast_iff)
  next
    case False
    then obtain j where k: "k = j + 8" by (metis add.commute le_Suc_ex not_less)
    have "(j + 8) div 8 = Suc (j div 8)" and "\<not> bit b (j + 8)"
      by (auto dest: bit_imp_le_length)
    then show ?thesis
      by (auto simp: k bit_or_iff bit_push_bit_iff bit_ucast_iff Cons.IH)
  qed
qed simp

lemma le_word_le_bytes [codec]:
  fixes w :: "'a::len word"
  assumes "LENGTH('a) = 8 * n"
  shows "le_word (le_bytes n w) = w"
proof (rule bit_word_eqI)
  fix k assume "k < LENGTH('a)"
  with assms have "k div 8 < n" by (simp add: less_mult_imp_div_less mult.commute)
  with \<open>k < LENGTH('a)\<close> show "bit (le_word (le_bytes n w) :: 'a word) k = bit w k"
    by (simp add: bit_le_word nth_le_bytes bit_ucast_iff bit_drop_bit_eq)
qed

lemma le_bytes_le_word:
  assumes "length bs = n" and "LENGTH('a::len) = 8 * n"
  shows "le_bytes n (le_word bs :: 'a word) = bs"
proof (rule nth_equalityI)
  fix i assume "i < length (le_bytes n (le_word bs :: 'a word))"
  then have i: "i < n" by simp
  show "le_bytes n (le_word bs :: 'a word) ! i = bs ! i"
  proof (rule bit_word_eqI)
    fix k assume k: "k < LENGTH(8)"
    then have "(8 * i + k) div 8 = i" and "(8 * i + k) mod 8 = k" by auto
    with i k assms show "bit (le_bytes n (le_word bs :: 'a word) ! i) k = bit (bs ! i) k"
      by (auto simp: nth_le_bytes bit_ucast_iff bit_drop_bit_eq bit_le_word)
  qed
qed (simp add: assms)

lemma le_bytes_inject:
  fixes v w :: "'a::len word"
  assumes "LENGTH('a) = 8 * n"
  shows "le_bytes n v = le_bytes n w \<longleftrightarrow> v = w"
  by (metis assms le_word_le_bytes)

section \<open>Fields of a byte image\<close>

definition field_at :: "nat \<Rightarrow> nat \<Rightarrow> bytes \<Rightarrow> bytes" where
  "field_at off n bs = take n (drop off bs)"

lemma length_field_at: "off + n \<le> length bs \<Longrightarrow> length (field_at off n bs) = n"
  by (simp add: field_at_def)

lemma field_at_join: "j = i + m \<Longrightarrow> field_at i m bs @ field_at j n bs = field_at i (m + n) bs"
  by (simp add: field_at_def take_add add.commute)

lemma field_at_join_more:
  "j = i + m \<Longrightarrow> field_at i m bs @ field_at j n bs @ rest = field_at i (m + n) bs @ rest"
  by (simp flip: append_assoc add: field_at_join)

lemma field_at_all: "length bs \<le> n \<Longrightarrow> field_at 0 n bs = bs"
  by (simp add: field_at_def)

lemma field_at_append_skip [codec]:
  "length xs \<le> off \<Longrightarrow> field_at off n (xs @ ys) = field_at (off - length xs) n ys"
  by (simp add: field_at_def)

lemma field_at_append_here [codec]: "length xs = n \<Longrightarrow> field_at 0 n (xs @ ys) = xs"
  by (simp add: field_at_def)

lemma field_at_append_inside: "off + n \<le> length xs \<Longrightarrow> field_at off n (xs @ ys) = field_at off n xs"
  by (simp add: field_at_def)

lemma field_at_Cons_skip [codec]:
  "0 < off \<Longrightarrow> field_at off n (x # xs) = field_at (off - 1) n xs"
  by (cases off) (simp_all add: field_at_def)

lemma field_at_Cons_here [codec]:
  "field_at 0 1 (x # xs) = [x]" "field_at 0 (Suc 0) (x # xs) = [x]"
  by (simp_all add: field_at_def)

section \<open>Search loops and arrays\<close>

text \<open>
  \<open>for (i = 0; i < n; i++) if (P(a[i])) return i;\<close>: the index of the first element that
  satisfies the test.
\<close>

primrec find_index :: "('a \<Rightarrow> bool) \<Rightarrow> 'a list \<Rightarrow> nat option" where
  "find_index P [] = None"
| "find_index P (x # xs) = (if P x then Some 0 else map_option Suc (find_index P xs))"

lemma find_index_None: "find_index P xs = None \<longleftrightarrow> (\<forall>x \<in> set xs. \<not> P x)"
  by (induction xs) auto

lemma find_index_Some:
  "find_index P xs = Some i \<longleftrightarrow> i < length xs \<and> P (xs ! i) \<and> (\<forall>j < i. \<not> P (xs ! j))"
proof (induction xs arbitrary: i)
  case (Cons x xs)
  show ?case
  proof (cases i)
    case 0
    then show ?thesis by auto
  next
    case (Suc k)
    then show ?thesis using Cons.IH [of k] by (auto simp: less_Suc_eq_0_disj nth_Cons')
  qed
qed simp

lemma find_index_SomeD:
  assumes "find_index P xs = Some i"
  shows "i < length xs" and "P (xs ! i)"
  using assms by (auto simp: find_index_Some)

lemma find_index_update:
  "i < length xs \<Longrightarrow> P y = P (xs ! i) \<Longrightarrow> find_index P (xs[i := y]) = find_index P xs"
proof (induction xs arbitrary: i)
  case (Cons x xs)
  then show ?case by (cases i) auto
qed simp

lemma find_index_fresh:
  "find_index P xs = None \<Longrightarrow> i < length xs \<Longrightarrow> P y \<Longrightarrow> find_index P (xs[i := y]) = Some i"
proof (induction xs arbitrary: i)
  case (Cons x xs)
  then show ?case by (cases i) (auto split: if_splits)
qed simp

text \<open>What replacing one array element does to the elements that satisfy a test.\<close>

lemma map_filter_update:
  "i < length xs \<Longrightarrow> P y = P (xs ! i) \<Longrightarrow> f y = f (xs ! i) \<Longrightarrow>
     map f (filter P (xs[i := y])) = map f (filter P xs)"
proof (induction xs arbitrary: i)
  case (Cons x xs)
  then show ?case by (cases i) auto
qed simp

lemma set_filter_update_new:
  "i < length xs \<Longrightarrow> \<not> P (xs ! i) \<Longrightarrow> P y \<Longrightarrow>
     set (filter P (xs[i := y])) = insert y (set (filter P xs))"
proof (induction xs arbitrary: i)
  case (Cons x xs)
  then show ?case by (cases i) auto
qed simp

lemma distinct_filter_update_new:
  "i < length xs \<Longrightarrow> \<not> P (xs ! i) \<Longrightarrow> P y \<Longrightarrow>
     distinct (map f (filter P (xs[i := y]))) \<longleftrightarrow>
       distinct (map f (filter P xs)) \<and> f y \<notin> f ` set (filter P xs)"
proof (induction xs arbitrary: i)
  case (Cons x xs)
  show ?case
  proof (cases i)
    case (Suc k)
    with Cons.prems have "set (filter P (xs[k := y])) = insert y (set (filter P xs))"
      by (intro set_filter_update_new) auto
    with Cons Suc show ?thesis by (auto simp del: set_filter)
  qed (use Cons.prems in auto)
qed simp

lemma length_filter_update_gone:
  "i < length xs \<Longrightarrow> P (xs ! i) \<Longrightarrow> \<not> P y \<Longrightarrow>
     length (filter P xs) = Suc (length (filter P (xs[i := y])))"
proof (induction xs arbitrary: i)
  case (Cons x xs)
  then show ?case by (cases i) auto
qed simp

text \<open>The first \<open>n\<close> cells of a circular array of \<open>N\<close> cells, read from cell \<open>start\<close>.\<close>

definition ring_view :: "nat \<Rightarrow> 'a list \<Rightarrow> nat \<Rightarrow> nat \<Rightarrow> 'a list" where
  "ring_view N buf start n = map (\<lambda>i. buf ! ((start + i) mod N)) [0..<n]"

lemma length_ring_view [simp]: "length (ring_view N buf start n) = n"
  by (simp add: ring_view_def)

lemma nth_ring_view: "i < n \<Longrightarrow> ring_view N buf start n ! i = buf ! ((start + i) mod N)"
  by (simp add: ring_view_def)

lemma ring_view_Suc:
  "ring_view N buf start (Suc n) = ring_view N buf start n @ [buf ! ((start + n) mod N)]"
  by (simp add: ring_view_def)

lemma ring_view_pop:
  "ring_view N buf start (Suc n) =
     buf ! (start mod N) # ring_view N buf (Suc start mod N) n"
  by (simp only: ring_view_def upt_conv_Cons [OF zero_less_Suc] map_Suc_upt [symmetric])
    (simp add: mod_add_left_eq)

lemma ring_view_mod: "ring_view N buf (start mod N) n = ring_view N buf start n"
  by (rule nth_equalityI) (auto simp: nth_ring_view mod_add_left_eq)

text \<open>Writing one cell does not disturb the cells a shorter view reads.\<close>

lemma mod_add_inj: "(s + i) mod N = (s + j) mod N \<Longrightarrow> i < N \<Longrightarrow> j < (N :: nat) \<Longrightarrow> i = j"
proof (induction i j rule: linorder_wlog)
  case (le i j)
  then have "N dvd (s + j) - (s + i)" by (intro mod_eq_dvd_iff_nat [THEN iffD1]) auto
  then have "N dvd j - i" by simp
  with le have "j - i = 0" by (meson dvd_imp_le less_imp_diff_less not_gr0 not_less)
  with le show ?case by simp
next
  case (sym i j)
  then show ?case by metis
qed

lemma ring_view_update_outside:
  assumes "n \<le> k" and "k < N"
  shows "ring_view N (buf[(start + k) mod N := x]) start n = ring_view N buf start n"
proof (rule nth_equalityI)
  fix i assume "i < length (ring_view N (buf[(start + k) mod N := x]) start n)"
  then have i: "i < n" by simp
  with assms have "(start + k) mod N \<noteq> (start + i) mod N" using mod_add_inj [of start k N i] by auto
  with i show "ring_view N (buf[(start + k) mod N := x]) start n ! i = ring_view N buf start n ! i"
    by (simp add: nth_ring_view)
qed simp

lemma ring_view_push:
  assumes "n < N" and "length buf = N"
  shows "ring_view N (buf[(start + n) mod N := x]) start (Suc n) = ring_view N buf start n @ [x]"
  using assms by (simp add: ring_view_Suc ring_view_update_outside)

text \<open>Index arithmetic of rings, by cases instead of \<open>mod\<close>.\<close>

lemma ring_succ: "h < N \<Longrightarrow> Suc h mod N = (if Suc h = N then 0 else Suc h)"
  by (cases "Suc h = N") auto

lemma ring_distance:
  assumes "h < N" and "t < (N :: nat)"
  shows "(h + N - t) mod N = (if t \<le> h then h - t else h + N - t)"
proof (cases "t \<le> h")
  case True
  then have "h + N - t = (h - t) + N" by simp
  then have "(h + N - t) mod N = (h - t) mod N" by (simp only: mod_add_self2)
  with True assms show ?thesis by simp
qed (use assms in simp)

text \<open>Trimming to the latest \<open>cap\<close> entries early or late makes no difference.\<close>

lemma drop_window:
  "drop (length (drop (length c - cap) c @ xs) - cap) (drop (length c - cap) c @ xs) =
     drop (length (c @ xs) - cap) (c @ xs)"
proof -
  define k where "k = length c - cap"
  have "drop k c @ xs = drop k (c @ xs)" by (simp add: k_def)
  moreover have "length (drop k (c @ xs)) - cap + k = length (c @ xs) - cap"
    by (simp add: k_def)
  ultimately show ?thesis by (simp only: drop_drop k_def [symmetric])
qed

section \<open>Chains of early returns\<close>

text \<open>A chain of guarded early returns yields the final code exactly when no guard fires.\<close>

lemma early_return_fst:
  "r \<noteq> ok \<Longrightarrow> fst (if b then (r, s) else t) = ok \<longleftrightarrow> \<not> b \<and> fst t = ok"
  by simp

section \<open>Clocks and wrap-around\<close>

text \<open>
  \<open>(uint64_t)ts.tv_sec * 1000000000ULL + ts.tv_nsec\<close>, as every file's \<open>now_ns\<close> computes
  it from \<open>clock_gettime\<close>; a reading of the clock is an input of the model.
\<close>

definition now_ns :: "u64 \<Rightarrow> u64 \<Rightarrow> u64" where
  "now_ns tv_sec tv_nsec = tv_sec * 1000000000 + tv_nsec"

lemma unat_now_ns:
  assumes "unat s * 1000000000 + unat n < 2 ^ 64"
  shows "unat (now_ns s n) = unat s * 1000000000 + unat n"
proof -
  have "unat (s * 1000000000) = unat s * 1000000000"
    using assms by (simp add: unat_word_ariths)
  with assms show ?thesis by (simp add: now_ns_def unat_word_ariths)
qed

lemma of_nat_u64_inject:
  "i < 2 ^ 64 \<Longrightarrow> j < 2 ^ 64 \<Longrightarrow> (of_nat i :: u64) = of_nat j \<longleftrightarrow> i = j"
  by (simp add: word_unat_eq_iff unat_of_nat)

lemma sorted_le_last: "sorted xs \<Longrightarrow> x \<in> set xs \<Longrightarrow> x \<le> last xs"
  by (induction xs) auto

lemma unat_Suc_word:
  fixes w :: "'a::len word"
  assumes "w \<noteq> - 1"
  shows "unat (w + 1) = Suc (unat w)"
proof -
  have "1 + w \<noteq> 0" using assms by (metis add_eq_0_iff)
  then show ?thesis by (simp add: unatSuc add.commute)
qed

section \<open>Concrete instances for the witnesses\<close>

text \<open>
  A signature scheme and a hash simple enough to evaluate, at which theorems about arbitrary
  ones are instantiated: a signature verifies when it starts with the key, and the hash keeps
  the first 32 bytes of the padded input.
\<close>

definition demo_verify :: sig_verify where
  "demo_verify sg msg pk = (if take 32 sg = pk then 0 else -1)"

definition demo_hash :: hash_fun where
  "demo_hash bs = take 32 (bs @ replicate 32 0)"

lemma length_demo_hash [simp]: "length (demo_hash bs) = 32"
  by (simp add: demo_hash_def)

end
