(* ===== verification/Gate0_Header.thy ===== *)
theory Gate0_Header
  imports Gate0_Prelude
begin

text \<open>
  The data of \<open>src/gate0.h\<close>: result codes, the packed structs of the wire format with their
  object representations, the interlock block, and the cast of a receive buffer to a
  \<open>SignedCommand\<close>. Fixed-size arrays are byte lists; \<open>wf_*\<close> states their lengths.
\<close>

section \<open>Result codes\<close>

datatype GateOResult =
    GO_OK | GO_SIGNATURE_INVALID | GO_EXPIRED | GO_SEQUENCE_INVALID | GO_INVALID_VERSION
  | GO_SENDER_NOT_FOUND | GO_INTERLOCK_TRIPPED
  | GO_HEARTBEAT_OK | GO_HEARTBEAT_MISSED | GO_HEARTBEAT_INVALID

fun result_code :: "GateOResult \<Rightarrow> u32" where
  "result_code GO_OK = 0"
| "result_code GO_SIGNATURE_INVALID = 1"
| "result_code GO_EXPIRED = 2"
| "result_code GO_SEQUENCE_INVALID = 3"
| "result_code GO_INVALID_VERSION = 4"
| "result_code GO_SENDER_NOT_FOUND = 5"
| "result_code GO_INTERLOCK_TRIPPED = 6"
| "result_code GO_HEARTBEAT_OK = 9"
| "result_code GO_HEARTBEAT_MISSED = 10"
| "result_code GO_HEARTBEAT_INVALID = 11"

lemma result_code_inject: "result_code a = result_code b \<longleftrightarrow> a = b"
  by (cases a; cases b) simp_all

section \<open>Structs\<close>

record DeviceInfo =
  os_name :: bytes
  os_release :: bytes
  machine_arch :: bytes
  hostname :: bytes

record CommandEnvelope =
  env_version :: u8
  env_command_id :: u8
  env_sequence :: u64
  env_timestamp_ns :: u64
  env_sender_id :: bytes
  env_payload :: bytes
  env_payload_len :: u32
  env_issued_at_ns :: u64
  env_expires_at_ns :: u64

record SenderRecord =
  public_key :: bytes
  last_sequence :: u64
  used :: bool

record SignedCommand =
  envelope :: CommandEnvelope
  signature :: bytes

record SafetyInterlocks =
  estop :: u8
  overspeed :: u8
  overtemp :: u8
  overvoltage :: u8
  interlock_mask :: u32
  last_trip_ns :: u64
  trip_count :: u8

text \<open>\<open>SenderRecord sender = {0}\<close>, \<open>SafetyInterlocks interlocks = {0}\<close>.\<close>

definition zero_sender :: SenderRecord where
  "zero_sender = \<lparr>public_key = replicate 32 0, last_sequence = 0, used = False\<rparr>"

definition zero_interlocks :: SafetyInterlocks where
  "zero_interlocks = \<lparr>estop = 0, overspeed = 0, overtemp = 0, overvoltage = 0,
     interlock_mask = 0, last_trip_ns = 0, trip_count = 0\<rparr>"

definition wf_device :: "DeviceInfo \<Rightarrow> bool" where
  "wf_device d \<longleftrightarrow> length (os_name d) = 32 \<and> length (os_release d) = 32 \<and>
     length (machine_arch d) = 32 \<and> length (hostname d) = 64"

definition wf_envelope :: "CommandEnvelope \<Rightarrow> bool" where
  "wf_envelope e \<longleftrightarrow> length (env_sender_id e) = 32 \<and> length (env_payload e) = 256"

definition wf_sender :: "SenderRecord \<Rightarrow> bool" where
  "wf_sender s \<longleftrightarrow> length (public_key s) = 32"

definition wf_command :: "SignedCommand \<Rightarrow> bool" where
  "wf_command c \<longleftrightarrow> wf_envelope (envelope c) \<and> length (signature c) = 64"

lemma wf_zero_sender [simp]: "wf_sender zero_sender"
  by (simp add: wf_sender_def zero_sender_def)

section \<open>Object representations of the packed structs\<close>

definition device_bytes :: "DeviceInfo \<Rightarrow> bytes" where
  "device_bytes d = os_name d @ os_release d @ machine_arch d @ hostname d"

definition envelope_bytes :: "CommandEnvelope \<Rightarrow> bytes" where
  "envelope_bytes e =
     le_bytes 1 (env_version e) @ le_bytes 1 (env_command_id e) @ le_bytes 8 (env_sequence e) @
     le_bytes 8 (env_timestamp_ns e) @ env_sender_id e @ env_payload e @
     le_bytes 4 (env_payload_len e) @ le_bytes 8 (env_issued_at_ns e) @
     le_bytes 8 (env_expires_at_ns e)"

definition sender_bytes :: "SenderRecord \<Rightarrow> bytes" where
  "sender_bytes s = public_key s @ le_bytes 8 (last_sequence s) @ [if used s then 1 else 0]"

definition command_bytes :: "SignedCommand \<Rightarrow> bytes" where
  "command_bytes c = envelope_bytes (envelope c) @ signature c"

definition sizeof_CommandEnvelope :: nat where "sizeof_CommandEnvelope = 326"
definition sizeof_SenderRecord :: nat where "sizeof_SenderRecord = 41"
definition sizeof_SignedCommand :: nat where "sizeof_SignedCommand = 390"
definition sizeof_DeviceInfo :: nat where "sizeof_DeviceInfo = 160"

lemmas sizeof_defs = sizeof_CommandEnvelope_def sizeof_SenderRecord_def sizeof_SignedCommand_def
  sizeof_DeviceInfo_def

lemma length_envelope_bytes [byte_len]:
  "wf_envelope e \<Longrightarrow> length (envelope_bytes e) = 326"
  by (simp add: envelope_bytes_def wf_envelope_def byte_len)

lemma length_sender_bytes [byte_len]: "wf_sender s \<Longrightarrow> length (sender_bytes s) = 41"
  by (simp add: sender_bytes_def wf_sender_def byte_len)

lemma length_device_bytes [byte_len]: "wf_device d \<Longrightarrow> length (device_bytes d) = 160"
  by (simp add: device_bytes_def wf_device_def)

lemma length_command_bytes [byte_len]: "wf_command c \<Longrightarrow> length (command_bytes c) = 390"
  by (simp add: command_bytes_def wf_command_def byte_len)

section \<open>Reading a struct out of a buffer\<close>

definition envelope_of_bytes :: "bytes \<Rightarrow> CommandEnvelope" where
  "envelope_of_bytes bs =
     \<lparr>env_version = le_word (field_at 0 1 bs), env_command_id = le_word (field_at 1 1 bs),
      env_sequence = le_word (field_at 2 8 bs), env_timestamp_ns = le_word (field_at 10 8 bs),
      env_sender_id = field_at 18 32 bs, env_payload = field_at 50 256 bs,
      env_payload_len = le_word (field_at 306 4 bs), env_issued_at_ns = le_word (field_at 310 8 bs),
      env_expires_at_ns = le_word (field_at 318 8 bs)\<rparr>"

definition sender_of_bytes :: "bytes \<Rightarrow> SenderRecord" where
  "sender_of_bytes bs =
     \<lparr>public_key = field_at 0 32 bs, last_sequence = le_word (field_at 32 8 bs),
      used = (field_at 40 1 bs \<noteq> [0])\<rparr>"

text \<open>\<open>(SignedCommand *)buffer\<close> on a buffer of at least \<open>sizeof_SignedCommand\<close> bytes.\<close>

definition command_of_bytes :: "bytes \<Rightarrow> SignedCommand" where
  "command_of_bytes bs =
     \<lparr>envelope = envelope_of_bytes bs, signature = field_at 326 64 bs\<rparr>"

lemma envelope_of_bytes_append:
  "wf_envelope e \<Longrightarrow> envelope_of_bytes (envelope_bytes e @ rest) = e"
  by (simp add: envelope_of_bytes_def envelope_bytes_def wf_envelope_def codec byte_len)

lemma command_of_bytes_append:
  "wf_command c \<Longrightarrow> command_of_bytes (command_bytes c @ rest) = c"
  by (simp add: command_of_bytes_def command_bytes_def wf_command_def envelope_of_bytes_append
      codec length_envelope_bytes)

lemma sender_of_bytes_append:
  "wf_sender s \<Longrightarrow> sender_of_bytes (sender_bytes s @ rest) = s"
  by (simp add: sender_of_bytes_def sender_bytes_def wf_sender_def codec byte_len field_at_def)

lemma envelope_bytes_of_bytes:
  assumes "326 \<le> length bs"
  shows "envelope_bytes (envelope_of_bytes bs) = take 326 bs"
proof -
  from assms obtain x y r where bs: "bs = x # y # r"
    by (cases bs; cases "tl bs") auto
  with assms have "324 \<le> length r" by simp
  then show ?thesis
    by (simp add: bs envelope_bytes_def envelope_of_bytes_def codec le_bytes_le_word length_field_at
        field_at_join_more field_at_join) (simp add: field_at_def)
qed

lemma command_bytes_of_bytes:
  "command_bytes (command_of_bytes bs) = take 390 bs" if "390 \<le> length bs"
  using that by (simp add: command_bytes_def command_of_bytes_def envelope_bytes_of_bytes)
    (simp add: field_at_def flip: take_add)

lemma wf_command_of_bytes: "390 \<le> length bs \<Longrightarrow> wf_command (command_of_bytes bs)"
  by (simp add: wf_command_def wf_envelope_def command_of_bytes_def envelope_of_bytes_def
      length_field_at)

lemma envelope_bytes_inject:
  assumes "wf_envelope a" and "wf_envelope b"
  shows "envelope_bytes a = envelope_bytes b \<longleftrightarrow> a = b"
  by (metis assms append_Nil2 envelope_of_bytes_append)

end
