(* ===== verification/Gate_Interface.thy ===== *)
theory Gate_Interface
  imports Gate0_Prelude
begin

text \<open>
  The contract of a command gate. The repository holds several evaluators
  (\<open>src/core.c\<close>, its predecessor under \<open>evidence/\<close>, the multi-client evaluator, the
  signed-sender evaluator of \<open>src/pure_core.c\<close>), and all of them are judged by the same promises: an accepted command moves
  the sequence counter of its sender to the command's own number, a rejected one leaves it
  alone, an accepted number is new, and accepted commands are signed by one key. The promises
  are the assumptions of the locales below; what they give for a whole run of commands is
  proved once here, and each evaluator's theory interprets the locales on its own model.
\<close>

section \<open>Runs\<close>

text \<open>
  A gate maps a state and a command to the next state and whether the command was accepted.
  \<open>gate_run\<close> feeds a list of commands and collects the accepted ones in order.
\<close>

primrec gate_run :: "('s \<Rightarrow> 'c \<Rightarrow> 's \<times> bool) \<Rightarrow> 's \<Rightarrow> 'c list \<Rightarrow> 's \<times> 'c list" where
  "gate_run ev s [] = (s, [])"
| "gate_run ev s (c # cs) =
     (let (s', ok) = ev s c; (t, acc) = gate_run ev s' cs in (t, if ok then c # acc else acc))"

lemma gate_run_Cons:
  "gate_run ev s (c # cs) =
     (fst (gate_run ev (fst (ev s c)) cs),
      (if snd (ev s c) then [c] else []) @ snd (gate_run ev (fst (ev s c)) cs))"
  by (simp add: Let_def split_beta)

lemma gate_run_append:
  "gate_run ev s (cs @ ds) =
     (fst (gate_run ev (fst (gate_run ev s cs)) ds),
      snd (gate_run ev s cs) @ snd (gate_run ev (fst (gate_run ev s cs)) ds))"
  by (induction cs arbitrary: s) (simp_all add: gate_run_Cons del: gate_run.simps(2))

lemma accepted_subset: "set (snd (gate_run ev s cs)) \<subseteq> set cs"
  by (induction cs arbitrary: s) (auto simp: gate_run_Cons simp del: gate_run.simps(2))

lemma length_accepted: "length (snd (gate_run ev s cs)) \<le> length cs"
proof (induction cs arbitrary: s)
  case (Cons c cs)
  show ?case using Cons.IH [of "fst (ev s c)"] by (simp add: gate_run_Cons del: gate_run.simps(2))
qed simp

section \<open>Sequence counters\<close>

locale seq_gate =
  fixes ev :: "'s \<Rightarrow> 'c \<Rightarrow> 's \<times> bool"
    and live :: "'s \<Rightarrow> bool"
    and counter :: "'s \<Rightarrow> u64"
    and seqno :: "'c \<Rightarrow> u64"
  assumes live_step: "live s \<Longrightarrow> live (fst (ev s c))"
    and accept_sets: "live s \<Longrightarrow> snd (ev s c) \<Longrightarrow> counter (fst (ev s c)) = seqno c"
    and reject_keeps: "live s \<Longrightarrow> \<not> snd (ev s c) \<Longrightarrow> counter (fst (ev s c)) = counter s"
begin

lemma live_run: "live s \<Longrightarrow> live (fst (gate_run ev s cs))"
  by (induction cs arbitrary: s) (auto simp: gate_run_Cons live_step simp del: gate_run.simps(2))

lemma counter_run:
  "live s \<Longrightarrow>
     counter (fst (gate_run ev s cs)) = last (counter s # map seqno (snd (gate_run ev s cs)))"
proof (induction cs arbitrary: s)
  case (Cons c cs)
  then show ?case
    using Cons.IH [OF live_step [OF Cons.prems, of c]]
      accept_sets [OF Cons.prems, of c] reject_keeps [OF Cons.prems, of c]
    by (cases "snd (ev s c)") (simp_all add: gate_run_Cons del: gate_run.simps(2))
qed simp

end

text \<open>Only numbers above the counter are accepted: replays are refused for good.\<close>

locale monotone_gate = seq_gate +
  assumes accept_above: "live s \<Longrightarrow> snd (ev s c) \<Longrightarrow> counter s < seqno c"
begin

lemma accepted_increasing:
  "live s \<Longrightarrow> sorted_wrt (<) (counter s # map seqno (snd (gate_run ev s cs)))"
proof (induction cs arbitrary: s)
  case (Cons c cs)
  note IH = Cons.IH [OF live_step [OF Cons.prems, of c]]
  show ?case
  proof (cases "snd (ev s c)")
    case True
    with IH accept_sets [OF Cons.prems True] accept_above [OF Cons.prems True]
    show ?thesis by (auto simp: gate_run_Cons dest: order.strict_trans simp del: gate_run.simps(2))
  next
    case False
    with IH reject_keeps [OF Cons.prems False]
    show ?thesis by (simp add: gate_run_Cons del: gate_run.simps(2))
  qed
qed simp

lemma accepted_distinct: "live s \<Longrightarrow> distinct (map seqno (snd (gate_run ev s cs)))"
  using accepted_increasing [of s cs] by (auto simp: strict_sorted_iff)

lemma replay_refused:
  assumes "live s" and "c \<in> set (snd (gate_run ev s cs))" and "seqno d \<le> seqno c"
  shows "\<not> snd (ev (fst (gate_run ev s cs)) d)"
proof
  assume "snd (ev (fst (gate_run ev s cs)) d)"
  then have above: "counter (fst (gate_run ev s cs)) < seqno d"
    using accept_above live_run [OF assms(1)] by blast
  have "sorted (map seqno (snd (gate_run ev s cs)))"
    using accepted_increasing [OF assms(1), of cs] by (simp add: strict_sorted_iff)
  moreover have "seqno c \<in> set (map seqno (snd (gate_run ev s cs)))" using assms(2) by simp
  ultimately have "seqno c \<le> last (map seqno (snd (gate_run ev s cs)))"
    by (rule sorted_le_last)
  also have "\<dots> = counter (fst (gate_run ev s cs))"
    using counter_run [OF assms(1), of cs] assms(2) by (cases "snd (gate_run ev s cs)") auto
  finally show False using above assms(3) by simp
qed

end

text \<open>
  Only the successor (modulo \<open>2 ^ 64\<close>, as \<open>last_sequence + 1\<close> is computed) of the counter is accepted:
  the accepted numbers are consecutive.
\<close>

locale successor_gate = seq_gate +
  assumes accept_next: "live s \<Longrightarrow> snd (ev s c) \<Longrightarrow> seqno c = counter s + 1"
begin

lemma accepted_nth:
  "live s \<Longrightarrow> i < length (snd (gate_run ev s cs)) \<Longrightarrow>
     seqno (snd (gate_run ev s cs) ! i) = counter s + of_nat (Suc i)"
proof (induction cs arbitrary: s i)
  case (Cons c cs)
  note IH = Cons.IH [OF live_step [OF Cons.prems(1), of c]]
  show ?case
  proof (cases "snd (ev s c)")
    case True
    with IH Cons.prems accept_sets [OF Cons.prems(1) True] accept_next [OF Cons.prems(1) True]
    show ?thesis
      by (cases i) (auto simp: gate_run_Cons algebra_simps simp del: gate_run.simps(2))
  next
    case False
    with IH Cons.prems reject_keeps [OF Cons.prems(1) False]
    show ?thesis by (simp add: gate_run_Cons del: gate_run.simps(2))
  qed
qed simp

lemma accepted_consecutive:
  "live s \<Longrightarrow> map seqno (snd (gate_run ev s cs)) =
     map (\<lambda>i. counter s + of_nat (Suc i)) [0..<length (snd (gate_run ev s cs))]"
  by (rule nth_equalityI) (simp_all add: accepted_nth)

lemma accepted_fresh:
  assumes "live s" and "length cs < 2 ^ 64"
  shows "distinct (map seqno (snd (gate_run ev s cs)))"
proof -
  have "inj_on (\<lambda>i. counter s + of_nat (Suc i)) {0..<length (snd (gate_run ev s cs))}"
  proof (rule inj_onI)
    fix i j assume ij: "i \<in> {0..<length (snd (gate_run ev s cs))}"
      "j \<in> {0..<length (snd (gate_run ev s cs))}"
      and eq: "counter s + of_nat (Suc i) = counter s + of_nat (Suc j)"
    from ij length_accepted [of ev s cs] assms(2) have "i < 2 ^ 64" "j < 2 ^ 64" by auto
    moreover from eq have "(of_nat i :: u64) = of_nat j" by simp
    ultimately show "i = j" by (simp only: of_nat_u64_inject)
  qed
  then show ?thesis using accepted_consecutive [OF assms(1), of cs]
    by (simp add: distinct_map)
qed

end

text \<open>Both together: no wrap-around is possible, the accepted numbers are exact successors.\<close>

lemma next_in_range:
  fixes c n :: u64
  shows "c < n \<and> n \<le> c + 1 \<longleftrightarrow> unat n = Suc (unat c)"
proof (cases "c = - 1")
  case True
  have "unat n < 2 ^ 64" and "unat c = 2 ^ 64 - 1"
    using unsigned_less [of n, where 'a = nat] True
    by (simp_all add: unsigned_minus_1_eq_mask mask_eq_exp_minus_1)
  then have "unat n \<noteq> Suc (unat c)" by simp
  moreover have "\<not> c < n" using True by (simp add: not_less)
  ultimately show ?thesis by simp
next
  case False
  then show ?thesis by (auto simp: word_less_nat_alt word_le_nat_alt unat_Suc_word)
qed

locale exact_gate = monotone_gate + successor_gate
begin

lemma accepted_exact:
  "live s \<Longrightarrow> map (\<lambda>c. unat (seqno c)) (snd (gate_run ev s cs)) =
     [Suc (unat (counter s))..<Suc (unat (counter s) + length (snd (gate_run ev s cs)))]"
proof (induction cs arbitrary: s)
  case (Cons c cs)
  note IH = Cons.IH [OF live_step [OF Cons.prems, of c]]
  show ?case
  proof (cases "snd (ev s c)")
    case True
    then have "unat (seqno c) = Suc (unat (counter s))"
      using accept_above [OF Cons.prems True] accept_next [OF Cons.prems True]
        next_in_range [of "counter s" "seqno c"] by simp
    moreover define acc where "acc = snd (gate_run ev (fst (ev s c)) cs)"
    ultimately have "map (\<lambda>c. unat (seqno c)) (c # acc) =
        Suc (unat (counter s)) # [Suc (Suc (unat (counter s)))..<Suc (Suc (unat (counter s)) + length acc)]"
      using IH accept_sets [OF Cons.prems True] by simp
    also have "\<dots> = [Suc (unat (counter s))..<Suc (unat (counter s) + length (c # acc))]"
      by (subst upt_conv_Cons [symmetric]) simp_all
    finally show ?thesis using True by (simp only: gate_run_Cons acc_def) simp
  next
    case False
    then show ?thesis using IH reject_keeps [OF Cons.prems False] by (simp only: gate_run_Cons) simp
  qed
qed simp

end

section \<open>Authenticity\<close>

text \<open>
  The state pins a credential (a key, or a key with the rights granted to it) that no command
  changes, and a command is accepted only when it is authentic under that credential.
\<close>

locale keyed_gate =
  fixes ev :: "'s \<Rightarrow> 'c \<Rightarrow> 's \<times> bool"
    and enrolled :: "'s \<Rightarrow> bool"
    and pinned_key :: "'s \<Rightarrow> 'k"
    and authentic :: "'k \<Rightarrow> 'c \<Rightarrow> bool"
  assumes enrolled_step: "enrolled s \<Longrightarrow> enrolled (fst (ev s c))"
    and key_step: "enrolled s \<Longrightarrow> pinned_key (fst (ev s c)) = pinned_key s"
    and accept_authentic: "enrolled s \<Longrightarrow> snd (ev s c) \<Longrightarrow> authentic (pinned_key s) c"
begin

lemma key_run:
  "enrolled s \<Longrightarrow> enrolled (fst (gate_run ev s cs)) \<and>
     pinned_key (fst (gate_run ev s cs)) = pinned_key s"
  by (induction cs arbitrary: s)
    (auto simp: gate_run_Cons enrolled_step key_step simp del: gate_run.simps(2))

lemma accepted_authentic:
  "enrolled s \<Longrightarrow> c \<in> set (snd (gate_run ev s cs)) \<Longrightarrow> authentic (pinned_key s) c"
proof (induction cs arbitrary: s)
  case (Cons d cs)
  note IH = Cons.IH [OF enrolled_step [OF Cons.prems(1), of d]]
  show ?case
  proof (cases "c \<in> set (snd (gate_run ev (fst (ev s d)) cs))")
    case True
    from IH [OF this] show ?thesis by (simp add: key_step [OF Cons.prems(1)])
  next
    case False
    with Cons.prems(2) have "c = d" "snd (ev s d)"
      by (auto simp: gate_run_Cons simp del: gate_run.simps(2) split: if_splits)
    with accept_authentic [OF Cons.prems(1)] show ?thesis by simp
  qed
qed simp

end

text \<open>
  A gate that can also enrol: a command accepted before enrolment enrols its sender, and is
  authentic under the credential it thereby pins.
\<close>

locale enrolling_gate = keyed_gate +
  assumes accept_enrols: "\<not> enrolled s \<Longrightarrow> snd (ev s c) \<Longrightarrow>
    enrolled (fst (ev s c)) \<and> authentic (pinned_key (fst (ev s c))) c"
begin

lemma accepted_by_final:
  "c \<in> set (snd (gate_run ev s cs)) \<Longrightarrow> authentic (pinned_key (fst (gate_run ev s cs))) c"
proof (induction cs arbitrary: s)
  case (Cons d cs)
  let ?t = "fst (ev s d)"
  show ?case
  proof (cases "c \<in> set (snd (gate_run ev ?t cs))")
    case True
    from Cons.IH [OF this] show ?thesis by (simp only: gate_run_Cons fst_conv)
  next
    case False
    with Cons.prems have c: "c = d" "snd (ev s d)"
      by (auto simp: gate_run_Cons simp del: gate_run.simps(2) split: if_splits)
    then have "enrolled ?t" "authentic (pinned_key ?t) d"
      using accept_enrols [of s d] accept_authentic [of s d] key_step [of s d] enrolled_step [of s d]
      by metis+
    with key_run [of ?t cs] c(1) show ?thesis by (simp only: gate_run_Cons fst_conv)
  qed
qed simp

end

end
