(* ===== verification/Core.thy ===== *)
theory Core
  imports Gate0_Header Gate_Interface
begin

text \<open>
  \<open>src/core.c\<close>, \<open>src/interlocks.c\<close> and \<open>src/reference_core.c\<close>: the single-sender evaluator.
  \<open>evaluate_command\<close> works on valid pointers; \<open>evaluate_command_ptr\<close> is the same code on
  pointers that may be NULL. The compile-time switch \<open>GATE0_SIMULATION\<close> is the argument
  \<open>sim\<close>, libsodium's verification the argument \<open>vf\<close>.
\<close>

section \<open>The evaluator\<close>

definition interlock_tripped :: "SafetyInterlocks \<Rightarrow> bool" where
  "interlock_tripped il \<longleftrightarrow>
     estop il \<noteq> 0 \<or> overspeed il \<noteq> 0 \<or> overtemp il \<noteq> 0 \<or> overvoltage il \<noteq> 0"

text \<open>\<open>check_interlocks\<close> of \<open>src/interlocks.c\<close>.\<close>

definition check_interlocks :: "SafetyInterlocks \<Rightarrow> SafetyInterlocks" where
  "check_interlocks il = il\<lparr>estop := 0, overspeed := 0, overtemp := 0, overvoltage := 0\<rparr>"

definition bootstrap_token :: "SignedCommand \<Rightarrow> u32" where
  "bootstrap_token cmd = le_word (take 4 (env_payload (envelope cmd)))"

definition bootstrap :: "SignedCommand \<Rightarrow> SenderRecord \<Rightarrow> SenderRecord" where
  "bootstrap cmd sender =
     sender\<lparr>used := True, public_key := field_at 4 32 (env_payload (envelope cmd)), last_sequence := 0\<rparr>"

definition evaluate_command ::
    "bool \<Rightarrow> sig_verify \<Rightarrow> SignedCommand \<Rightarrow> SenderRecord \<Rightarrow> SafetyInterlocks \<Rightarrow> u64 \<Rightarrow>
     GateOResult \<times> SenderRecord \<times> SafetyInterlocks" where
  "evaluate_command sim vf cmd sender il now =
     (let il = (if sim then zero_interlocks else il) in
      if interlock_tripped il then (GO_INTERLOCK_TRIPPED, sender, il)
      else if \<not> used sender \<and> bootstrap_token cmd \<noteq> 0xDEADBEEF
      then (GO_SENDER_NOT_FOUND, sender, il)
      else
        let sender = (if used sender then sender else bootstrap cmd sender) in
        if env_sequence (envelope cmd) \<noteq> last_sequence sender + 1
        then (GO_SEQUENCE_INVALID, sender, il)
        else if now < env_issued_at_ns (envelope cmd) \<or> env_expires_at_ns (envelope cmd) < now
        then (GO_EXPIRED, sender, il)
        else if vf (signature cmd) (envelope_bytes (envelope cmd)) (public_key sender) \<noteq> 0
        then (GO_SIGNATURE_INVALID, sender, il)
        else (GO_OK, sender\<lparr>last_sequence := env_sequence (envelope cmd)\<rparr>, il))"

text \<open>\<open>reference_evaluate_command\<close> of \<open>src/reference_core.c\<close> forwards the call.\<close>

definition reference_evaluate_command ::
    "bool \<Rightarrow> sig_verify \<Rightarrow> SignedCommand \<Rightarrow> SenderRecord \<Rightarrow> SafetyInterlocks \<Rightarrow> u64 \<Rightarrow>
     GateOResult \<times> SenderRecord \<times> SafetyInterlocks" where
  "reference_evaluate_command sim vf cmd sender il now = evaluate_command sim vf cmd sender il now"

text \<open>
  The same code on pointers: \<open>memset(il, \<dots>)\<close> and \<open>il->estop\<close> dereference \<open>il\<close> first, and
  \<open>sender->used\<close> is read only when no interlock is tripped.
\<close>

definition evaluate_command_ptr ::
    "bool \<Rightarrow> sig_verify \<Rightarrow> SignedCommand \<Rightarrow> SenderRecord option \<Rightarrow> SafetyInterlocks option \<Rightarrow> u64 \<Rightarrow>
     fault + GateOResult \<times> SenderRecord option \<times> SafetyInterlocks option" where
  "evaluate_command_ptr sim vf cmd sender il now =
     (case il of
        None \<Rightarrow> Inl NullDeref
      | Some i \<Rightarrow>
          (case sender of
             None \<Rightarrow>
               (let i = (if sim then zero_interlocks else i) in
                if interlock_tripped i then Inr (GO_INTERLOCK_TRIPPED, None, Some i)
                else Inl NullDeref)
           | Some s \<Rightarrow>
               (let (r, s', i') = evaluate_command sim vf cmd s i now
                in Inr (r, Some s', Some i'))))"

section \<open>One evaluation\<close>

lemma zero_interlocks_clear [simp]: "\<not> interlock_tripped zero_interlocks"
  by (simp add: interlock_tripped_def zero_interlocks_def)

lemma check_interlocks_clear [simp]: "\<not> interlock_tripped (check_interlocks il)"
  by (simp add: interlock_tripped_def check_interlocks_def)

text \<open>The record a command is judged against, and the freshness window.\<close>

definition judged_sender :: "SignedCommand \<Rightarrow> SenderRecord \<Rightarrow> SenderRecord" where
  "judged_sender cmd sender = (if used sender then sender else bootstrap cmd sender)"

definition within_window :: "'a SignedCommand_scheme \<Rightarrow> u64 \<Rightarrow> bool" where
  "within_window cmd now \<longleftrightarrow>
     env_issued_at_ns (envelope cmd) \<le> now \<and> now \<le> env_expires_at_ns (envelope cmd)"

definition signed_by :: "sig_verify \<Rightarrow> bytes \<Rightarrow> 'a SignedCommand_scheme \<Rightarrow> bool" where
  "signed_by vf pk cmd \<longleftrightarrow> vf (signature cmd) (envelope_bytes (envelope cmd)) pk = 0"

lemma used_judged [simp]: "used (judged_sender cmd s)"
  by (simp add: judged_sender_def bootstrap_def)

lemma judged_used: "used s \<Longrightarrow> judged_sender cmd s = s"
  by (simp add: judged_sender_def)

lemma judged_unused:
  "\<not> used s \<Longrightarrow> last_sequence (judged_sender cmd s) = 0"
  "\<not> used s \<Longrightarrow> public_key (judged_sender cmd s) = field_at 4 32 (env_payload (envelope cmd))"
  by (simp_all add: judged_sender_def bootstrap_def)

lemmas judged_cases = judged_used judged_unused

text \<open>The evaluator as one chain of checks, the form every proof below starts from.\<close>

lemma evaluate_command_alt:
  "evaluate_command sim vf cmd s il now =
     (let il = (if sim then zero_interlocks else il); j = judged_sender cmd s in
      if interlock_tripped il then (GO_INTERLOCK_TRIPPED, s, il)
      else if \<not> used s \<and> bootstrap_token cmd \<noteq> 0xDEADBEEF then (GO_SENDER_NOT_FOUND, s, il)
      else if env_sequence (envelope cmd) \<noteq> last_sequence j + 1 then (GO_SEQUENCE_INVALID, j, il)
      else if \<not> within_window cmd now then (GO_EXPIRED, j, il)
      else if \<not> signed_by vf (public_key j) cmd then (GO_SIGNATURE_INVALID, j, il)
      else (GO_OK, j\<lparr>last_sequence := env_sequence (envelope cmd)\<rparr>, il))"
  by (simp add: evaluate_command_def Let_def judged_sender_def within_window_def signed_by_def not_le
      de_Morgan_conj)

lemma core_interlocks_after:
  "snd (snd (evaluate_command sim vf cmd s il now)) = (if sim then zero_interlocks else il)"
  by (simp add: evaluate_command_alt Let_def)

lemma core_tripped_iff:
  "fst (evaluate_command sim vf cmd s il now) = GO_INTERLOCK_TRIPPED \<longleftrightarrow> \<not> sim \<and> interlock_tripped il"
  by (cases sim) (simp_all add: evaluate_command_alt Let_def)

lemma core_tripped:
  "interlock_tripped il \<Longrightarrow> evaluate_command False vf cmd s il now = (GO_INTERLOCK_TRIPPED, s, il)"
  by (simp add: evaluate_command_alt Let_def)

lemmas core_interlock_facts = core_interlocks_after core_tripped_iff core_tripped

section \<open>The evaluator as a gate\<close>

text \<open>State: the sender record and the interlocks. Command: a signed command and the time it is judged at.\<close>

definition core_gate ::
    "bool \<Rightarrow> sig_verify \<Rightarrow> SenderRecord \<times> SafetyInterlocks \<Rightarrow> SignedCommand \<times> u64 \<Rightarrow>
     (SenderRecord \<times> SafetyInterlocks) \<times> bool" where
  "core_gate sim vf st c =
     (let (r, s', il') = evaluate_command sim vf (fst c) (fst st) (snd st) (snd c)
      in ((s', il'), r = GO_OK))"

definition core_counter :: "SenderRecord \<times> SafetyInterlocks \<Rightarrow> u64" where
  "core_counter st = (if used (fst st) then last_sequence (fst st) else 0)"

abbreviation core_seqno :: "SignedCommand \<times> u64 \<Rightarrow> u64" where
  "core_seqno c \<equiv> env_sequence (envelope (fst c))"

interpretation core: successor_gate "core_gate sim vf" "\<lambda>_. True" core_counter core_seqno for sim vf
  by unfold_locales
    (auto simp: core_gate_def core_counter_def evaluate_command_alt Let_def judged_sender_def
        bootstrap_def split: if_splits)

interpretation core_key: enrolling_gate "core_gate sim vf" "\<lambda>st. used (fst st)"
    "\<lambda>st. public_key (fst st)" "\<lambda>pk c. signed_by vf pk (fst c)" for sim vf
  by unfold_locales
    (auto simp: core_gate_def evaluate_command_alt Let_def judged_cases split: if_splits)

section \<open>Properties\<close>

text \<open>
  C1: What \<open>evaluate_command\<close> returns, for every input: each result code is returned exactly under its condition,
  in the order of the checks, and no other code is ever returned.
\<close>

theorem core_result_table:
  "let i = (if sim then zero_interlocks else il);
       j = judged_sender cmd s;
       r = fst (evaluate_command sim vf cmd s il now);
       trip = interlock_tripped i;
       known = (used s \<or> bootstrap_token cmd = 0xDEADBEEF);
       inseq = (env_sequence (envelope cmd) = last_sequence j + 1);
       fresh = within_window cmd now;
       signed = signed_by vf (public_key j) cmd
   in (r = GO_INTERLOCK_TRIPPED \<longleftrightarrow> trip) \<and>
      (r = GO_SENDER_NOT_FOUND \<longleftrightarrow> \<not> trip \<and> \<not> known) \<and>
      (r = GO_SEQUENCE_INVALID \<longleftrightarrow> \<not> trip \<and> known \<and> \<not> inseq) \<and>
      (r = GO_EXPIRED \<longleftrightarrow> \<not> trip \<and> known \<and> inseq \<and> \<not> fresh) \<and>
      (r = GO_SIGNATURE_INVALID \<longleftrightarrow> \<not> trip \<and> known \<and> inseq \<and> fresh \<and> \<not> signed) \<and>
      (r = GO_OK \<longleftrightarrow> \<not> trip \<and> known \<and> inseq \<and> fresh \<and> signed) \<and>
      r \<notin> {GO_INVALID_VERSION, GO_HEARTBEAT_OK, GO_HEARTBEAT_MISSED, GO_HEARTBEAT_INVALID}"
  unfolding evaluate_command_alt Let_def
  by (cases "interlock_tripped (if sim then zero_interlocks else il)";
      cases "used s \<or> bootstrap_token cmd = 0xDEADBEEF";
      cases "env_sequence (envelope cmd) = last_sequence (judged_sender cmd s) + 1";
      cases "within_window cmd now";
      cases "signed_by vf (public_key (judged_sender cmd s)) cmd") (simp_all cong: if_cong)

text \<open>
  C2: Over any run of commands from a fresh (zeroed) sender record, at any times and under any
  interlock states, the accepted sequence numbers are 1, 2, 3, ... in order (computed modulo
  2^64): nothing is accepted twice, out of order or after a gap, and rejected commands,
  interleaved anywhere, do not disturb the count.
\<close>

theorem core_run_consecutive:
  "map core_seqno (snd (gate_run (core_gate sim vf) (zero_sender, il) cs)) =
     map of_nat [1..<Suc (length (snd (gate_run (core_gate sim vf) (zero_sender, il) cs)))]"
  (is "map _ ?acc = _")
proof -
  have "map core_seqno ?acc = map (\<lambda>i. of_nat (Suc i)) [0..<length ?acc]"
    using core.accepted_consecutive [where s = "(zero_sender, il)" and sim = sim and vf = vf and cs = cs]
    by (simp add: core_counter_def zero_sender_def)
  then show ?thesis by (simp only: One_nat_def map_Suc_upt [symmetric] map_map comp_def)
qed

text \<open>
  C3: Over any run from any state, every accepted command carries a signature, over exactly
  its envelope bytes, that verifies under the one key the sender record holds at the end.
\<close>

theorem core_run_authentic:
  assumes "(cmd, now) \<in> set (snd (gate_run (core_gate sim vf) st cs))"
  shows "vf (signature cmd) (envelope_bytes (envelope cmd))
           (public_key (fst (fst (gate_run (core_gate sim vf) st cs)))) = 0"
  using core_key.accepted_by_final [OF assms] by (simp add: signed_by_def)

text \<open>A demonstration command that enrols the all-zero key and is signed by it.\<close>

definition demo_command :: "u64 \<Rightarrow> bytes \<Rightarrow> SignedCommand" where
  "demo_command seq sg =
     \<lparr>envelope = \<lparr>env_version = 1, env_command_id = 7, env_sequence = seq, env_timestamp_ns = 5,
        env_sender_id = replicate 32 0, env_payload = le_bytes 4 (0xDEADBEEF :: u32) @ replicate 252 0,
        env_payload_len = 36, env_issued_at_ns = 10, env_expires_at_ns = 20\<rparr>,
      signature = sg\<rparr>"

lemma demo_command_simps [simp]:
  "bootstrap_token (demo_command seq sg) = 0xDEADBEEF"
  "within_window (demo_command seq sg) now \<longleftrightarrow> 10 \<le> now \<and> now \<le> 20"
  "env_sequence (envelope (demo_command seq sg)) = seq"
  "field_at 4 32 (env_payload (envelope (demo_command seq sg))) = replicate 32 0"
  "signature (demo_command seq sg) = sg"
  "wf_command (demo_command seq sg) \<longleftrightarrow> length sg = 64"
  by (simp_all add: demo_command_def bootstrap_token_def within_window_def codec field_at_def byte_len
      le_word_le_bytes wf_command_def wf_envelope_def)

lemma demo_command_evaluates:
  "evaluate_command False demo_verify (demo_command 1 (replicate 64 0)) zero_sender zero_interlocks 12 =
     (GO_OK, \<lparr>public_key = replicate 32 0, last_sequence = 1, used = True\<rparr>, zero_interlocks)"
  by (simp add: evaluate_command_alt Let_def judged_sender_def bootstrap_def zero_sender_def
      signed_by_def demo_verify_def)

theorem core_run_authentic_witness:
  "demo_verify (replicate 64 0) (envelope_bytes (envelope (demo_command 1 (replicate 64 0))))
     (public_key (fst (fst (gate_run (core_gate False demo_verify) (zero_sender, zero_interlocks)
        [(demo_command 1 (replicate 64 0), 12)])))) = 0"
  using core_run_authentic [of "demo_command 1 (replicate 64 0)" 12 False demo_verify
      "(zero_sender, zero_interlocks)" "[(demo_command 1 (replicate 64 0), 12)]"]
  by (simp add: core_gate_def demo_command_evaluates)

text \<open>
  A tripped interlock stops everything: outside simulation builds no command is accepted, whatever its token,
  number, time or signature, and neither the sender record nor the interlock block changes. A
  simulation build clears the block first, so there the interlocks never stop a command.
\<close>

theorem core_interlock_safety:
  "(if interlock_tripped il
    then evaluate_command False vf cmd s il now = (GO_INTERLOCK_TRIPPED, s, il)
    else fst (evaluate_command False vf cmd s il now) \<noteq> GO_INTERLOCK_TRIPPED \<and>
         snd (snd (evaluate_command False vf cmd s il now)) = il) \<and>
   fst (evaluate_command False vf cmd s (check_interlocks il) now) \<noteq> GO_INTERLOCK_TRIPPED \<and>
   fst (evaluate_command True vf cmd s il now) \<noteq> GO_INTERLOCK_TRIPPED \<and>
   snd (snd (evaluate_command True vf cmd s il now)) = zero_interlocks"
  by (simp add: core_interlock_facts)

text \<open>
  C26: Enrolment precedes authentication: the first command that carries the bootstrap token
  pins the key in its payload even when the command itself is then rejected (for example for
  its signature), and from there on only commands signed by that key are ever accepted.
\<close>

theorem core_enrolment_unauthenticated:
  assumes "\<not> used s" and "\<not> interlock_tripped il" and "bootstrap_token cmd = 0xDEADBEEF"
  shows "let s' = fst (snd (evaluate_command False vf cmd s il now)); pk = field_at 4 32 (env_payload (envelope cmd)) in
     used s' \<and> public_key s' = pk \<and>
     list_all (\<lambda>c. signed_by vf pk (fst c)) (snd (gate_run (core_gate False vf) (s', il) cs))"
proof -
  let ?s = "fst (snd (evaluate_command False vf cmd s il now))"
  let ?pk = "field_at 4 32 (env_payload (envelope cmd))"
  have s: "used ?s" "public_key ?s = ?pk"
    using assms by (simp_all add: evaluate_command_alt Let_def judged_cases)
  have "list_all (\<lambda>c. signed_by vf ?pk (fst c)) (snd (gate_run (core_gate False vf) (?s, il) cs))"
    using core_key.accepted_authentic [of "(?s, il)" _ False vf cs] s by (simp add: list_all_iff)
  with s show ?thesis by (simp add: Let_def)
qed

theorem core_enrolment_unauthenticated_witness:
  "let s' = fst (snd (evaluate_command False (\<lambda>_ _ _. -1) (demo_command 1 []) zero_sender
                        zero_interlocks 12));
       pk = field_at 4 32 (env_payload (envelope (demo_command 1 []))) in
   fst (evaluate_command False (\<lambda>_ _ _. -1) (demo_command 1 []) zero_sender zero_interlocks 12) =
     GO_SIGNATURE_INVALID \<and>
   used s' \<and> public_key s' = pk \<and>
   list_all (\<lambda>c. signed_by (\<lambda>_ _ _. -1) pk (fst c))
     (snd (gate_run (core_gate False (\<lambda>_ _ _. -1)) (s', zero_interlocks) []))"
proof -
  have "\<not> used zero_sender" by (simp add: zero_sender_def)
  from core_enrolment_unauthenticated [OF this zero_interlocks_clear
      demo_command_simps(1) [of 1 "[]"], where vf = "\<lambda>_ _ _. -1" and now = 12 and cs = "[]"]
  show ?thesis
    by (simp add: Let_def evaluate_command_alt judged_sender_def bootstrap_def zero_sender_def signed_by_def)
qed

end
