(* ===== verification/Evidence_Core.thy ===== *)
theory Evidence_Core
  imports Gate0_Header Gate_Interface
begin

text \<open>
  The predecessor kept under \<open>evidence/g0_integration_pass/\<close>: its header
  (512-byte frames, the signature first) and its evaluator, which enrols the first sender it hears from
  without a bootstrap token and accepts any number above the last one.
\<close>

section \<open>The frame\<close>

record EvidenceEnvelope =
  ev_version :: u32
  ev_sequence :: u64
  ev_issued_at_ns :: u64
  ev_expires_at_ns :: u64
  ev_payload :: bytes
  ev_required_authority :: u32
  ev_device :: DeviceInfo

record EvidenceCommand =
  ev_signature :: bytes
  ev_envelope :: EvidenceEnvelope

record EvidenceInterlocks =
  ev_estop :: bool
  ev_overspeed :: bool
  ev_overtemp :: bool
  ev_overvoltage :: bool

definition wf_evidence :: "EvidenceCommand \<Rightarrow> bool" where
  "wf_evidence c \<longleftrightarrow> length (ev_signature c) = 64 \<and> length (ev_payload (ev_envelope c)) = 256 \<and>
     wf_device (ev_device (ev_envelope c))"

definition evidence_envelope_bytes :: "EvidenceEnvelope \<Rightarrow> bytes" where
  "evidence_envelope_bytes e =
     le_bytes 4 (ev_version e) @ le_bytes 8 (ev_sequence e) @ le_bytes 8 (ev_issued_at_ns e) @
     le_bytes 8 (ev_expires_at_ns e) @ ev_payload e @ le_bytes 4 (ev_required_authority e) @
     device_bytes (ev_device e)"

definition evidence_command_bytes :: "EvidenceCommand \<Rightarrow> bytes" where
  "evidence_command_bytes c = ev_signature c @ evidence_envelope_bytes (ev_envelope c)"

definition evidence_command_of_bytes :: "bytes \<Rightarrow> EvidenceCommand" where
  "evidence_command_of_bytes bs =
     \<lparr>ev_signature = field_at 0 64 bs,
      ev_envelope = \<lparr>ev_version = le_word (field_at 64 4 bs), ev_sequence = le_word (field_at 68 8 bs),
        ev_issued_at_ns = le_word (field_at 76 8 bs), ev_expires_at_ns = le_word (field_at 84 8 bs),
        ev_payload = field_at 92 256 bs, ev_required_authority = le_word (field_at 348 4 bs),
        ev_device = \<lparr>os_name = field_at 352 32 bs, os_release = field_at 384 32 bs,
          machine_arch = field_at 416 32 bs, hostname = field_at 448 64 bs\<rparr>\<rparr>\<rparr>"

lemma evidence_frame_length [byte_len]:
  "wf_evidence c \<Longrightarrow> length (evidence_command_bytes c) = 512"
  by (simp add: evidence_command_bytes_def evidence_envelope_bytes_def wf_evidence_def byte_len)

lemma evidence_frame_decodes:
  "wf_evidence c \<Longrightarrow> evidence_command_of_bytes (evidence_command_bytes c) = c"
  by (simp add: evidence_command_of_bytes_def evidence_command_bytes_def evidence_envelope_bytes_def
      device_bytes_def wf_evidence_def wf_device_def codec byte_len field_at_all)

section \<open>The evaluator\<close>

definition evidence_tripped :: "EvidenceInterlocks \<Rightarrow> bool" where
  "evidence_tripped il \<longleftrightarrow> ev_estop il \<or> ev_overspeed il \<or> ev_overtemp il \<or> ev_overvoltage il"

definition evidence_evaluate_command ::
    "bool \<Rightarrow> sig_verify \<Rightarrow> EvidenceCommand \<Rightarrow> SenderRecord \<Rightarrow> EvidenceInterlocks \<Rightarrow> u64 \<Rightarrow>
     GateOResult \<times> SenderRecord \<times> EvidenceInterlocks" where
  "evidence_evaluate_command sim vf cmd sender il now =
     (let il = (if sim then \<lparr>ev_estop = False, ev_overspeed = False, ev_overtemp = False,
                             ev_overvoltage = False\<rparr> else il) in
      if evidence_tripped il then (GO_INTERLOCK_TRIPPED, sender, il)
      else
        let sender =
              (if used sender then sender
               else sender\<lparr>used := True, public_key := take 32 (ev_payload (ev_envelope cmd)),
                           last_sequence := 0\<rparr>) in
        if ev_sequence (ev_envelope cmd) \<le> last_sequence sender
        then (GO_SEQUENCE_INVALID, sender, il)
        else if now < ev_issued_at_ns (ev_envelope cmd) \<or> ev_expires_at_ns (ev_envelope cmd) < now
        then (GO_EXPIRED, sender, il)
        else if vf (ev_signature cmd) (evidence_envelope_bytes (ev_envelope cmd)) (public_key sender) \<noteq> 0
        then (GO_SIGNATURE_INVALID, sender, il)
        else (GO_OK, sender\<lparr>last_sequence := ev_sequence (ev_envelope cmd)\<rparr>, il))"

section \<open>The evaluator as a gate\<close>

definition evidence_gate ::
    "bool \<Rightarrow> sig_verify \<Rightarrow> SenderRecord \<times> EvidenceInterlocks \<Rightarrow> EvidenceCommand \<times> u64 \<Rightarrow>
     (SenderRecord \<times> EvidenceInterlocks) \<times> bool" where
  "evidence_gate sim vf st c =
     (let (r, s', il') = evidence_evaluate_command sim vf (fst c) (fst st) (snd st) (snd c)
      in ((s', il'), r = GO_OK))"

definition evidence_counter :: "SenderRecord \<times> EvidenceInterlocks \<Rightarrow> u64" where
  "evidence_counter st = (if used (fst st) then last_sequence (fst st) else 0)"

abbreviation evidence_seqno :: "EvidenceCommand \<times> u64 \<Rightarrow> u64" where
  "evidence_seqno c \<equiv> ev_sequence (ev_envelope (fst c))"

interpretation evidence: monotone_gate "evidence_gate sim vf" "\<lambda>_. True" evidence_counter
    evidence_seqno for sim vf
  by unfold_locales
    (auto simp: evidence_gate_def evidence_counter_def evidence_evaluate_command_def Let_def
      word_gt_0 split: if_splits)

interpretation evidence_key: enrolling_gate "evidence_gate sim vf" "\<lambda>st. used (fst st)"
    "\<lambda>st. public_key (fst st)"
    "\<lambda>pk c. vf (ev_signature (fst c)) (evidence_envelope_bytes (ev_envelope (fst c))) pk = 0" for sim vf
  by unfold_locales
    (auto simp: evidence_gate_def evidence_evaluate_command_def Let_def split: if_splits)

section \<open>Properties\<close>

text \<open>
  In any run of the predecessor evaluator, from any state, the accepted sequence numbers
  strictly increase and all lie above the starting counter; gaps, unlike in the current
  evaluator, are allowed.
\<close>

theorem evidence_run_increasing:
  "sorted_wrt (<) (evidence_counter st # map evidence_seqno (snd (gate_run (evidence_gate sim vf) st cs)))"
  by (rule evidence.accepted_increasing) simp

end
