(* ===== verification/Multiclient.thy ===== *)
theory Multiclient
  imports Core
begin

text \<open>
  \<open>src/core_multiclient.c\<close>: a table of senders, searched by the public key the command carries, with
  automatic enrolment of unknown keys while a slot is free. The file reads a field
  \<open>cmd->sender_pubkey\<close> that \<open>gate0.h\<close> does not declare; here it extends the record of \<open>gate0.h\<close>.
  The array \<open>senders\<close> and its length \<open>max_senders\<close> are one list.
\<close>

section \<open>The evaluator\<close>

record PkCommand = SignedCommand +
  sender_pubkey :: bytes

definition find_sender_slot :: "bytes \<Rightarrow> SenderRecord list \<Rightarrow> nat option" where
  "find_sender_slot pk senders = find_index (\<lambda>r. used r \<and> public_key r = pk) senders"

definition free_sender_slot :: "SenderRecord list \<Rightarrow> nat option" where
  "free_sender_slot senders = find_index (\<lambda>r. \<not> used r) senders"

text \<open>The two search loops: the matched slot, with the key enrolled in the first free slot if it is new.\<close>

definition match_or_enroll :: "bytes \<Rightarrow> SenderRecord list \<Rightarrow> (nat \<times> SenderRecord list) option" where
  "match_or_enroll pk senders =
     (case find_sender_slot pk senders of
        Some i \<Rightarrow> Some (i, senders)
      | None \<Rightarrow>
          (case free_sender_slot senders of
             Some i \<Rightarrow>
               Some (i, senders[i := (senders ! i)\<lparr>used := True, public_key := pk, last_sequence := 0\<rparr>])
           | None \<Rightarrow> None))"

definition evaluate_command_multiclient ::
    "sig_verify \<Rightarrow> SenderRecord list \<Rightarrow> PkCommand \<Rightarrow> SafetyInterlocks \<Rightarrow> u64 \<Rightarrow>
     GateOResult \<times> SenderRecord list" where
  "evaluate_command_multiclient vf senders cmd il now =
     (if interlock_tripped il then (GO_INTERLOCK_TRIPPED, senders)
      else
        case match_or_enroll (sender_pubkey cmd) senders of
          None \<Rightarrow> (GO_SENDER_NOT_FOUND, senders)
        | Some (i, senders) \<Rightarrow>
            if env_sequence (envelope cmd) \<le> last_sequence (senders ! i)
            then (GO_SEQUENCE_INVALID, senders)
            else if now < env_issued_at_ns (envelope cmd) \<or> env_expires_at_ns (envelope cmd) < now
            then (GO_EXPIRED, senders)
            else if vf (signature cmd) (envelope_bytes (envelope cmd)) (public_key (senders ! i)) \<noteq> 0
            then (GO_SIGNATURE_INVALID, senders)
            else (GO_OK, senders[i := (senders ! i)\<lparr>last_sequence := env_sequence (envelope cmd)\<rparr>]))"

section \<open>The table\<close>

lemma match_or_enroll_cases:
  assumes "match_or_enroll pk senders = Some (i, t)"
  obtains (known) "find_sender_slot pk senders = Some i" "t = senders" "i < length senders"
      "used (senders ! i)" "public_key (senders ! i) = pk"
    | (enrolled) "find_sender_slot pk senders = None" "free_sender_slot senders = Some i"
      "i < length senders" "\<not> used (senders ! i)"
      "t = senders[i := (senders ! i)\<lparr>used := True, public_key := pk, last_sequence := 0\<rparr>]"
proof (cases "find_sender_slot pk senders")
  case None
  with assms obtain free: "free_sender_slot senders = Some i"
    and t: "t = senders[i := (senders ! i)\<lparr>used := True, public_key := pk, last_sequence := 0\<rparr>]"
    by (auto simp: match_or_enroll_def split: option.splits)
  from free have "i < length senders" "\<not> used (senders ! i)"
    unfolding free_sender_slot_def by (auto dest: find_index_SomeD)
  with None free t show ?thesis by (intro enrolled)
next
  case (Some j)
  with assms have "j = i" "t = senders" by (auto simp: match_or_enroll_def)
  moreover from Some have "j < length senders" "used (senders ! j)" "public_key (senders ! j) = pk"
    unfolding find_sender_slot_def by (auto dest: find_index_SomeD)
  ultimately show ?thesis using Some by (intro known) simp_all
qed

lemma match_or_enroll_slot:
  assumes "match_or_enroll pk senders = Some (i, t)"
  shows "i < length t" and "length t = length senders" and "used (t ! i)" and "public_key (t ! i) = pk"
    and "find_sender_slot pk t = Some i"
proof -
  have "i < length t \<and> length t = length senders \<and> used (t ! i) \<and> public_key (t ! i) = pk \<and>
      find_sender_slot pk t = Some i"
    using assms
  proof (cases rule: match_or_enroll_cases)
    case known
    then show ?thesis by simp
  next
    case enrolled
    have "find_sender_slot pk t = Some i"
      using enrolled(1,3) unfolding enrolled(5) find_sender_slot_def
      by (rule find_index_fresh) simp
    with enrolled(3,5) show ?thesis by simp
  qed
  then show "i < length t" and "length t = length senders" and "used (t ! i)" and "public_key (t ! i) = pk"
    and "find_sender_slot pk t = Some i" by blast+
qed

lemma match_or_enroll_other_keys:
  assumes "match_or_enroll pk senders = Some (i, t)" and "k \<noteq> pk"
  shows "find_sender_slot k t = find_sender_slot k senders"
  using assms(1)
proof (cases rule: match_or_enroll_cases)
  case enrolled
  then show ?thesis using assms(2) by (auto simp: find_sender_slot_def intro!: find_index_update)
qed simp

lemma match_or_enroll_other_slots:
  assumes "match_or_enroll pk senders = Some (i, t)" and "j \<noteq> i"
  shows "t ! j = senders ! j"
  using assms(1) by (cases rule: match_or_enroll_cases) (use assms(2) in simp_all)

text \<open>The counter of a key: its record's last sequence number, 0 while it is unknown.\<close>

definition client_counter :: "bytes \<Rightarrow> SenderRecord list \<Rightarrow> u64" where
  "client_counter pk senders =
     (case find_sender_slot pk senders of Some i \<Rightarrow> last_sequence (senders ! i) | None \<Rightarrow> 0)"

lemma client_counter_match:
  assumes "match_or_enroll pk senders = Some (i, t)"
  shows "last_sequence (t ! i) = client_counter pk senders" and "client_counter pk t = client_counter pk senders"
proof -
  show "last_sequence (t ! i) = client_counter pk senders"
    using assms by (cases rule: match_or_enroll_cases) (simp_all add: client_counter_def)
  then show "client_counter pk t = client_counter pk senders"
    by (simp add: client_counter_def [of pk t] match_or_enroll_slot(5) [OF assms])
qed

section \<open>One evaluation\<close>

lemma evaluate_multiclient_cases:
  assumes "evaluate_command_multiclient vf senders cmd il now = (r, t)"
  obtains (stopped) "r \<noteq> GO_OK" "t = senders"
    | (refused) i where "r \<noteq> GO_OK" "match_or_enroll (sender_pubkey cmd) senders = Some (i, t)"
    | (accepted) i u where "r = GO_OK" "\<not> interlock_tripped il"
        "match_or_enroll (sender_pubkey cmd) senders = Some (i, u)"
        "client_counter (sender_pubkey cmd) senders < env_sequence (envelope cmd)"
        "within_window cmd now" "signed_by vf (sender_pubkey cmd) cmd"
        "t = u[i := (u ! i)\<lparr>last_sequence := env_sequence (envelope cmd)\<rparr>]"
proof (cases "interlock_tripped il \<or> match_or_enroll (sender_pubkey cmd) senders = None")
  case True
  with assms stopped show ?thesis
    by (auto simp: evaluate_command_multiclient_def split: if_splits)
next
  case False
  then obtain i u where m: "match_or_enroll (sender_pubkey cmd) senders = Some (i, u)" by auto
  note slot = client_counter_match(1) [OF m] match_or_enroll_slot(4) [OF m]
  show ?thesis
  proof (cases "r = GO_OK")
    case True
    show ?thesis
      by (rule accepted [OF True _ m])
        (use assms False m True slot in
          \<open>auto simp: evaluate_command_multiclient_def within_window_def signed_by_def not_le
             split: if_splits\<close>)
  next
    case no: False
    then have "t = u"
      using assms False m by (auto simp: evaluate_command_multiclient_def split: if_splits)
    with no m refused show ?thesis by simp
  qed
qed

lemma find_slot_after_accept:
  assumes "match_or_enroll pk senders = Some (i, u)"
  shows "find_sender_slot k (u[i := (u ! i)\<lparr>last_sequence := n\<rparr>]) = find_sender_slot k u"
  unfolding find_sender_slot_def
  by (rule find_index_update) (simp_all add: match_or_enroll_slot(1) [OF assms])

lemma client_counter_accept:
  assumes "match_or_enroll pk senders = Some (i, u)"
  shows "client_counter pk (u[i := (u ! i)\<lparr>last_sequence := n\<rparr>]) = n"
  using match_or_enroll_slot(1) [OF assms]
  by (simp add: client_counter_def find_slot_after_accept [OF assms] match_or_enroll_slot(5) [OF assms])

lemma client_counter_other:
  assumes "match_or_enroll pk senders = Some (i, u)" and "k \<noteq> pk"
  shows "client_counter k u = client_counter k senders"
    and "client_counter k (u[i := (u ! i)\<lparr>last_sequence := n\<rparr>]) = client_counter k senders"
proof -
  have ne: "j \<noteq> i" if "find_sender_slot k u = Some j" for j
    using that match_or_enroll_slot(4) [OF assms(1)] assms(2)
    by (auto simp: find_sender_slot_def find_index_Some)
  note slot = match_or_enroll_other_keys [OF assms] match_or_enroll_other_slots [OF assms(1)]
  show "client_counter k u = client_counter k senders"
    using slot ne by (auto simp: client_counter_def split: option.splits)
  then show "client_counter k (u[i := (u ! i)\<lparr>last_sequence := n\<rparr>]) = client_counter k senders"
    using ne by (auto simp: client_counter_def find_slot_after_accept [OF assms(1)] split: option.splits)
qed

section \<open>The evaluator as one gate per key\<close>

text \<open>
  Seen from one key \<open>pk\<close>, the table is a gate: commands of other keys count as not accepted.
  Command: the signed command, the interlocks and the time it is judged at.
\<close>

definition multi_gate ::
    "sig_verify \<Rightarrow> bytes \<Rightarrow> SenderRecord list \<Rightarrow> PkCommand \<times> SafetyInterlocks \<times> u64 \<Rightarrow>
     SenderRecord list \<times> bool" where
  "multi_gate vf pk senders c =
     (let (r, t) = evaluate_command_multiclient vf senders (fst c) (fst (snd c)) (snd (snd c))
      in (t, r = GO_OK \<and> sender_pubkey (fst c) = pk))"

abbreviation multi_seqno :: "PkCommand \<times> SafetyInterlocks \<times> u64 \<Rightarrow> u64" where
  "multi_seqno c \<equiv> env_sequence (envelope (fst c))"

lemma multi_gate_step:
  "client_counter pk (fst (multi_gate vf pk t c)) =
     (if snd (multi_gate vf pk t c) then multi_seqno c else client_counter pk t)"
  "snd (multi_gate vf pk t c) \<Longrightarrow>
     client_counter pk t < multi_seqno c \<and> signed_by vf pk (fst c)"
proof -
  obtain cmd il now where c: "c = (cmd, il, now)" by (cases c) auto
  obtain r u where eq: "evaluate_command_multiclient vf t cmd il now = (r, u)" by fastforce
  show "client_counter pk (fst (multi_gate vf pk t c)) =
     (if snd (multi_gate vf pk t c) then multi_seqno c else client_counter pk t)"
    using eq
    by (cases rule: evaluate_multiclient_cases; cases "pk = sender_pubkey cmd")
      (simp_all add: multi_gate_def c eq client_counter_match client_counter_other client_counter_accept)
  show "snd (multi_gate vf pk t c) \<Longrightarrow> client_counter pk t < multi_seqno c \<and> signed_by vf pk (fst c)"
    using eq
    by (cases rule: evaluate_multiclient_cases) (auto simp: multi_gate_def c eq)
qed

interpretation multi: monotone_gate "multi_gate vf pk" "\<lambda>_. True" "client_counter pk" multi_seqno
  for vf pk
  by unfold_locales (simp_all add: multi_gate_step)

interpretation multi_key: keyed_gate "multi_gate vf pk" "\<lambda>_. True" "\<lambda>_. pk"
    "\<lambda>k c. signed_by vf k (fst c)" for vf pk
  by unfold_locales (simp_all add: multi_gate_step)

section \<open>Table invariants\<close>

definition keys_unique :: "SenderRecord list \<Rightarrow> bool" where
  "keys_unique senders \<longleftrightarrow> distinct (map public_key (filter used senders))"

definition free_slots :: "SenderRecord list \<Rightarrow> nat" where
  "free_slots senders = length (filter (\<lambda>r. \<not> used r) senders)"

lemma keys_unique_enroll:
  assumes "keys_unique senders" and "match_or_enroll pk senders = Some (i, t)"
  shows "keys_unique t"
  using assms(2)
proof (cases rule: match_or_enroll_cases)
  case enrolled
  then have "pk \<notin> public_key ` set (filter used senders)"
    by (auto simp: find_sender_slot_def find_index_None)
  with enrolled assms(1) show ?thesis
    by (simp add: keys_unique_def distinct_filter_update_new)
qed (use assms in simp)

lemma keys_unique_set_last:
  "keys_unique senders \<Longrightarrow> i < length senders \<Longrightarrow>
     keys_unique (senders[i := (senders ! i)\<lparr>last_sequence := n\<rparr>])"
  by (simp add: keys_unique_def map_filter_update)

lemma free_slots_enroll:
  assumes "match_or_enroll pk senders = Some (i, t)"
  shows "free_slots senders = free_slots t + (if find_sender_slot pk senders = None then 1 else 0)"
  using assms
proof (cases rule: match_or_enroll_cases)
  case enrolled
  then show ?thesis
    using length_filter_update_gone [of i senders "\<lambda>r. \<not> used r"] by (simp add: free_slots_def)
qed simp

lemma free_slots_set_last:
  assumes "i < length senders"
  shows "free_slots (senders[i := (senders ! i)\<lparr>last_sequence := n\<rparr>]) = free_slots senders"
proof -
  have "map (\<lambda>_. ()) (filter (\<lambda>r. \<not> used r) (senders[i := (senders ! i)\<lparr>last_sequence := n\<rparr>])) =
      map (\<lambda>_. ()) (filter (\<lambda>r. \<not> used r) senders)"
    by (rule map_filter_update) (simp_all add: assms)
  then show ?thesis unfolding free_slots_def by (metis length_map)
qed

lemma free_sender_slot_None: "free_sender_slot senders = None \<longleftrightarrow> free_slots senders = 0"
  by (auto simp: free_sender_slot_def free_slots_def find_index_None filter_empty_conv)

lemma evaluate_multiclient_table:
  assumes "evaluate_command_multiclient vf senders cmd il now = (r, t)" and "keys_unique senders"
  shows "length t = length senders \<and> keys_unique t"
  using assms(1)
proof (cases rule: evaluate_multiclient_cases)
  case stopped
  with assms(2) show ?thesis by simp
next
  case (refused i)
  with assms(2) show ?thesis using match_or_enroll_slot(2) keys_unique_enroll by blast
next
  case (accepted i u)
  then have "length u = length senders" "keys_unique u" "i < length u"
    using match_or_enroll_slot(1,2) keys_unique_enroll [OF assms(2)] by blast+
  with accepted(7) show ?thesis by (simp add: keys_unique_set_last)
qed

section \<open>Properties\<close>

text \<open>
  The multi-client evaluator accepts a command exactly when no interlock is tripped, its
  key is in the table or can still be enrolled, its number is above the counter of that very key, the
  time lies in its window, and its signature over the envelope verifies under the key it names.
\<close>

theorem multi_accept_iff:
  "fst (evaluate_command_multiclient vf senders cmd il now) = GO_OK \<longleftrightarrow>
     \<not> interlock_tripped il \<and>
     (case find_sender_slot (sender_pubkey cmd) senders of Some _ \<Rightarrow> True | None \<Rightarrow> 0 < free_slots senders) \<and>
     client_counter (sender_pubkey cmd) senders < env_sequence (envelope cmd) \<and>
     within_window cmd now \<and> signed_by vf (sender_pubkey cmd) cmd"
proof (cases "match_or_enroll (sender_pubkey cmd) senders")
  case None
  then have "find_sender_slot (sender_pubkey cmd) senders = None" "free_slots senders = 0"
    by (auto simp: match_or_enroll_def free_sender_slot_None split: option.splits)
  with None show ?thesis by (simp add: evaluate_command_multiclient_def)
next
  case (Some p)
  obtain i t where "p = (i, t)" by fastforce
  with Some have m: "match_or_enroll (sender_pubkey cmd) senders = Some (i, t)" by simp
  then have "find_sender_slot (sender_pubkey cmd) senders \<noteq> None \<or> 0 < free_slots senders"
    by (cases rule: match_or_enroll_cases)
      (auto simp flip: free_sender_slot_None neq0_conv)
  then have room: "case find_sender_slot (sender_pubkey cmd) senders of Some _ \<Rightarrow> True | None \<Rightarrow> 0 < free_slots senders"
    by (auto split: option.split)
  have "fst (evaluate_command_multiclient vf senders cmd il now) = GO_OK \<longleftrightarrow>
      \<not> interlock_tripped il \<and> \<not> env_sequence (envelope cmd) \<le> last_sequence (t ! i) \<and>
      within_window cmd now \<and> signed_by vf (public_key (t ! i)) cmd"
    by (auto simp: evaluate_command_multiclient_def m within_window_def signed_by_def)
  with room show ?thesis
    by (simp add: client_counter_match(1) [OF m] match_or_enroll_slot(4) [OF m] not_le)
qed

text \<open>
  C5: Per-key replay protection under arbitrary interleaving: in any run over the shared
  table, whatever other keys send in between and whatever the interlocks do, the accepted
  commands of one key have strictly increasing sequence numbers and are all signed by that key.
\<close>

theorem multi_run_per_key:
  "sorted_wrt (<) (map multi_seqno (snd (gate_run (multi_gate vf pk) senders cs))) \<and>
   list_all (\<lambda>c. signed_by vf pk (fst c)) (snd (gate_run (multi_gate vf pk) senders cs))"
  using multi.accepted_increasing [where s = senders and pk = pk and vf = vf and cs = cs]
    multi_key.accepted_authentic [where s = senders and pk = pk and vf = vf and cs = cs]
  by (auto simp: list_all_iff)

text \<open>
  Isolation: evaluating a command never changes the size of the table, keeps the keys of the used
  slots distinct, and leaves the counter of every other key as it was.
\<close>

theorem multi_isolation:
  assumes "keys_unique senders" and "k \<noteq> sender_pubkey cmd"
  shows "let t = snd (evaluate_command_multiclient vf senders cmd il now) in
     length t = length senders \<and> keys_unique t \<and> client_counter k t = client_counter k senders"
proof -
  obtain r t where eq: "evaluate_command_multiclient vf senders cmd il now = (r, t)" by fastforce
  then have "client_counter k t = client_counter k senders"
    by (cases rule: evaluate_multiclient_cases) (simp_all add: client_counter_other assms(2))
  with eq evaluate_multiclient_table [OF eq assms(1)] show ?thesis by (simp add: Let_def)
qed

definition demo_pk_command :: "bytes \<Rightarrow> u64 \<Rightarrow> PkCommand" where
  "demo_pk_command pk seq =
     SignedCommand.extend (demo_command seq pk) \<lparr>sender_pubkey = pk\<rparr>"

theorem multi_isolation_witness:
  "let t = snd (evaluate_command_multiclient demo_verify [zero_sender, zero_sender]
                  (demo_pk_command (replicate 32 7) 3) zero_interlocks 12) in
     length t = 2 \<and> keys_unique t \<and> client_counter (replicate 32 8) t = 0"
proof -
  have "keys_unique [zero_sender, zero_sender]"
    by (simp add: keys_unique_def zero_sender_def)
  moreover have "replicate 32 8 \<noteq> sender_pubkey (demo_pk_command (replicate 32 7) 3)"
    by (simp add: demo_pk_command_def SignedCommand.defs)
  ultimately show ?thesis
    using multi_isolation [of "[zero_sender, zero_sender]" "replicate 32 8"
        "demo_pk_command (replicate 32 7) 3" demo_verify zero_interlocks 12]
    by (simp add: Let_def client_counter_def find_sender_slot_def zero_sender_def)
qed

text \<open>
  The table can be exhausted without any credentials: a command with a key that is not in
  the table takes a free slot whatever its number, times and signature are, slots are never
  given back, and once none is free every unknown key is refused.
\<close>

theorem multi_table_exhaustion:
  assumes "\<not> interlock_tripped il" and "find_sender_slot (sender_pubkey cmd) senders = None"
  shows "if free_slots senders = 0
     then evaluate_command_multiclient vf senders cmd il now = (GO_SENDER_NOT_FOUND, senders)
     else Suc (free_slots (snd (evaluate_command_multiclient vf senders cmd il now))) = free_slots senders"
proof (cases "free_slots senders = 0")
  case True
  then have "free_sender_slot senders = None" by (simp add: free_sender_slot_None)
  with True assms show ?thesis
    by (simp add: evaluate_command_multiclient_def match_or_enroll_def)
next
  case False
  then obtain j where "free_sender_slot senders = Some j"
    using free_sender_slot_None [of senders] by auto
  with assms(2) obtain i t where m: "match_or_enroll (sender_pubkey cmd) senders = Some (i, t)"
    by (simp add: match_or_enroll_def)
  obtain r u where eq: "evaluate_command_multiclient vf senders cmd il now = (r, u)" by fastforce
  then have "free_slots u = free_slots t"
    by (auto simp: evaluate_command_multiclient_def m assms(1) free_slots_set_last
        match_or_enroll_slot(1) [OF m] split: if_splits)
  with False eq free_slots_enroll [OF m] assms(2) show ?thesis by simp
qed

theorem multi_table_exhaustion_witness:
  "Suc (free_slots (snd (evaluate_command_multiclient (\<lambda>_ _ _. -1) [zero_sender, zero_sender]
     (demo_pk_command (replicate 32 7) 3) zero_interlocks 12))) = 2"
proof -
  have "find_sender_slot (sender_pubkey (demo_pk_command (replicate 32 7) 3)) [zero_sender, zero_sender] = None"
    by (simp add: find_sender_slot_def zero_sender_def)
  from multi_table_exhaustion [OF zero_interlocks_clear this, of "\<lambda>_ _ _. -1" 12]
  show ?thesis by (simp add: free_slots_def zero_sender_def)
qed

end
