(* ===== verification/Pure_Core.thy ===== *)
theory Pure_Core
  imports Gate0_Header Gate_Interface
begin

text \<open>
  \<open>src/pure_core.c\<close> and \<open>src/gate0_core.c\<close>: the evaluator with authorities, node masks and
  blocked commands. The two files were written against a revision of \<open>gate0.h\<close> that is no
  longer in the tree; the layout of its packed structs is the one \<open>gate0_native_bridge.py\<close>
  declares for the same library. Result codes are used by name only.
\<close>

section \<open>Data\<close>

datatype Gate0Result =
    G0_OK | G0_SIGNATURE_INVALID | G0_UNKNOWN_SENDER | G0_EXPIRED | G0_FUTURE_TIMESTAMP
  | G0_WRONG_NODE | G0_INSUFFICIENT_AUTHORITY | G0_SEQUENCE_REPLAY | G0_SEQUENCE_GAP
  | G0_BLOCKED_COMMAND | G0_INTERLOCK_UNSAFE

record AuthEnvelope =
  protocol_version :: u8
  command_id :: u32
  node_id :: u32
  issued_at_ns :: u64
  expires_at_ns :: u64
  sequence_number :: u64
  nonce :: bytes
  command_type :: u8
  parameters_len :: u16
  parameters :: bytes
  required_authority :: u8

record AuthCommand =
  auth_envelope :: AuthEnvelope
  auth_signature :: bytes
  auth_sender_pubkey :: bytes

record AuthSender =
  auth_used :: bool
  auth_public_key :: bytes
  current_sequence :: u64
  allowed_nodes :: u32
  authority :: u32

record BoolInterlocks =
  b_estop :: bool
  b_overspeed :: bool
  b_overtemp :: bool
  b_overvoltage :: bool

definition wf_auth :: "AuthCommand \<Rightarrow> bool" where
  "wf_auth c \<longleftrightarrow> length (nonce (auth_envelope c)) = 16 \<and> length (parameters (auth_envelope c)) = 256 \<and>
     length (auth_signature c) = 64 \<and> length (auth_sender_pubkey c) = 32"

definition auth_envelope_bytes :: "AuthEnvelope \<Rightarrow> bytes" where
  "auth_envelope_bytes e =
     le_bytes 1 (protocol_version e) @ le_bytes 4 (command_id e) @ le_bytes 4 (node_id e) @
     le_bytes 8 (issued_at_ns e) @ le_bytes 8 (expires_at_ns e) @ le_bytes 8 (sequence_number e) @
     nonce e @ le_bytes 1 (command_type e) @ le_bytes 2 (parameters_len e) @ parameters e @
     le_bytes 1 (required_authority e)"

definition auth_command_bytes :: "AuthCommand \<Rightarrow> bytes" where
  "auth_command_bytes c = auth_envelope_bytes (auth_envelope c) @ auth_signature c @ auth_sender_pubkey c"

definition auth_command_of_bytes :: "bytes \<Rightarrow> AuthCommand" where
  "auth_command_of_bytes bs =
     \<lparr>auth_envelope =
        \<lparr>protocol_version = le_word (field_at 0 1 bs), command_id = le_word (field_at 1 4 bs),
         node_id = le_word (field_at 5 4 bs), issued_at_ns = le_word (field_at 9 8 bs),
         expires_at_ns = le_word (field_at 17 8 bs), sequence_number = le_word (field_at 25 8 bs),
         nonce = field_at 33 16 bs, command_type = le_word (field_at 49 1 bs),
         parameters_len = le_word (field_at 50 2 bs), parameters = field_at 52 256 bs,
         required_authority = le_word (field_at 308 1 bs)\<rparr>,
      auth_signature = field_at 309 64 bs, auth_sender_pubkey = field_at 373 32 bs\<rparr>"

definition sizeof_AuthCommand :: nat where "sizeof_AuthCommand = 405"

lemma length_auth_command_bytes [byte_len]:
  "wf_auth c \<Longrightarrow> length (auth_command_bytes c) = 405"
  by (simp add: auth_command_bytes_def auth_envelope_bytes_def wf_auth_def byte_len)

lemma auth_command_decodes:
  "wf_auth c \<Longrightarrow> auth_command_of_bytes (auth_command_bytes c) = c"
  by (simp add: auth_command_of_bytes_def auth_command_bytes_def auth_envelope_bytes_def wf_auth_def
      codec byte_len field_at_all)

definition zero_auth_sender :: AuthSender where
  "zero_auth_sender = \<lparr>auth_used = False, auth_public_key = replicate 32 0, current_sequence = 0,
     allowed_nodes = 0, authority = 0\<rparr>"

definition zero_bool_interlocks :: BoolInterlocks where
  "zero_bool_interlocks = \<lparr>b_estop = False, b_overspeed = False, b_overtemp = False,
     b_overvoltage = False\<rparr>"

section \<open>The evaluator\<close>

definition CMD_TYPE_SAFE_STATE :: u8 where "CMD_TYPE_SAFE_STATE = 0xFF"

definition is_blocked_command :: "u8 \<Rightarrow> bool" where
  "is_blocked_command cmd_type \<longleftrightarrow> 0xF0 \<le> cmd_type \<and> cmd_type \<le> 0xF7"

definition system_unsafe :: "BoolInterlocks \<Rightarrow> bool" where
  "system_unsafe il \<longleftrightarrow> b_estop il \<or> b_overspeed il \<or> b_overtemp il \<or> b_overvoltage il"

text \<open>Trust on first use: the record the first signed command with number 1 creates.\<close>

definition auth_bootstrap :: "AuthCommand \<Rightarrow> AuthSender \<Rightarrow> AuthSender" where
  "auth_bootstrap cmd sender =
     sender\<lparr>auth_used := True, auth_public_key := auth_sender_pubkey cmd, current_sequence := 0,
       allowed_nodes := node_id (auth_envelope cmd),
       authority := ucast (required_authority (auth_envelope cmd))\<rparr>"

definition pure_evaluate_command ::
    "sig_verify \<Rightarrow> AuthCommand \<Rightarrow> AuthSender \<Rightarrow> BoolInterlocks \<Rightarrow> u64 \<Rightarrow> Gate0Result \<times> AuthSender" where
  "pure_evaluate_command vf cmd sender il now =
     (if vf (auth_signature cmd) (auth_envelope_bytes (auth_envelope cmd)) (auth_sender_pubkey cmd) \<noteq> 0
      then (G0_SIGNATURE_INVALID, sender)
      else if \<not> auth_used sender \<and> sequence_number (auth_envelope cmd) \<noteq> 1
      then (G0_UNKNOWN_SENDER, sender)
      else if auth_used sender \<and> auth_public_key sender \<noteq> auth_sender_pubkey cmd
      then (G0_UNKNOWN_SENDER, sender)
      else
        let sender = (if auth_used sender then sender else auth_bootstrap cmd sender) in
        if expires_at_ns (auth_envelope cmd) < now then (G0_EXPIRED, sender)
        else if now + 500000000 < issued_at_ns (auth_envelope cmd) then (G0_FUTURE_TIMESTAMP, sender)
        else if allowed_nodes sender AND node_id (auth_envelope cmd) = 0 then (G0_WRONG_NODE, sender)
        else if authority sender < ucast (required_authority (auth_envelope cmd))
        then (G0_INSUFFICIENT_AUTHORITY, sender)
        else if sequence_number (auth_envelope cmd) \<le> current_sequence sender
        then (G0_SEQUENCE_REPLAY, sender)
        else if current_sequence sender + 1 < sequence_number (auth_envelope cmd)
        then (G0_SEQUENCE_GAP, sender)
        else if is_blocked_command (command_type (auth_envelope cmd)) then (G0_BLOCKED_COMMAND, sender)
        else if system_unsafe il \<and> command_type (auth_envelope cmd) \<noteq> CMD_TYPE_SAFE_STATE
        then (G0_INTERLOCK_UNSAFE, sender)
        else (G0_OK, sender\<lparr>current_sequence := sequence_number (auth_envelope cmd)\<rparr>))"

text \<open>
  \<open>src/gate0_core.c\<close> carries the same function a second time; it is modelled as an early-return
  chain of its own, in the sum type: \<open>Inl\<close> is a \<open>return\<close>.
\<close>

definition gate0_core_identify ::
    "AuthCommand \<Rightarrow> AuthSender \<Rightarrow> Gate0Result \<times> AuthSender + AuthSender" where
  "gate0_core_identify cmd sender =
     (if \<not> auth_used sender then
        if sequence_number (auth_envelope cmd) = 1 then Inr (auth_bootstrap cmd sender)
        else Inl (G0_UNKNOWN_SENDER, sender)
      else if auth_public_key sender \<noteq> auth_sender_pubkey cmd then Inl (G0_UNKNOWN_SENDER, sender)
      else Inr sender)"

definition gate0_core_evaluate_command ::
    "sig_verify \<Rightarrow> AuthCommand \<Rightarrow> AuthSender \<Rightarrow> BoolInterlocks \<Rightarrow> u64 \<Rightarrow> Gate0Result \<times> AuthSender" where
  "gate0_core_evaluate_command vf cmd sender il now =
     (let e = auth_envelope cmd in
      if vf (auth_signature cmd) (auth_envelope_bytes e) (auth_sender_pubkey cmd) \<noteq> 0
      then (G0_SIGNATURE_INVALID, sender)
      else
        case gate0_core_identify cmd sender of
          Inl result \<Rightarrow> result
        | Inr sender \<Rightarrow>
            if expires_at_ns e < now then (G0_EXPIRED, sender)
            else if issued_at_ns e > now + 500000000 then (G0_FUTURE_TIMESTAMP, sender)
            else if allowed_nodes sender AND node_id e = 0 then (G0_WRONG_NODE, sender)
            else if authority sender < ucast (required_authority e)
            then (G0_INSUFFICIENT_AUTHORITY, sender)
            else
              let expected_seq = current_sequence sender + 1 in
              if sequence_number e \<le> current_sequence sender then (G0_SEQUENCE_REPLAY, sender)
              else if sequence_number e > expected_seq then (G0_SEQUENCE_GAP, sender)
              else if is_blocked_command (command_type e) then (G0_BLOCKED_COMMAND, sender)
              else if system_unsafe il \<and> command_type e \<noteq> CMD_TYPE_SAFE_STATE
              then (G0_INTERLOCK_UNSAFE, sender)
              else (G0_OK, sender\<lparr>current_sequence := sequence_number e\<rparr>))"

lemma gate0_core_is_pure_core:
  "gate0_core_evaluate_command vf cmd sender il now = pure_evaluate_command vf cmd sender il now"
  by (simp add: gate0_core_evaluate_command_def pure_evaluate_command_def gate0_core_identify_def
      Let_def)

section \<open>One evaluation\<close>

definition auth_judged :: "AuthCommand \<Rightarrow> AuthSender \<Rightarrow> AuthSender" where
  "auth_judged cmd sender = (if auth_used sender then sender else auth_bootstrap cmd sender)"

definition auth_signed :: "sig_verify \<Rightarrow> AuthCommand \<Rightarrow> bool" where
  "auth_signed vf cmd \<longleftrightarrow>
     vf (auth_signature cmd) (auth_envelope_bytes (auth_envelope cmd)) (auth_sender_pubkey cmd) = 0"

definition auth_identified :: "AuthCommand \<Rightarrow> AuthSender \<Rightarrow> bool" where
  "auth_identified cmd sender \<longleftrightarrow>
     (if auth_used sender then auth_public_key sender = auth_sender_pubkey cmd
      else sequence_number (auth_envelope cmd) = 1)"

definition auth_in_time :: "AuthCommand \<Rightarrow> u64 \<Rightarrow> bool" where
  "auth_in_time cmd now \<longleftrightarrow>
     now \<le> expires_at_ns (auth_envelope cmd) \<and> issued_at_ns (auth_envelope cmd) \<le> now + 500000000"

definition auth_entitled :: "AuthCommand \<Rightarrow> AuthSender \<Rightarrow> bool" where
  "auth_entitled cmd sender \<longleftrightarrow>
     allowed_nodes sender AND node_id (auth_envelope cmd) \<noteq> 0 \<and>
     ucast (required_authority (auth_envelope cmd)) \<le> authority sender"

definition auth_permitted :: "AuthCommand \<Rightarrow> BoolInterlocks \<Rightarrow> bool" where
  "auth_permitted cmd il \<longleftrightarrow>
     \<not> is_blocked_command (command_type (auth_envelope cmd)) \<and>
     (system_unsafe il \<longrightarrow> command_type (auth_envelope cmd) = CMD_TYPE_SAFE_STATE)"

lemma auth_judged_simps:
  "auth_used (auth_judged cmd s)"
  "auth_public_key (auth_judged cmd s) =
     (if auth_used s then auth_public_key s else auth_sender_pubkey cmd)"
  "current_sequence (auth_judged cmd s) = (if auth_used s then current_sequence s else 0)"
  by (simp_all add: auth_judged_def auth_bootstrap_def)

lemma pure_evaluate_state:
  "snd (pure_evaluate_command vf cmd s il now) =
     (if fst (pure_evaluate_command vf cmd s il now) = G0_OK
      then (auth_judged cmd s)\<lparr>current_sequence := sequence_number (auth_envelope cmd)\<rparr>
      else if auth_signed vf cmd \<and> auth_identified cmd s then auth_judged cmd s else s)"
  by (auto simp: pure_evaluate_command_def Let_def auth_judged_def auth_signed_def auth_identified_def)

lemma pure_evaluate_ok:
  "fst (pure_evaluate_command vf cmd s il now) = G0_OK \<longleftrightarrow>
     auth_signed vf cmd \<and> auth_identified cmd s \<and> auth_in_time cmd now \<and>
     auth_entitled cmd (auth_judged cmd s) \<and>
     (current_sequence (auth_judged cmd s) < sequence_number (auth_envelope cmd) \<and>
      sequence_number (auth_envelope cmd) \<le> current_sequence (auth_judged cmd s) + 1) \<and>
     auth_permitted cmd il"
proof -
  have "fst (pure_evaluate_command vf cmd s il now) = G0_OK \<longleftrightarrow>
      auth_signed vf cmd \<and> \<not> (\<not> auth_used s \<and> sequence_number (auth_envelope cmd) \<noteq> 1) \<and>
      \<not> (auth_used s \<and> auth_public_key s \<noteq> auth_sender_pubkey cmd) \<and>
      auth_in_time cmd now \<and> auth_entitled cmd (auth_judged cmd s) \<and>
      (current_sequence (auth_judged cmd s) < sequence_number (auth_envelope cmd) \<and>
       sequence_number (auth_envelope cmd) \<le> current_sequence (auth_judged cmd s) + 1) \<and>
      auth_permitted cmd il"
    unfolding pure_evaluate_command_def Let_def auth_judged_def [symmetric]
    by (simp only: early_return_fst Gate0Result.distinct fst_conv simp_thms auth_signed_def
        auth_in_time_def auth_entitled_def auth_permitted_def not_less not_le de_Morgan_conj) blast
  then show ?thesis by (cases "auth_used s") (simp_all add: auth_identified_def)
qed

lemma auth_identified_key: "auth_identified cmd s \<Longrightarrow> auth_public_key (auth_judged cmd s) = auth_sender_pubkey cmd"
  by (auto simp: auth_identified_def auth_judged_simps)

section \<open>The evaluator as a gate\<close>

text \<open>Command: the signed command, the interlocks and the time it is judged at.\<close>

definition pure_gate ::
    "sig_verify \<Rightarrow> AuthSender \<Rightarrow> AuthCommand \<times> BoolInterlocks \<times> u64 \<Rightarrow> AuthSender \<times> bool" where
  "pure_gate vf s c =
     (let (r, s') = pure_evaluate_command vf (fst c) s (fst (snd c)) (snd (snd c)) in (s', r = G0_OK))"

definition pure_counter :: "AuthSender \<Rightarrow> u64" where
  "pure_counter s = (if auth_used s then current_sequence s else 0)"

abbreviation pure_seqno :: "AuthCommand \<times> BoolInterlocks \<times> u64 \<Rightarrow> u64" where
  "pure_seqno c \<equiv> sequence_number (auth_envelope (fst c))"

lemma pure_gate_simps:
  "fst (pure_gate vf s c) = snd (pure_evaluate_command vf (fst c) s (fst (snd c)) (snd (snd c)))"
  "snd (pure_gate vf s c) \<longleftrightarrow> fst (pure_evaluate_command vf (fst c) s (fst (snd c)) (snd (snd c))) = G0_OK"
  by (simp_all add: pure_gate_def split_beta Let_def)

lemma pure_gate_counter:
  "pure_counter (fst (pure_gate vf s c)) = (if snd (pure_gate vf s c) then pure_seqno c else pure_counter s)"
  by (simp add: pure_gate_simps pure_evaluate_state pure_counter_def auth_judged_simps)

lemma pure_gate_accept:
  "snd (pure_gate vf s c) \<Longrightarrow> pure_counter s < pure_seqno c \<and> pure_seqno c \<le> pure_counter s + 1"
  by (simp add: pure_gate_simps pure_evaluate_ok pure_counter_def auth_judged_simps)

interpretation pure: exact_gate "pure_gate vf" "\<lambda>_. True" pure_counter pure_seqno for vf
proof unfold_locales
  fix s c assume "snd (pure_gate vf s c)"
  from pure_gate_accept [OF this] show "pure_seqno c = pure_counter s + 1"
    by (metis next_in_range of_nat_unat ucast_id word_arith_nat_Suc word_succ_p1)
qed (simp_all add: pure_gate_counter pure_gate_accept)

text \<open>The credential of an enrolled sender: its key, its node mask and its authority.\<close>

definition entitlement :: "AuthSender \<Rightarrow> bytes \<times> u32 \<times> u32" where
  "entitlement s = (auth_public_key s, allowed_nodes s, authority s)"

definition entitled_command :: "sig_verify \<Rightarrow> bytes \<times> u32 \<times> u32 \<Rightarrow> AuthCommand \<Rightarrow> bool" where
  "entitled_command vf cred cmd =
     (case cred of (pk, nodes, level) \<Rightarrow>
        auth_sender_pubkey cmd = pk \<and> auth_signed vf cmd \<and>
        nodes AND node_id (auth_envelope cmd) \<noteq> 0 \<and>
        ucast (required_authority (auth_envelope cmd)) \<le> level \<and>
        \<not> is_blocked_command (command_type (auth_envelope cmd)))"

interpretation pure_key: enrolling_gate "pure_gate vf" auth_used entitlement
    "\<lambda>cred c. entitled_command vf cred (fst c)" for vf
proof unfold_locales
  fix s :: AuthSender and c :: "AuthCommand \<times> BoolInterlocks \<times> u64"
  assume s: "auth_used s"
  then have j: "auth_judged (fst c) s = s" by (simp add: auth_judged_def)
  show "auth_used (fst (pure_gate vf s c))" and "entitlement (fst (pure_gate vf s c)) = entitlement s"
    using s by (simp_all add: pure_gate_simps pure_evaluate_state j entitlement_def)
  show "entitled_command vf (entitlement s) (fst c)" if "snd (pure_gate vf s c)"
    using that s
    by (simp add: pure_gate_simps pure_evaluate_ok j entitlement_def entitled_command_def
        auth_identified_def auth_entitled_def auth_permitted_def)
next
  fix s :: AuthSender and c :: "AuthCommand \<times> BoolInterlocks \<times> u64"
  assume "\<not> auth_used s" and ok: "snd (pure_gate vf s c)"
  then have "auth_judged (fst c) s = auth_bootstrap (fst c) s" by (simp add: auth_judged_def)
  with ok show "auth_used (fst (pure_gate vf s c)) \<and>
      entitled_command vf (entitlement (fst (pure_gate vf s c))) (fst c)"
    by (simp add: pure_gate_simps pure_evaluate_ok pure_evaluate_state entitlement_def
        entitled_command_def auth_entitled_def auth_permitted_def auth_bootstrap_def)
qed

section \<open>The one-shot daemon and its client\<close>

text \<open>
  \<open>src/gate0_client.c\<close>: the command it builds, over the client's signing function. Fields it
  does not set are zero; \<open>AUTH_OPERATOR\<close> is 1, as \<open>gate0_bridge.py\<close> notes.
\<close>

definition AUTH_OPERATOR :: u8 where "AUTH_OPERATOR = 1"

definition client_envelope :: AuthEnvelope where
  "client_envelope =
     \<lparr>protocol_version = 1, command_id = 501, node_id = 1, issued_at_ns = 1750000000000000,
      expires_at_ns = 1750000001000000, sequence_number = 1, nonce = replicate 16 0,
      command_type = 1, parameters_len = 0, parameters = replicate 256 0,
      required_authority = AUTH_OPERATOR\<rparr>"

definition client_command :: "(bytes \<Rightarrow> bytes \<Rightarrow> bytes) \<Rightarrow> bytes \<Rightarrow> bytes \<Rightarrow> AuthCommand" where
  "client_command sign sk pk =
     \<lparr>auth_envelope = client_envelope, auth_signature = sign sk (auth_envelope_bytes client_envelope),
      auth_sender_pubkey = pk\<rparr>"

text \<open>
  \<open>src/gate0_daemon.c\<close>: one connection, one command, judged at a fixed time. The environment
  says which system calls succeed and what \<open>read\<close> returns (at most
  \<open>sizeof(SignedCommand)\<close> bytes); the result is the exit code and the response, if one is sent.
\<close>

record OneShotEnv =
  socket_ok :: bool
  bind_ok :: bool
  listen_ok :: bool
  accept_ok :: bool
  received :: bytes

definition one_shot_daemon :: "sig_verify \<Rightarrow> OneShotEnv \<Rightarrow> nat \<times> Gate0Result option" where
  "one_shot_daemon vf env =
     (if \<not> socket_ok env then (1, None)
      else if \<not> bind_ok env then (1, None)
      else if \<not> listen_ok env then (1, None)
      else
        (0, if accept_ok env \<and> length (received env) = sizeof_AuthCommand
            then Some (fst (gate0_core_evaluate_command vf (auth_command_of_bytes (received env))
                   zero_auth_sender zero_bool_interlocks 1750000000000000))
            else None))"

section \<open>Properties\<close>

text \<open>
  \<open>pure_core.c\<close> accepts a command exactly when its signature verifies, it comes from the enrolled
  key (or, on first use, has number 1), it is in time, names an allowed node, needs no more
  authority than the sender has, has the exact successor number (without wrap-around), is not
  a blocked command, and the interlocks are clear unless it is the safe-state command; the
  second copy of the evaluator in \<open>gate0_core.c\<close> decides the same.
\<close>

theorem pure_accept_iff:
  "(fst (pure_evaluate_command vf cmd s il now) = G0_OK \<longleftrightarrow>
      auth_signed vf cmd \<and> auth_identified cmd s \<and> auth_in_time cmd now \<and>
      auth_entitled cmd (auth_judged cmd s) \<and>
      unat (sequence_number (auth_envelope cmd)) = Suc (unat (current_sequence (auth_judged cmd s))) \<and>
      auth_permitted cmd il) \<and>
   gate0_core_evaluate_command vf cmd s il now = pure_evaluate_command vf cmd s il now"
  by (simp add: pure_evaluate_ok next_in_range gate0_core_is_pure_core)

text \<open>
  C6: In any run of \<open>pure_core.c\<close> from a fresh record, whatever is interleaved, the accepted numbers
  are exactly 1, 2, ..., k as integers, and every accepted command is signed by the enrolled
  key, within its node mask and authority, and none is a blocked command.
\<close>

theorem pure_run_exact:
  "let acc = snd (gate_run (pure_gate vf) zero_auth_sender cs);
       cred = entitlement (fst (gate_run (pure_gate vf) zero_auth_sender cs))
   in map (\<lambda>c. unat (pure_seqno c)) acc = [1..<Suc (length acc)] \<and>
      list_all (\<lambda>c. entitled_command vf cred (fst c)) acc"
  using pure.accepted_exact [where s = zero_auth_sender and vf = vf and cs = cs]
    pure_key.accepted_by_final [where s = zero_auth_sender and vf = vf and cs = cs]
  by (simp add: Let_def list_all_iff pure_counter_def zero_auth_sender_def)

text \<open>
  First use in \<open>pure_core.c\<close>: nothing happens before authentication (an unsigned command leaves the
  record as it was), but any key that signs its own command with number 1 becomes the enrolled one,
  with the node mask and the authority the command itself asks for, even when the command is then refused (as
  expired, blocked or unsafe); only the counter tells the two cases apart.
\<close>

theorem pure_first_use_grants:
  assumes "\<not> auth_used s" and "sequence_number (auth_envelope cmd) = 1"
  shows "let (r, s') = pure_evaluate_command vf cmd s il now in
     if auth_signed vf cmd
     then auth_used s' \<and>
          entitlement s' = (auth_sender_pubkey cmd, node_id (auth_envelope cmd),
                            ucast (required_authority (auth_envelope cmd))) \<and>
          current_sequence s' = (if r = G0_OK then 1 else 0)
     else r = G0_SIGNATURE_INVALID \<and> s' = s"
proof (cases "auth_signed vf cmd")
  case True
  with assms have "auth_identified cmd s" and "auth_judged cmd s = auth_bootstrap cmd s"
    by (simp_all add: auth_identified_def auth_judged_def)
  with True assms pure_evaluate_state [of vf cmd s il now] show ?thesis
    by (simp add: split_beta Let_def entitlement_def auth_bootstrap_def)
next
  case False
  then show ?thesis by (simp add: pure_evaluate_command_def auth_signed_def)
qed

theorem pure_first_use_grants_witness:
  "let (r, s') = pure_evaluate_command (\<lambda>_ _ _. 0) (client_command (\<lambda>_ _. []) [] [5]) zero_auth_sender
                   zero_bool_interlocks (- 1) in
     r = G0_EXPIRED \<and> auth_used s' \<and> entitlement s' = ([5], 1, 1) \<and> current_sequence s' = 0"
proof -
  have "\<not> auth_used zero_auth_sender" and "sequence_number (auth_envelope (client_command (\<lambda>_ _. []) [] [5])) = 1"
    by (simp_all add: zero_auth_sender_def client_command_def client_envelope_def)
  from pure_first_use_grants [OF this, of "\<lambda>_ _ _. 0" zero_bool_interlocks "- 1"]
  show ?thesis
    by (simp add: pure_evaluate_command_def Let_def auth_signed_def client_command_def
        client_envelope_def AUTH_OPERATOR_def zero_auth_sender_def)
qed

text \<open>
  When verification accepts what the client's key signs, the frame that
  \<open>gate0_client.c\<close> sends is decoded and accepted by \<open>gate0_daemon.c\<close>, which exits with code 0.
\<close>

lemma client_frame_accepted:
  assumes "\<And>m. vf (sign sk m) m pk = 0" and "\<And>m. length (sign sk m) = 64" and "length pk = 32"
  shows "one_shot_daemon vf \<lparr>socket_ok = True, bind_ok = True, listen_ok = True, accept_ok = True,
     received = auth_command_bytes (client_command sign sk pk)\<rparr> = (0, Some G0_OK)"
proof -
  let ?c = "client_command sign sk pk"
  have wf: "wf_auth ?c"
    by (simp add: wf_auth_def client_command_def client_envelope_def assms)
  have "\<not> is_blocked_command 1" by (simp add: is_blocked_command_def word_le_nat_alt)
  then have "fst (pure_evaluate_command vf ?c zero_auth_sender zero_bool_interlocks 1750000000000000) = G0_OK"
    by (simp add: pure_evaluate_ok auth_signed_def auth_identified_def auth_in_time_def
        auth_entitled_def auth_permitted_def auth_judged_def auth_bootstrap_def zero_auth_sender_def
        client_command_def client_envelope_def zero_bool_interlocks_def system_unsafe_def
        AUTH_OPERATOR_def assms)
  with wf show ?thesis
    by (simp add: one_shot_daemon_def sizeof_AuthCommand_def length_auth_command_bytes
        auth_command_decodes gate0_core_is_pure_core)
qed

end
