(* ===== verification/Store_Interface.thy ===== *)
theory Store_Interface
  imports Gate0_Prelude
begin

text \<open>
  Contracts of the bounded stores. A \<open>window_log\<close> never refuses an entry and keeps the latest
  \<open>cap\<close> of them (the telemetry ring, the nonce memory); a
  \<open>bounded_queue\<close> refuses when it is full and returns entries in order (the ring pool). What
  the contracts give for whole histories is proved here; the components interpret the locales
  on their models.
\<close>

section \<open>Logs that keep a window of the latest entries\<close>

locale window_log =
  fixes push :: "'x \<Rightarrow> 's \<Rightarrow> 's"
    and contents :: "'s \<Rightarrow> 'x list"
    and inv :: "'s \<Rightarrow> bool"
    and cap :: nat
  assumes inv_push: "inv s \<Longrightarrow> inv (push x s)"
    and contents_push:
      "inv s \<Longrightarrow> contents (push x s) = drop (Suc (length (contents s)) - cap) (contents s @ [x])"
    and contents_bound: "inv s \<Longrightarrow> length (contents s) \<le> cap"
begin

lemma inv_fold: "inv s \<Longrightarrow> inv (fold push xs s)"
  by (induction xs arbitrary: s) (simp_all add: inv_push)

lemma contents_fold:
  "inv s \<Longrightarrow> contents (fold push xs s) = drop (length (contents s @ xs) - cap) (contents s @ xs)"
proof (induction xs arbitrary: s)
  case Nil
  then show ?case using contents_bound [of s] by simp
next
  case (Cons x xs)
  let ?c = "contents s @ [x]"
  have "contents (fold push (x # xs) s) =
      drop (length (drop (length ?c - cap) ?c @ xs) - cap) (drop (length ?c - cap) ?c @ xs)"
    using Cons.IH [OF inv_push [OF Cons.prems, of x]] contents_push [OF Cons.prems, of x] by simp
  also have "\<dots> = drop (length (?c @ xs) - cap) (?c @ xs)" by (rule drop_window)
  finally show ?case by simp
qed

lemma latest_entries:
  "inv s \<Longrightarrow> contents s = [] \<Longrightarrow> contents (fold push xs s) = drop (length xs - cap) xs"
  using contents_fold [of s xs] by simp

lemma recent_member:
  assumes "inv s" and "length ys < cap"
  shows "x \<in> set (contents (fold push (x # ys) s))"
  using contents_fold [OF inv_push [OF assms(1), of x], of ys] assms(2)
    contents_push [OF assms(1), of x] contents_bound [OF assms(1)]
  by (auto simp: not_le)

end

section \<open>Bounded queues\<close>

datatype 'x queue_op = Push 'x | Pop

datatype 'x queue_reply = Pushed bool | Popped "'x option"

text \<open>The specification: a list with a capacity.\<close>

fun list_queue_step :: "nat \<Rightarrow> 'x queue_op \<Rightarrow> 'x list \<Rightarrow> 'x queue_reply \<times> 'x list" where
  "list_queue_step cap (Push x) xs = (if length xs < cap then (Pushed True, xs @ [x]) else (Pushed False, xs))"
| "list_queue_step cap Pop xs = (case xs of [] \<Rightarrow> (Popped None, []) | y # ys \<Rightarrow> (Popped (Some y), ys))"

primrec replies :: "('o \<Rightarrow> 's \<Rightarrow> 'r \<times> 's) \<Rightarrow> 'o list \<Rightarrow> 's \<Rightarrow> 'r list \<times> 's" where
  "replies step [] s = ([], s)"
| "replies step (x # xs) s =
     (let (r, s') = step x s; (rs, t) = replies step xs s' in (r # rs, t))"

locale bounded_queue =
  fixes push :: "'x \<Rightarrow> 's \<Rightarrow> bool \<times> 's"
    and pop :: "'s \<Rightarrow> ('x option) \<times> 's"
    and contents :: "'s \<Rightarrow> 'x list"
    and inv :: "'s \<Rightarrow> bool"
    and cap :: nat
  assumes push_spec: "inv s \<Longrightarrow> inv (snd (push x s)) \<and> fst (push x s) = (length (contents s) < cap) \<and>
      contents (snd (push x s)) = (if length (contents s) < cap then contents s @ [x] else contents s)"
    and pop_spec: "inv s \<Longrightarrow> inv (snd (pop s)) \<and>
      (case contents s of
         [] \<Rightarrow> fst (pop s) = None \<and> contents (snd (pop s)) = []
       | y # ys \<Rightarrow> fst (pop s) = Some y \<and> contents (snd (pop s)) = ys)"
begin

definition step :: "'x queue_op \<Rightarrow> 's \<Rightarrow> 'x queue_reply \<times> 's" where
  "step a s = (case a of Push x \<Rightarrow> (let (ok, t) = push x s in (Pushed ok, t))
                       | Pop \<Rightarrow> (let (y, t) = pop s in (Popped y, t)))"

lemma step_refines:
  "inv s \<Longrightarrow> inv (snd (step a s)) \<and>
     list_queue_step cap a (contents s) = (fst (step a s), contents (snd (step a s)))"
  using push_spec [of s] pop_spec [of s]
  by (cases a) (auto simp: step_def split_beta Let_def split: list.splits)

lemma replies_refine:
  "inv s \<Longrightarrow> inv (snd (replies step ops s)) \<and>
     replies (list_queue_step cap) ops (contents s) =
       (fst (replies step ops s), contents (snd (replies step ops s)))"
proof (induction ops arbitrary: s)
  case (Cons a ops)
  show ?case
    using step_refines [OF Cons.prems, of a] Cons.IH [of "snd (step a s)"]
    by (simp add: split_beta Let_def)
qed simp

end

end
