(* ===== verification/Adversarial_Gate.thy ===== *)
theory Adversarial_Gate
  imports Gate_Interface Store_Interface
begin

text \<open>
  \<open>gate0_adversarial.c\<close>: the many-sender gate with nonces, nodes and authorities that the
  adversarial test program attacks, and the program's generator of nonces. The table of senders is
  a list (32 entries in the program), the nonce memory the list of its used cells.
\<close>

section \<open>Data\<close>

datatype Authority = AUTH_OBSERVER | AUTH_OPERATOR | AUTH_ADMIN | AUTH_EMERGENCY

primrec authority_rank :: "Authority \<Rightarrow> nat" where
  "authority_rank AUTH_OBSERVER = 0"
| "authority_rank AUTH_OPERATOR = 1"
| "authority_rank AUTH_ADMIN = 2"
| "authority_rank AUTH_EMERGENCY = 3"

text \<open>The enumeration constants compare as their numbers.\<close>

instantiation Authority :: linorder
begin

definition less_eq_Authority :: "Authority \<Rightarrow> Authority \<Rightarrow> bool" where
  "less_eq_Authority a b \<longleftrightarrow> authority_rank a \<le> authority_rank b"

definition less_Authority :: "Authority \<Rightarrow> Authority \<Rightarrow> bool" where
  "less_Authority a b \<longleftrightarrow> authority_rank a < authority_rank b"

instance
proof
  fix a b :: Authority
  assume "a \<le> b" and "b \<le> a"
  then show "a = b" by (cases a; cases b) (simp_all add: less_eq_Authority_def)
qed (auto simp: less_eq_Authority_def less_Authority_def)

end

datatype GateResult =
    GATE_ACCEPT | GATE_UNKNOWN_SENDER | GATE_BOOTSTRAP_INVALID | GATE_EXPIRED | GATE_FUTURE_TIMESTAMP
  | GATE_NONCE_REPLAY | GATE_SEQUENCE_REPLAY | GATE_SEQUENCE_GAP | GATE_WRONG_NODE
  | GATE_AUTHORITY_INSUFFICIENT | GATE_COMMAND_BLOCKED | GATE_INTERLOCK_UNSAFE | GATE_PAYLOAD_CORRUPT

record Command =
  cmd_sender_id :: u32
  cmd_node_id :: u32
  cmd_sequence :: u64
  cmd_issued_at_ns :: u64
  cmd_expires_at_ns :: u64
  cmd_nonce :: bytes
  cmd_type :: u8
  sender_authority :: Authority
  cmd_required_authority :: Authority
  payload_hash_expected :: u32
  payload_hash_actual :: u32

record SenderState =
  st_used :: bool
  st_sender_id :: u32
  allowed_node :: u32
  current_seq :: u64
  st_authority :: Authority

record Interlocks =
  il_estop :: bool
  il_overspeed :: bool
  il_overtemp :: bool
  il_overvoltage :: bool

record Gate =
  senders :: "SenderState list"
  nonces :: "bytes list"
  interlocks :: Interlocks

definition MAX_SENDERS :: nat where "MAX_SENDERS = 32"
definition MAX_NONCES :: nat where "MAX_NONCES = 256"
definition CLOCK_SKEW_NS :: u64 where "CLOCK_SKEW_NS = 5000000000"
definition CMD_ENTER_SAFE_STATE :: u8 where "CMD_ENTER_SAFE_STATE = 3"

text \<open>\<open>memset(&gate, 0, sizeof gate)\<close>.\<close>

definition zero_sender_state :: SenderState where
  "zero_sender_state = \<lparr>st_used = False, st_sender_id = 0, allowed_node = 0, current_seq = 0,
     st_authority = AUTH_OBSERVER\<rparr>"

definition zero_gate :: Gate where
  "zero_gate = \<lparr>senders = replicate 32 zero_sender_state, nonces = [],
     interlocks = \<lparr>il_estop = False, il_overspeed = False, il_overtemp = False, il_overvoltage = False\<rparr>\<rparr>"

section \<open>Nonces\<close>

text \<open>The xorshift generator and \<open>make_nonce\<close>: a nonce and the next generator state.\<close>

definition rng_next :: "u64 \<Rightarrow> u64" where
  "rng_next x =
     (let x = x XOR push_bit 13 x;
          x = x XOR drop_bit 7 x
      in x XOR push_bit 17 x)"

primrec make_nonce_loop :: "nat \<Rightarrow> u64 \<Rightarrow> bytes \<times> u64" where
  "make_nonce_loop 0 x = ([], x)"
| "make_nonce_loop (Suc n) x =
     (let x = rng_next x; (bs, y) = make_nonce_loop n x in (ucast (x AND 0xFF) # bs, y))"

definition make_nonce :: "u64 \<Rightarrow> bytes \<times> u64" where
  "make_nonce x = make_nonce_loop 16 x"

definition nonce_seen :: "Gate \<Rightarrow> bytes \<Rightarrow> bool" where
  "nonce_seen g n \<longleftrightarrow> list_ex (\<lambda>m. m = n) (nonces g)"

definition nonce_record :: "bytes \<Rightarrow> Gate \<Rightarrow> Gate" where
  "nonce_record n g =
     (if length (nonces g) < MAX_NONCES then g\<lparr>nonces := nonces g @ [n]\<rparr>
      else g\<lparr>nonces := tl (nonces g) @ [n]\<rparr>)"

section \<open>The gate\<close>

definition find_sender :: "Gate \<Rightarrow> u32 \<Rightarrow> nat option" where
  "find_sender g i = find_index (\<lambda>s. st_used s \<and> st_sender_id s = i) (senders g)"

definition bootstrap_sender :: "Gate \<Rightarrow> Command \<Rightarrow> Gate option" where
  "bootstrap_sender g cmd =
     (case find_index (\<lambda>s. \<not> st_used s) (senders g) of
        None \<Rightarrow> None
      | Some i \<Rightarrow> Some (g\<lparr>senders := (senders g)[i :=
          \<lparr>st_used = True, st_sender_id = cmd_sender_id cmd, allowed_node = cmd_node_id cmd,
           current_seq = 1, st_authority = sender_authority cmd\<rparr>]\<rparr>))"

definition command_is_blocked :: "u8 \<Rightarrow> bool" where
  "command_is_blocked t \<longleftrightarrow> t \<ge> 0xF0 \<and> t \<le> 0xF7"

definition interlocks_safe :: "Gate \<Rightarrow> u8 \<Rightarrow> bool" where
  "interlocks_safe g t =
     (if t = CMD_ENTER_SAFE_STATE then True
      else if il_estop (interlocks g) then False
      else if il_overspeed (interlocks g) then False
      else if il_overtemp (interlocks g) then False
      else if il_overvoltage (interlocks g) then False
      else True)"

definition gate_evaluate :: "Gate \<Rightarrow> Command \<Rightarrow> u64 \<Rightarrow> GateResult \<times> Gate" where
  "gate_evaluate g cmd now =
     (if payload_hash_expected cmd \<noteq> payload_hash_actual cmd then (GATE_PAYLOAD_CORRUPT, g)
      else if cmd_expires_at_ns cmd < now then (GATE_EXPIRED, g)
      else if cmd_issued_at_ns cmd > now + CLOCK_SKEW_NS then (GATE_FUTURE_TIMESTAMP, g)
      else if command_is_blocked (cmd_type cmd) then (GATE_COMMAND_BLOCKED, g)
      else if \<not> interlocks_safe g (cmd_type cmd) then (GATE_INTERLOCK_UNSAFE, g)
      else if nonce_seen g (cmd_nonce cmd) then (GATE_NONCE_REPLAY, g)
      else case find_sender g (cmd_sender_id cmd) of
          None \<Rightarrow>
            if cmd_sequence cmd \<noteq> 1 then (GATE_BOOTSTRAP_INVALID, g)
            else (case bootstrap_sender g cmd of
                    None \<Rightarrow> (GATE_UNKNOWN_SENDER, g)
                  | Some g \<Rightarrow> (GATE_ACCEPT, nonce_record (cmd_nonce cmd) g))
        | Some i \<Rightarrow>
            let sender = senders g ! i in
            if cmd_node_id cmd \<noteq> allowed_node sender then (GATE_WRONG_NODE, g)
            else if st_authority sender < cmd_required_authority cmd then (GATE_AUTHORITY_INSUFFICIENT, g)
            else if cmd_sequence cmd \<le> current_seq sender then (GATE_SEQUENCE_REPLAY, g)
            else if cmd_sequence cmd > current_seq sender + 1 then (GATE_SEQUENCE_GAP, g)
            else (GATE_ACCEPT, nonce_record (cmd_nonce cmd)
                    (g\<lparr>senders := (senders g)[i := sender\<lparr>current_seq := cmd_sequence cmd\<rparr>]\<rparr>)))"

section \<open>One evaluation\<close>

definition admissible :: "Gate \<Rightarrow> Command \<Rightarrow> u64 \<Rightarrow> bool" where
  "admissible g cmd now \<longleftrightarrow>
     payload_hash_expected cmd = payload_hash_actual cmd \<and> now \<le> cmd_expires_at_ns cmd \<and>
     cmd_issued_at_ns cmd \<le> now + CLOCK_SKEW_NS \<and> \<not> command_is_blocked (cmd_type cmd) \<and>
     interlocks_safe g (cmd_type cmd) \<and> \<not> nonce_seen g (cmd_nonce cmd)"

lemma gate_refused:
  assumes "\<not> admissible g cmd now"
  shows "fst (gate_evaluate g cmd now) \<noteq> GATE_ACCEPT \<and> snd (gate_evaluate g cmd now) = g"
  using assms unfolding admissible_def de_Morgan_conj gate_evaluate_def
  by (elim disjE) (auto simp: not_le)

lemma gate_admitted:
  assumes "admissible g cmd now"
  shows "gate_evaluate g cmd now =
     (case find_sender g (cmd_sender_id cmd) of
        None \<Rightarrow>
          if cmd_sequence cmd \<noteq> 1 then (GATE_BOOTSTRAP_INVALID, g)
          else (case bootstrap_sender g cmd of
                  None \<Rightarrow> (GATE_UNKNOWN_SENDER, g)
                | Some g \<Rightarrow> (GATE_ACCEPT, nonce_record (cmd_nonce cmd) g))
      | Some i \<Rightarrow>
          let sender = senders g ! i in
          if cmd_node_id cmd \<noteq> allowed_node sender then (GATE_WRONG_NODE, g)
          else if st_authority sender < cmd_required_authority cmd then (GATE_AUTHORITY_INSUFFICIENT, g)
          else if cmd_sequence cmd \<le> current_seq sender then (GATE_SEQUENCE_REPLAY, g)
          else if cmd_sequence cmd > current_seq sender + 1 then (GATE_SEQUENCE_GAP, g)
          else (GATE_ACCEPT, nonce_record (cmd_nonce cmd)
                  (g\<lparr>senders := (senders g)[i := sender\<lparr>current_seq := cmd_sequence cmd\<rparr>]\<rparr>)))"
proof -
  have "\<not> (payload_hash_expected cmd \<noteq> payload_hash_actual cmd)" "\<not> cmd_expires_at_ns cmd < now"
    "\<not> cmd_issued_at_ns cmd > now + CLOCK_SKEW_NS" "\<not> command_is_blocked (cmd_type cmd)"
    "\<not> \<not> interlocks_safe g (cmd_type cmd)" "\<not> nonce_seen g (cmd_nonce cmd)"
    using assms by (simp_all add: admissible_def not_less)
  then show ?thesis unfolding gate_evaluate_def by (simp only: if_False)
qed

text \<open>The three things that can happen to the state.\<close>

lemma gate_evaluate_cases:
  obtains (refused) "fst (gate_evaluate g cmd now) \<noteq> GATE_ACCEPT" "snd (gate_evaluate g cmd now) = g"
  | (first) i where "admissible g cmd now" "find_sender g (cmd_sender_id cmd) = None" "cmd_sequence cmd = 1"
      "find_index (\<lambda>s. \<not> st_used s) (senders g) = Some i"
      "gate_evaluate g cmd now = (GATE_ACCEPT, nonce_record (cmd_nonce cmd) (g\<lparr>senders := (senders g)[i :=
         \<lparr>st_used = True, st_sender_id = cmd_sender_id cmd, allowed_node = cmd_node_id cmd,
          current_seq = 1, st_authority = sender_authority cmd\<rparr>]\<rparr>))"
  | (known) i where "admissible g cmd now" "find_sender g (cmd_sender_id cmd) = Some i"
      "cmd_node_id cmd = allowed_node (senders g ! i)"
      "cmd_required_authority cmd \<le> st_authority (senders g ! i)"
      "unat (cmd_sequence cmd) = Suc (unat (current_seq (senders g ! i)))"
      "gate_evaluate g cmd now = (GATE_ACCEPT, nonce_record (cmd_nonce cmd) (g\<lparr>senders := (senders g)[i :=
         (senders g ! i)\<lparr>current_seq := cmd_sequence cmd\<rparr>]\<rparr>))"
proof (cases "admissible g cmd now")
  case False
  with gate_refused [OF this] show ?thesis using refused by blast
next
  case True
  note eq = gate_admitted [OF True]
  show ?thesis
  proof (cases "find_sender g (cmd_sender_id cmd)")
    case None
    show ?thesis
    proof (cases "find_index (\<lambda>s. \<not> st_used s) (senders g)")
      case free: None
      with eq None refused show ?thesis by (auto simp: bootstrap_sender_def split: if_splits)
    next
      case free: (Some i)
      with eq None refused first [OF True None _ free] show ?thesis
        by (auto simp: bootstrap_sender_def split: if_splits)
    qed
  next
    case (Some i)
    let ?s = "senders g ! i"
    consider (no) "cmd_node_id cmd \<noteq> allowed_node ?s \<or> st_authority ?s < cmd_required_authority cmd \<or>
        \<not> (current_seq ?s < cmd_sequence cmd \<and> cmd_sequence cmd \<le> current_seq ?s + 1)"
      | (yes) "cmd_node_id cmd = allowed_node ?s" "cmd_required_authority cmd \<le> st_authority ?s"
        "current_seq ?s < cmd_sequence cmd" "cmd_sequence cmd \<le> current_seq ?s + 1"
      by (meson not_le)
    then show ?thesis
    proof cases
      case no
      then have "fst (gate_evaluate g cmd now) \<noteq> GATE_ACCEPT \<and> snd (gate_evaluate g cmd now) = g"
        unfolding eq Some option.case Let_def by (auto simp: not_le not_less)
      with refused show ?thesis by blast
    next
      case yes
      then show ?thesis
        using eq Some known [OF True Some yes(1,2)] next_in_range [of "current_seq ?s" "cmd_sequence cmd"]
        by (simp add: Let_def not_le not_less)
    qed
  qed
qed


section \<open>The nonce memory\<close>

interpretation nonce_log: window_log nonce_record nonces "\<lambda>g. length (nonces g) \<le> 256" 256
proof unfold_locales
  fix g :: Gate and n :: bytes
  assume inv: "length (nonces g) \<le> 256"
  show "length (nonces (nonce_record n g)) \<le> 256"
    using inv by (simp add: nonce_record_def MAX_NONCES_def)
  show "nonces (nonce_record n g) = drop (Suc (length (nonces g)) - 256) (nonces g @ [n])"
  proof (cases "length (nonces g) < 256")
    case False
    with inv have "length (nonces g) = 256" by simp
    then show ?thesis by (cases "nonces g") (simp_all add: nonce_record_def MAX_NONCES_def)
  qed (simp add: nonce_record_def MAX_NONCES_def)
qed

text \<open>A run: each command with the interlocks and the time it meets.\<close>

type_synonym adv_input = "Command \<times> Interlocks \<times> u64"

definition adv_gate :: "Gate \<Rightarrow> adv_input \<Rightarrow> Gate \<times> bool" where
  "adv_gate g c =
     (let (r, g') = gate_evaluate (g\<lparr>interlocks := fst (snd c)\<rparr>) (fst c) (snd (snd c))
      in (g', r = GATE_ACCEPT))"

text \<open>The same run seen by one sender.\<close>

definition adv_gate_of :: "u32 \<Rightarrow> Gate \<Rightarrow> adv_input \<Rightarrow> Gate \<times> bool" where
  "adv_gate_of i g c = (fst (adv_gate g c), snd (adv_gate g c) \<and> cmd_sender_id (fst c) = i)"

definition adv_counter :: "u32 \<Rightarrow> Gate \<Rightarrow> u64" where
  "adv_counter i g = (case find_sender g i of None \<Rightarrow> 0 | Some k \<Rightarrow> current_seq (senders g ! k))"

abbreviation adv_seqno :: "adv_input \<Rightarrow> u64" where
  "adv_seqno c \<equiv> cmd_sequence (fst c)"

lemma nonce_record_fields [simp]:
  "senders (nonce_record n g) = senders g" "find_sender (nonce_record n g) i = find_sender g i"
  by (simp_all add: nonce_record_def find_sender_def)

lemma find_sender_interlocks [simp]: "find_sender (g\<lparr>interlocks := il\<rparr>) i = find_sender g i"
  by (simp add: find_sender_def)

lemma nonces_record_cong: "nonces g = nonces h \<Longrightarrow> nonces (nonce_record n g) = nonces (nonce_record n h)"
  by (simp add: nonce_record_def)

text \<open>The counters after an enrolment and after an accepted command.\<close>

lemma find_sender_SomeD:
  "find_sender g i = Some k \<Longrightarrow> k < length (senders g) \<and> st_used (senders g ! k) \<and> st_sender_id (senders g ! k) = i"
  unfolding find_sender_def by (blast dest: find_index_SomeD)

lemma adv_counter_enrol:
  assumes "find_sender g (st_sender_id s) = None" and "find_index (\<lambda>s. \<not> st_used s) (senders g) = Some k"
    and "st_used s"
  shows "adv_counter i (g\<lparr>senders := (senders g)[k := s]\<rparr>) =
     (if i = st_sender_id s then current_seq s else adv_counter i g)"
proof (cases "i = st_sender_id s")
  case True
  have "find_sender (g\<lparr>senders := (senders g)[k := s]\<rparr>) i = Some k"
    using assms True find_index_SomeD [OF assms(2)] unfolding find_sender_def
    by (simp add: find_index_fresh)
  with True show ?thesis using find_index_SomeD [OF assms(2)] by (simp add: adv_counter_def)
next
  case False
  have "find_sender (g\<lparr>senders := (senders g)[k := s]\<rparr>) i = find_sender g i"
    using False find_index_SomeD [OF assms(2)] unfolding find_sender_def
    by (simp add: find_index_update)
  moreover have "find_sender g i = Some l \<Longrightarrow> l \<noteq> k" for l
    using find_sender_SomeD [of g i l] find_index_SomeD [OF assms(2)] by auto
  ultimately show ?thesis using False by (auto simp: adv_counter_def split: option.split)
qed

lemma adv_counter_count:
  assumes "find_sender g j = Some k"
  shows "adv_counter i (g\<lparr>senders := (senders g)[k := (senders g ! k)\<lparr>current_seq := n\<rparr>]\<rparr>) =
     (if i = j then n else adv_counter i g)"
proof -
  note k = find_sender_SomeD [OF assms]
  have find: "find_sender (g\<lparr>senders := (senders g)[k := (senders g ! k)\<lparr>current_seq := n\<rparr>]\<rparr>) i = find_sender g i"
    using k unfolding find_sender_def by (simp add: find_index_update)
  show ?thesis
  proof (cases "i = j")
    case True
    with assms k find show ?thesis by (simp add: adv_counter_def)
  next
    case False
    have "find_sender g i = Some l \<Longrightarrow> l \<noteq> k" for l
      using find_sender_SomeD [of g i l] k False by auto
    with False find show ?thesis by (auto simp: adv_counter_def split: option.split)
  qed
qed

lemma adv_counter_congs [simp]:
  "adv_counter i (nonce_record n g) = adv_counter i g" "adv_counter i (g\<lparr>interlocks := il\<rparr>) = adv_counter i g"
  by (simp_all add: adv_counter_def split: option.split)

lemma nonces_record_congs [simp]:
  "nonces (nonce_record n (g\<lparr>senders := ss\<rparr>)) = nonces (nonce_record n g)"
  "nonces (nonce_record n (g\<lparr>interlocks := il\<rparr>)) = nonces (nonce_record n g)"
  "nonces (nonce_record n (g\<lparr>interlocks := il, senders := ss\<rparr>)) = nonces (nonce_record n g)"
  by (rule nonces_record_cong; simp)+

lemma adv_gate_step:
  "adv_counter i (fst (adv_gate g c)) =
     (if snd (adv_gate g c) \<and> cmd_sender_id (fst c) = i then adv_seqno c else adv_counter i g)"
  "snd (adv_gate g c) \<Longrightarrow> cmd_sender_id (fst c) = i \<Longrightarrow> unat (adv_seqno c) = Suc (unat (adv_counter i g))"
  "snd (adv_gate g c) \<Longrightarrow> cmd_nonce (fst c) \<notin> set (nonces g)"
  "nonces (fst (adv_gate g c)) = (if snd (adv_gate g c) then nonces (nonce_record (cmd_nonce (fst c)) g) else nonces g)"
proof -
  obtain cmd il now where c: "c = (cmd, il, now)" by (cases c)
  let ?g = "g\<lparr>interlocks := il\<rparr>"
  have out: "adv_gate g c = (snd (gate_evaluate ?g cmd now), fst (gate_evaluate ?g cmd now) = GATE_ACCEPT)"
    by (simp add: adv_gate_def c split_beta)
  have fresh: "admissible ?g cmd now \<Longrightarrow> cmd_nonce cmd \<notin> set (nonces g)"
    by (auto simp: admissible_def nonce_seen_def list_ex_iff)
  have all: "(adv_counter i (fst (adv_gate g c)) =
     (if snd (adv_gate g c) \<and> cmd_sender_id cmd = i then cmd_sequence cmd else adv_counter i g)) \<and>
    (snd (adv_gate g c) \<longrightarrow> cmd_sender_id cmd = i \<longrightarrow> unat (cmd_sequence cmd) = Suc (unat (adv_counter i g))) \<and>
    (snd (adv_gate g c) \<longrightarrow> cmd_nonce cmd \<notin> set (nonces g)) \<and>
    nonces (fst (adv_gate g c)) = (if snd (adv_gate g c) then nonces (nonce_record (cmd_nonce cmd) g) else nonces g)"
  proof (cases rule: gate_evaluate_cases [of ?g cmd now])
    case refused
    then show ?thesis by (simp add: out)
  next
    case (first k)
    let ?s = "\<lparr>st_used = True, st_sender_id = cmd_sender_id cmd, allowed_node = cmd_node_id cmd,
          current_seq = 1, st_authority = sender_authority cmd\<rparr>"
    have "adv_counter i (?g\<lparr>senders := (senders ?g)[k := ?s]\<rparr>) =
        (if i = cmd_sender_id cmd then 1 else adv_counter i ?g)"
      using first adv_counter_enrol [of ?g ?s k i] by simp
    moreover have "adv_counter (cmd_sender_id cmd) g = 0" using first(2) by (simp add: adv_counter_def)
    ultimately show ?thesis using first fresh by (auto simp: out)
  next
    case (known k)
    have "adv_counter i (?g\<lparr>senders := (senders ?g)[k := (senders ?g ! k)\<lparr>current_seq := cmd_sequence cmd\<rparr>]\<rparr>) =
        (if i = cmd_sender_id cmd then cmd_sequence cmd else adv_counter i ?g)"
      using adv_counter_count [OF known(2)] by simp
    moreover have "adv_counter (cmd_sender_id cmd) g = current_seq (senders g ! k)"
      using known(2) by (simp add: adv_counter_def)
    ultimately show ?thesis using known fresh by (auto simp: out)
  qed
  then show "adv_counter i (fst (adv_gate g c)) =
     (if snd (adv_gate g c) \<and> cmd_sender_id (fst c) = i then adv_seqno c else adv_counter i g)"
    "snd (adv_gate g c) \<Longrightarrow> cmd_sender_id (fst c) = i \<Longrightarrow> unat (adv_seqno c) = Suc (unat (adv_counter i g))"
    "snd (adv_gate g c) \<Longrightarrow> cmd_nonce (fst c) \<notin> set (nonces g)"
    "nonces (fst (adv_gate g c)) = (if snd (adv_gate g c) then nonces (nonce_record (cmd_nonce (fst c)) g) else nonces g)"
    by (simp_all add: c)
qed

interpretation adv: exact_gate "adv_gate_of i" "\<lambda>_. True" "adv_counter i" adv_seqno for i
proof unfold_locales
  fix g c assume "snd (adv_gate_of i g c)"
  then have s: "unat (adv_seqno c) = Suc (unat (adv_counter i g))"
    using adv_gate_step(2) [of g c i] by (simp add: adv_gate_of_def)
  then show "adv_counter i g < adv_seqno c" by (simp add: word_less_nat_alt)
  from s show "adv_seqno c = adv_counter i g + 1"
    by (metis of_nat_unat ucast_id word_arith_nat_Suc word_succ_p1)
qed (auto simp: adv_gate_of_def adv_gate_step(1))

lemma adv_nonces_run:
  "nonces (fst (gate_run adv_gate g cs)) =
     nonces (fold nonce_record (map (\<lambda>c. cmd_nonce (fst c)) (snd (gate_run adv_gate g cs))) g)"
proof (induction cs arbitrary: g)
  case (Cons c cs)
  have cong: "nonces g = nonces h \<Longrightarrow> nonces (fold nonce_record ns g) = nonces (fold nonce_record ns h)" for ns g h
  proof (induction ns arbitrary: g h)
    case (Cons n ns)
    from Cons.IH [OF nonces_record_cong [OF Cons.prems, of n]] show ?case by (simp only: fold_Cons comp_apply)
  qed simp
  let ?ns = "map (\<lambda>c. cmd_nonce (fst c)) (snd (gate_run adv_gate (fst (adv_gate g c)) cs))"
  have "nonces (fold nonce_record ?ns (fst (adv_gate g c))) =
      nonces (fold nonce_record ?ns (if snd (adv_gate g c) then nonce_record (cmd_nonce (fst c)) g else g))"
    by (rule cong) (simp add: adv_gate_step(4))
  with Cons.IH [of "fst (adv_gate g c)"] show ?case
    by (cases "snd (adv_gate g c)") (simp_all only: gate_run_Cons fst_conv snd_conv if_True if_False
        append_Nil append_Cons list.map fold_Cons comp_apply)
qed simp

lemma adv_nonces_latest:
  "nonces (fst (gate_run adv_gate zero_gate cs)) =
     (let ns = map (\<lambda>c. cmd_nonce (fst c)) (snd (gate_run adv_gate zero_gate cs)) in drop (length ns - 256) ns)"
  using nonce_log.latest_entries [of zero_gate] by (simp add: adv_nonces_run Let_def zero_gate_def)


lemma adv_accepted_snoc:
  "snd (gate_run adv_gate g (cs @ [c])) =
     snd (gate_run adv_gate g cs) @ (if snd (adv_gate (fst (gate_run adv_gate g cs)) c) then [c] else [])"
  by (simp add: gate_run_append gate_run_Cons del: gate_run.simps(2))

section \<open>The generator never dies\<close>

lemma xor_zero_iff: "(a :: u64) XOR b = 0 \<longleftrightarrow> a = b"
  by (auto simp: bit_eq_iff bit_xor_iff)

lemma xor_push_nonzero:
  fixes x :: u64
  assumes "0 < n" and "x \<noteq> 0"
  shows "x XOR push_bit n x \<noteq> 0"
proof
  assume "x XOR push_bit n x = 0"
  then have eq: "push_bit n x = x" by (simp add: xor_zero_iff)
  define m where "m = (LEAST k. bit x k)"
  from assms(2) obtain k where "bit x k" by (auto simp: bit_eq_iff)
  then have "bit x m" unfolding m_def by (rule LeastI)
  then have "bit (push_bit n x) m" by (simp only: eq)
  then have "n \<le> m" "bit x (m - n)" by (simp_all only: bit_push_bit_iff)
  moreover have "m - n < m" using assms(1) \<open>n \<le> m\<close> by simp
  ultimately show False using not_less_Least [of "m - n" "bit x"] by (simp add: m_def)
qed

lemma xor_drop_nonzero:
  fixes x :: u64
  assumes "0 < n" and "x \<noteq> 0"
  shows "x XOR drop_bit n x \<noteq> 0"
proof
  assume "x XOR drop_bit n x = 0"
  then have eq: "drop_bit n x = x" by (simp add: xor_zero_iff)
  from assms(2) obtain k where k: "bit x k" by (auto simp: bit_eq_iff)
  have up: "bit x (k + j * n)" for j
  proof (induction j)
    case (Suc j)
    then have "bit (drop_bit n x) (k + j * n)" by (simp only: eq)
    then show ?case by (simp add: bit_drop_bit_eq ac_simps)
  qed (simp add: k)
  have "k + 64 * n < 64" using bit_imp_le_length [OF up [of 64]] by simp
  with assms(1) show False by simp
qed

lemma rng_next_nonzero:
  assumes "x \<noteq> 0"
  shows "rng_next x \<noteq> 0"
proof -
  have "x XOR push_bit 13 x \<noteq> 0" using assms by (intro xor_push_nonzero) simp_all
  then have "(x XOR push_bit 13 x) XOR drop_bit 7 (x XOR push_bit 13 x) \<noteq> 0" by (intro xor_drop_nonzero) simp_all
  then show ?thesis unfolding rng_next_def Let_def by (rule xor_push_nonzero [rotated]) simp
qed

section \<open>Properties\<close>

text \<open>what the gate accepts. A command is accepted exactly when it is admissible (its payload hash matches,
  it is in time, it is not a blocked bypass command, the interlocks are clear or it is the safe-state
  command, its nonce is not remembered) and either its sender is new, numbers it 1 and finds a free slot, or its sender is
  known and the command names the pinned node, needs no more than the pinned authority and
  carries the exact successor number; every refusal leaves the whole gate as it was.\<close>

theorem adv_accept_iff:
  "(fst (gate_evaluate g cmd now) = GATE_ACCEPT \<longleftrightarrow>
      admissible g cmd now \<and>
      (case find_sender g (cmd_sender_id cmd) of
         None \<Rightarrow> cmd_sequence cmd = 1 \<and> (\<exists>s \<in> set (senders g). \<not> st_used s)
       | Some i \<Rightarrow> cmd_node_id cmd = allowed_node (senders g ! i) \<and>
           cmd_required_authority cmd \<le> st_authority (senders g ! i) \<and>
           unat (cmd_sequence cmd) = Suc (unat (current_seq (senders g ! i))))) \<and>
   (fst (gate_evaluate g cmd now) = GATE_ACCEPT \<or> snd (gate_evaluate g cmd now) = g)"
proof (cases "admissible g cmd now")
  case False
  with gate_refused [OF this] show ?thesis by simp
next
  case adm: True
  show ?thesis
  proof (cases "find_sender g (cmd_sender_id cmd)")
    case None
    show ?thesis
    proof (cases "find_index (\<lambda>s. \<not> st_used s) (senders g)")
      case free: None
      then show ?thesis using adm None find_index_None [of "\<lambda>s. \<not> st_used s" "senders g"]
        by (simp add: gate_admitted bootstrap_sender_def)
    next
      case free: (Some i)
      then have "\<exists>s \<in> set (senders g). \<not> st_used s" using find_index_SomeD [OF free] nth_mem by blast
      with free adm None show ?thesis by (simp add: gate_admitted bootstrap_sender_def)
    qed
  next
    case (Some i)
    with adm show ?thesis
      by (auto simp: gate_admitted Let_def not_le not_less simp flip: next_in_range)
  qed
qed

text \<open>C7: per-sender sequencing. In any run from the zeroed gate, whatever other senders send in between
  and however the interlocks change, the accepted commands of one sender are numbered exactly 1, 2, ..., k.\<close>

theorem adv_run_exact:
  "map (\<lambda>c. unat (adv_seqno c)) (snd (gate_run (adv_gate_of i) zero_gate cs)) =
     [1..<Suc (length (snd (gate_run (adv_gate_of i) zero_gate cs)))]"
proof -
  have "find_sender zero_gate i = None"
    by (simp add: find_sender_def find_index_None zero_gate_def zero_sender_state_def)
  then have "adv_counter i zero_gate = 0" by (simp add: adv_counter_def)
  then show ?thesis using adv.accepted_exact [where s = zero_gate and i = i and cs = cs] by simp
qed

text \<open>C8: the nonce window. In any run from the zeroed gate a nonce is not accepted again while at most 255
  other commands have been accepted since, whoever sent them.\<close>

theorem adv_nonce_window:
  assumes "i < j" and "j < length (snd (gate_run adv_gate zero_gate cs))" and "j \<le> i + 256"
  shows "cmd_nonce (fst (snd (gate_run adv_gate zero_gate cs) ! i)) \<noteq>
     cmd_nonce (fst (snd (gate_run adv_gate zero_gate cs) ! j))"
  using assms(2)
proof (induction cs rule: rev_induct)
  case (snoc c cs)
  let ?acc = "snd (gate_run adv_gate zero_gate cs)" and ?g = "fst (gate_run adv_gate zero_gate cs)"
  let ?ns = "map (\<lambda>c. cmd_nonce (fst c)) ?acc"
  show ?case
  proof (cases "j < length ?acc")
    case True
    with snoc.IH assms(1) show ?thesis by (simp add: adv_accepted_snoc nth_append)
  next
    case False
    with snoc.prems have j: "j = length ?acc" and ok: "snd (adv_gate ?g c)"
      by (auto simp: adv_accepted_snoc split: if_splits)
    have "cmd_nonce (fst c) \<notin> set (drop (length ?ns - 256) ?ns)"
      using adv_gate_step(3) [OF ok] by (simp only: adv_nonces_latest Let_def not_False_eq_True)
    moreover have "cmd_nonce (fst (?acc ! i)) \<in> set (drop (length ?ns - 256) ?ns)"
    proof -
      have "drop (length ?ns - 256) ?ns ! (i - (length ?ns - 256)) = cmd_nonce (fst (?acc ! i))"
        using assms(1,3) j by simp
      then show ?thesis using assms(1,3) j by (metis (no_types, lifting) nth_mem diff_less_mono
          length_drop length_map le_diff_conv)
    qed
    ultimately show ?thesis using ok j assms(1) by (auto simp: adv_accepted_snoc nth_append)
  qed
qed simp

definition demo_adv :: "u8 \<Rightarrow> u64 \<Rightarrow> adv_input" where
  "demo_adv b n = (\<lparr>cmd_sender_id = 100, cmd_node_id = 7, cmd_sequence = n, cmd_issued_at_ns = 10,
     cmd_expires_at_ns = 20, cmd_nonce = replicate 16 b, cmd_type = 2, sender_authority = AUTH_ADMIN,
     cmd_required_authority = AUTH_OPERATOR, payload_hash_expected = 1, payload_hash_actual = 1\<rparr>,
     interlocks zero_gate, 12)"

theorem adv_nonce_window_witness:
  "cmd_nonce (fst (snd (gate_run adv_gate zero_gate [demo_adv 1 1, demo_adv 2 2]) ! 0)) \<noteq>
   cmd_nonce (fst (snd (gate_run adv_gate zero_gate [demo_adv 1 1, demo_adv 2 2]) ! 1))"
proof (rule adv_nonce_window)
  show "1 < length (snd (gate_run adv_gate zero_gate [demo_adv 1 1, demo_adv 2 2]))" by code_simp
qed simp_all

end
