(* ===== verification/Executive.thy ===== *)
theory Executive
  imports Core
begin

text \<open>
  \<open>src/executive.c\<close>: the socket server around the evaluator, and its predecessor under
  \<open>evidence/g0_integration_pass\<close>. The environment of an iteration is the outcome of \<open>accept\<close>, of the one \<open>read\<close>,
  the clock and the indeterminate content of the 512-byte stack buffer; for the process as a whole also whether the peer is
  still there when the reply is written. Interlocks and sender
  are the two locals of \<open>main\<close>, zero at the start.
\<close>

section \<open>Reading an exact number of bytes\<close>

text \<open>\<open>read_exact\<close> (unused by \<open>main\<close>): the outcomes of the successive \<open>read\<close> calls are a list; a
  \<open>Data\<close> outcome never exceeds what was asked for. Result: the return value and the bytes stored. The list running out is \<open>None\<close>.\<close>

datatype read_outcome = Data bytes | Interrupted | Read_error

primrec read_exact :: "read_outcome list \<Rightarrow> nat \<Rightarrow> bytes \<Rightarrow> (int \<times> bytes) option" where
  "read_exact [] remaining acc = (if remaining = 0 then Some (int (length acc), acc) else None)"
| "read_exact (x # xs) remaining acc =
     (if remaining = 0 then Some (int (length acc), acc)
      else case x of
        Data bs \<Rightarrow>
          (if bs = [] then Some (int (length acc), acc)
           else read_exact xs (remaining - length (take remaining bs)) (acc @ take remaining bs))
      | Interrupted \<Rightarrow> read_exact xs remaining acc
      | Read_error \<Rightarrow> Some (-1, acc))"

section \<open>The server loop\<close>

datatype connection =
    Accept_interrupted
  | Accept_failed
  | Client "bytes option" bytes u64   \<comment> \<open>bytes read (\<open>None\<close> on error), stale buffer, clock\<close>

text \<open>The bytes that \<open>(SignedCommand *)buffer\<close> sees after a short read.\<close>

definition exec_buffer :: "bytes \<Rightarrow> bytes \<Rightarrow> bytes" where
  "exec_buffer bs stale = bs @ drop (length bs) stale"

type_synonym exec_state = "SenderRecord \<times> SafetyInterlocks"

definition serve_client ::
  "bool \<Rightarrow> sig_verify \<Rightarrow> bytes option \<Rightarrow> bytes \<Rightarrow> u64 \<Rightarrow> exec_state \<Rightarrow> bytes option \<times> exec_state" where
  "serve_client sim vf rd stale now st =
     (case rd of
        None \<Rightarrow> (None, st)
      | Some bs \<Rightarrow>
          if bs = [] then (None, st)
          else let (r, s', il') = evaluate_command sim vf (command_of_bytes (exec_buffer bs stale)) (fst st) (snd st) now
               in (Some (le_bytes 4 (result_code r)), (s', il')))"

text \<open>The replies written, in order, until the loop ends.\<close>

primrec exec_loop :: "bool \<Rightarrow> sig_verify \<Rightarrow> connection list \<Rightarrow> exec_state \<Rightarrow> bytes list \<times> exec_state" where
  "exec_loop sim vf [] st = ([], st)"
| "exec_loop sim vf (c # cs) st =
     (case c of
        Accept_interrupted \<Rightarrow> exec_loop sim vf cs st
      | Accept_failed \<Rightarrow> ([], st)
      | Client rd stale now \<Rightarrow>
          (let (reply, st) = serve_client sim vf rd stale now st;
               (replies, st) = exec_loop sim vf cs st
           in ((case reply of None \<Rightarrow> [] | Some r \<Rightarrow> [r]) @ replies, st)))"

definition exec_main :: "bool \<Rightarrow> sig_verify \<Rightarrow> connection list \<Rightarrow> bytes list \<times> exec_state" where
  "exec_main sim vf cs = exec_loop sim vf cs (zero_sender, zero_interlocks)"

text \<open>The process, signals included. A connection comes with a flag: the peer has closed its end before the reply is written.
  The program neither ignores nor handles SIGPIPE, so that \<open>write\<close> kills it. \<open>exec_loop\<close> is the case where nobody
  does that (\<open>exec_process_loop\<close>).\<close>

datatype exec_end = Serving exec_state | Accept_gave_up exec_state | Killed_by_SIGPIPE

primrec exec_process :: "bool \<Rightarrow> sig_verify \<Rightarrow> (connection \<times> bool) list \<Rightarrow> exec_state \<Rightarrow> bytes list \<times> exec_end" where
  "exec_process sim vf [] st = ([], Serving st)"
| "exec_process sim vf (x # xs) st =
     (case fst x of
        Accept_interrupted \<Rightarrow> exec_process sim vf xs st
      | Accept_failed \<Rightarrow> ([], Accept_gave_up st)
      | Client rd stale now \<Rightarrow>
          (let (reply, st) = serve_client sim vf rd stale now st
           in case reply of
                None \<Rightarrow> exec_process sim vf xs st
              | Some r \<Rightarrow>
                  if snd x then ([], Killed_by_SIGPIPE)
                  else (let (replies, e) = exec_process sim vf xs st in (r # replies, e))))"

text \<open>The predecessor's loop body: no evaluation, a constant reply.\<close>

definition evidence_serve_client :: "bytes option \<Rightarrow> bytes option" where
  "evidence_serve_client rd =
     (case rd of None \<Rightarrow> None | Some bs \<Rightarrow> if bs = [] then None else Some (le_bytes 4 (0 :: u32)))"

section \<open>The loop runs the gate\<close>

text \<open>The commands that are evaluated, with their times.\<close>

fun exec_commands :: "connection list \<Rightarrow> (SignedCommand \<times> u64) list" where
  "exec_commands [] = []"
| "exec_commands (Accept_interrupted # cs) = exec_commands cs"
| "exec_commands (Accept_failed # cs) = []"
| "exec_commands (Client rd stale now # cs) =
     (case rd of
        None \<Rightarrow> exec_commands cs
      | Some bs \<Rightarrow> (if bs = [] then [] else [(command_of_bytes (exec_buffer bs stale), now)]) @ exec_commands cs)"

definition reply_ok :: bytes where
  "reply_ok = le_bytes 4 (result_code GO_OK)"

lemma reply_inject: "le_bytes 4 (result_code a) = le_bytes 4 (result_code b) \<longleftrightarrow> a = b"
  by (simp add: le_bytes_inject result_code_inject)

text \<open>The replies and the commands line up, and the accepted commands are the gate's.\<close>

lemma exec_skip:
  "rd = None \<or> rd = Some [] \<Longrightarrow> exec_loop sim vf (Client rd stale now # cs) st = exec_loop sim vf cs st"
  "rd = None \<or> rd = Some [] \<Longrightarrow> exec_commands (Client rd stale now # cs) = exec_commands cs"
  by (auto simp: serve_client_def split_beta)

lemma exec_loop_refines:
  "length (fst (exec_loop sim vf cs st)) = length (exec_commands cs) \<and>
   snd (exec_loop sim vf cs st) = fst (gate_run (core_gate sim vf) st (exec_commands cs)) \<and>
   map fst (filter (\<lambda>p. snd p = reply_ok) (zip (exec_commands cs) (fst (exec_loop sim vf cs st)))) =
     snd (gate_run (core_gate sim vf) st (exec_commands cs))"
proof (induction cs arbitrary: st)
  case (Cons x cs)
  show ?case
  proof (cases x)
    case (Client rd stale now)
    show ?thesis
    proof (cases "rd = None \<or> rd = Some []")
      case True
      show ?thesis unfolding Client exec_skip [OF True] by (rule Cons.IH)
    next
      case False
      then obtain bs where rd: "rd = Some bs" "bs \<noteq> []" by auto
      let ?c = "command_of_bytes (exec_buffer bs stale)"
      obtain r s il where ev: "evaluate_command sim vf ?c (fst st) (snd st) now = (r, s, il)"
        by (metis prod.collapse)
      have g: "core_gate sim vf st (?c, now) = ((s, il), r = GO_OK)" by (simp add: core_gate_def ev)
      have "le_bytes 4 (result_code r) = reply_ok \<longleftrightarrow> r = GO_OK" by (simp only: reply_ok_def reply_inject)
      with rd ev g Cons.IH [of "(s, il)"] show ?thesis by (simp add: Client serve_client_def split_beta Let_def)
    qed
  qed (use Cons.IH [of st] in simp_all)
qed simp

lemma exec_interlocks_clear:
  "snd st = zero_interlocks \<Longrightarrow> snd (snd (exec_loop sim vf cs st)) = zero_interlocks \<and>
     le_bytes 4 (result_code GO_INTERLOCK_TRIPPED) \<notin> set (fst (exec_loop sim vf cs st))"
proof (induction cs arbitrary: st)
  case (Cons x cs)
  show ?case
  proof (cases x)
    case (Client rd stale now)
    show ?thesis
    proof (cases "rd = None \<or> rd = Some []")
      case True
      show ?thesis unfolding Client exec_skip [OF True] using Cons.prems by (rule Cons.IH)
    next
      case False
      then obtain bs where rd: "rd = Some bs" "bs \<noteq> []" by auto
      let ?c = "command_of_bytes (exec_buffer bs stale)"
      obtain r s il where ev: "evaluate_command sim vf ?c (fst st) (snd st) now = (r, s, il)"
        by (metis prod.collapse)
      have "r \<noteq> GO_INTERLOCK_TRIPPED" and il: "il = zero_interlocks"
        using core_tripped_iff [of sim vf ?c "fst st" "snd st" now]
          core_interlocks_after [of sim vf ?c "fst st" "snd st" now] ev Cons.prems by (auto split: if_splits)
      then have "le_bytes 4 (result_code GO_INTERLOCK_TRIPPED) \<noteq> le_bytes 4 (result_code r)"
        by (metis reply_inject)
      with rd ev Cons.IH [of "(s, il)"] il show ?thesis
        by (simp add: Client serve_client_def split_beta Let_def del: result_code.simps)
    qed
  qed (use Cons in simp_all)
qed simp

text \<open>The accepted numbers, in terms of the replies.\<close>

lemma exec_answers_consecutive:
  "let (replies, st) = exec_main sim vf cs;
       ok = map fst (filter (\<lambda>p. snd p = le_bytes 4 (result_code GO_OK)) (zip (exec_commands cs) replies))
   in length replies = length (exec_commands cs) \<and>
      st = fst (gate_run (core_gate sim vf) (zero_sender, zero_interlocks) (exec_commands cs)) \<and>
      map core_seqno ok = map (\<lambda>i. of_nat (Suc i)) [0..<length ok]"
proof -
  let ?st = "(zero_sender, zero_interlocks)"
  let ?acc = "snd (gate_run (core_gate sim vf) ?st (exec_commands cs))"
  have acc: "map core_seqno ?acc = map (\<lambda>i. of_nat (Suc i)) [0..<length ?acc]"
    using core.accepted_consecutive [where s = ?st and sim = sim and vf = vf and cs = "exec_commands cs"]
    by (simp add: core_counter_def zero_sender_def)
  note refines = exec_loop_refines [of sim vf cs ?st, unfolded reply_ok_def, folded exec_main_def]
  show ?thesis unfolding split_beta Let_def
    using refines acc by (simp only: simp_thms)
qed

section \<open>Commands of others\<close>



lemma served_iff: "fst (serve_client sim vf rd stale now st) = None \<longleftrightarrow> exec_commands [Client rd stale now] = []"
  by (auto simp: serve_client_def split_beta split: option.splits)

lemma exec_process_loop:
  assumes "\<forall>x \<in> set xs. snd x \<longrightarrow> exec_commands [fst x] = []"
  shows "fst (exec_process sim vf xs st) = fst (exec_loop sim vf (map fst xs) st) \<and>
    (let st' = snd (exec_loop sim vf (map fst xs) st)
     in snd (exec_process sim vf xs st) = (if Accept_failed \<in> fst ` set xs then Accept_gave_up st' else Serving st'))"
  using assms
proof (induction xs arbitrary: st)
  case (Cons x xs)
  show ?case
  proof (cases "fst x")
    case (Client rd stale now)
    have go: "snd x \<longrightarrow> fst (serve_client sim vf rd stale now st) = None" using Cons.prems Client served_iff by simp
    obtain reply st1 where serve: "serve_client sim vf rd stale now st = (reply, st1)" by (metis prod.collapse)
    from Cons.IH [of st1] Cons.prems go Client serve show ?thesis
      by (auto simp: Let_def split_beta split: option.split)
  qed (use Cons.IH [of st] Cons.prems in simp_all)
qed simp


section \<open>Properties\<close>

text \<open>the executive has no interlocks. Its interlock block starts at zero and nothing in the program
  sets it, so no client is ever told that an interlock is tripped.\<close>

theorem executive_never_trips:
  "snd (snd (exec_main sim vf cs)) = zero_interlocks \<and>
   le_bytes 4 (result_code GO_INTERLOCK_TRIPPED) \<notin> set (fst (exec_main sim vf cs))"
  unfolding exec_main_def by (rule exec_interlocks_clear) simp

text \<open>C27: a short frame is completed from the stack. The executive evaluates whenever it read at least one
  byte, so if the buffer still holds a command of an earlier connection, sending any nonempty prefix of it has
  the effect of sending it whole.\<close>

theorem executive_prefix_completes:
  assumes "wf_command c" and "0 < k" and "k \<le> 390" and "stale = command_bytes c @ rest"
  shows "serve_client sim vf (Some (take k (command_bytes c))) stale now st =
     serve_client sim vf (Some (command_bytes c)) stale now st"
proof -
  have len: "length (command_bytes c) = 390" using assms(1) by (rule length_command_bytes)
  have "exec_buffer (take k (command_bytes c)) stale = stale" "exec_buffer (command_bytes c) stale = stale"
    using assms(3,4) len by (simp_all add: exec_buffer_def flip: append_assoc)
  moreover have "command_bytes c \<noteq> []" "take k (command_bytes c) \<noteq> []" using len assms(2) by auto
  ultimately show ?thesis by (simp add: serve_client_def)
qed

theorem executive_prefix_completes_witness:
  "serve_client False demo_verify (Some (take 1 (command_bytes (demo_command 1 (replicate 64 0)))))
     (command_bytes (demo_command 1 (replicate 64 0)) @ replicate 122 0) 12 (zero_sender, zero_interlocks) =
   serve_client False demo_verify (Some (command_bytes (demo_command 1 (replicate 64 0))))
     (command_bytes (demo_command 1 (replicate 64 0)) @ replicate 122 0) 12 (zero_sender, zero_interlocks)"
  by (rule executive_prefix_completes [where rest = "replicate 122 0"]) simp_all

text \<open>one client can stop the executive. A client that sends at least one byte and closes its end before the reply is
  written kills the process by SIGPIPE: nobody behind it is served.\<close>

theorem executive_hangup_kills:
  assumes "bs \<noteq> []"
  shows "exec_process sim vf ((Client (Some bs) stale now, True) # xs) st = ([], Killed_by_SIGPIPE)"
  using assms by (simp add: serve_client_def split_beta)



text \<open>\<open>read_exact\<close> gathers the stream however it is cut up.\<close>

lemma read_exact_gathers:
  "list_all (\<lambda>bs. bs \<noteq> []) bss \<Longrightarrow> length (concat bss) = n \<Longrightarrow>
     read_exact (map Data bss) n acc = Some (int (length acc + n), acc @ concat bss)"
proof (induction bss arbitrary: n acc)
  case (Cons bs bss)
  then show ?case using Cons.IH [of "n - length bs" "acc @ bs"] by auto
qed simp

end
