(* ===== verification/Merkle_Tree.thy ===== *)
theory Merkle_Tree
  imports Gate0_Prelude
begin

text \<open>
  \<open>src/tree.c\<close>, \<open>src/tree.h\<close> and \<open>init_audit_if_needed\<close> of \<open>src/core.c\<close>: the Merkle
  frontier of the audit trail. The hash \<open>H\<close> (\<open>crypto_generichash\<close> with a 32-byte digest) is an
  argument. The specification is the usual recursive tree hash over a list of leaves, split at
  the largest power of two; the bridge between the two is a binary counter whose digits are trees.
\<close>

section \<open>The frontier\<close>

record MerkleTree =
  frontier :: "bytes list"
  leaf_count :: u64

abbreviation MERKLE_MAX_DEPTH :: nat where "MERKLE_MAX_DEPTH \<equiv> 8"
abbreviation HASH_BYTES :: nat where "HASH_BYTES \<equiv> 32"

definition zero_hash :: bytes where
  "zero_hash = replicate HASH_BYTES 0"

definition merkle_init :: MerkleTree where
  "merkle_init = \<lparr>frontier = replicate MERKLE_MAX_DEPTH zero_hash, leaf_count = 0\<rparr>"

text \<open>The loop of \<open>merkle_append\<close> from level \<open>i\<close>, and the loop of \<open>merkle_get_root\<close>.\<close>

function append_loop :: "hash_fun \<Rightarrow> u64 \<Rightarrow> nat \<Rightarrow> bytes \<Rightarrow> bytes list \<Rightarrow> bytes list" where
  "append_loop H idx i cur fr =
     (if MERKLE_MAX_DEPTH \<le> i then fr
      else if idx AND push_bit i 1 = 0 then fr[i := cur]
      else append_loop H idx (Suc i) (H (fr ! i @ cur)) fr)"
  by pat_completeness auto
termination
  by (relation "measure (\<lambda>(H, idx, i, cur, fr). 8 - i)") auto

function root_loop :: "hash_fun \<Rightarrow> u64 \<Rightarrow> nat \<Rightarrow> bytes \<Rightarrow> bool \<Rightarrow> bytes list \<Rightarrow> bytes" where
  "root_loop H cnt i cur active fr =
     (if MERKLE_MAX_DEPTH \<le> i then cur
      else if cnt AND push_bit i 1 \<noteq> 0 then
        (if \<not> active then root_loop H cnt (Suc i) (fr ! i) True fr
         else root_loop H cnt (Suc i) (H (fr ! i @ cur)) True fr)
      else root_loop H cnt (Suc i) cur active fr)"
  by pat_completeness auto
termination
  by (relation "measure (\<lambda>(H, cnt, i, cur, active, fr). 8 - i)") auto

declare append_loop.simps [simp del] root_loop.simps [simp del]

definition merkle_append :: "hash_fun \<Rightarrow> bytes \<Rightarrow> MerkleTree \<Rightarrow> MerkleTree" where
  "merkle_append H data t =
     t\<lparr>frontier := append_loop H (leaf_count t) 0 (H data) (frontier t),
       leaf_count := leaf_count t + 1\<rparr>"

definition merkle_get_root :: "hash_fun \<Rightarrow> MerkleTree \<Rightarrow> bytes" where
  "merkle_get_root H t = root_loop H (leaf_count t) 0 zero_hash False (frontier t)"

text \<open>\<open>init_audit_if_needed\<close>: the static flag and the global tree.\<close>

definition init_audit_if_needed :: "bool \<times> MerkleTree \<Rightarrow> bool \<times> MerkleTree" where
  "init_audit_if_needed st = (if \<not> fst st then (True, merkle_init) else st)"

section \<open>The specification\<close>

text \<open>The largest power of two below \<open>n\<close> (for \<open>n \<ge> 2\<close>), and the tree hash of a list of leaves.\<close>

fun split_point :: "nat \<Rightarrow> nat" where
  "split_point n = (if n \<le> 2 then 1 else 2 * split_point ((n + 1) div 2))"

declare split_point.simps [simp del]

lemma split_point_eq: "2 ^ k < n \<Longrightarrow> n \<le> 2 ^ Suc k \<Longrightarrow> split_point n = 2 ^ k"
proof (induction k arbitrary: n)
  case 0
  then show ?case by (subst split_point.simps) simp
next
  case (Suc k)
  have "1 \<le> (2 :: nat) ^ k" by simp
  with Suc.prems(1) have "2 < n" unfolding power_Suc by linarith
  moreover have "2 ^ k < (n + 1) div 2" "(n + 1) div 2 \<le> 2 ^ Suc k" using Suc.prems by auto
  then have "split_point ((n + 1) div 2) = 2 ^ k" by (rule Suc.IH)
  ultimately show ?case by (subst split_point.simps) simp
qed

lemma split_point_bounds:
  assumes "2 \<le> n"
  shows "0 < split_point n" and "split_point n < n"
proof -
  define k where "k = (LEAST j. n \<le> 2 ^ Suc j)"
  have "n \<le> 2 ^ Suc n" using less_exp [of "Suc n"] by linarith
  then have hi: "n \<le> 2 ^ Suc k" unfolding k_def by (rule LeastI)
  have "2 ^ k < n"
  proof (cases k)
    case (Suc j)
    then have "\<not> n \<le> 2 ^ Suc j" unfolding k_def by (metis lessI not_less_Least)
    with Suc show ?thesis by simp
  qed (use assms in simp)
  with hi have "split_point n = 2 ^ k" by (intro split_point_eq)
  with \<open>2 ^ k < n\<close> show "0 < split_point n" and "split_point n < n" by simp_all
qed

function tree_hash :: "hash_fun \<Rightarrow> bytes list \<Rightarrow> bytes" where
  "tree_hash H [] = zero_hash"
| "tree_hash H [x] = H x"
| "tree_hash H (x # y # xs) =
     (let zs = x # y # xs; k = split_point (length zs)
      in H (tree_hash H (take k zs) @ tree_hash H (drop k zs)))"
  by pat_completeness auto
termination
proof (relation "measure (\<lambda>(H, xs). length xs)")
  fix H :: hash_fun and x y :: bytes and xs zs k
  assume "zs = x # y # xs" "k = split_point (length zs)"
  then show "((H, take k zs), H, x # y # xs) \<in> measure (\<lambda>(H, xs). length xs)"
    and "((H, drop k zs), H, x # y # xs) \<in> measure (\<lambda>(H, xs). length xs)"
    using split_point_bounds [of "length zs"] by auto
qed simp

lemma tree_hash_split:
  assumes "2 ^ k < length xs" and "length xs \<le> 2 ^ Suc k"
  shows "tree_hash H xs = H (tree_hash H (take (2 ^ k) xs) @ tree_hash H (drop (2 ^ k) xs))"
proof -
  have "1 \<le> (2 :: nat) ^ k" by simp
  with assms(1) have "2 \<le> length xs" by linarith
  then obtain x y zs where "xs = x # y # zs" by (cases xs; cases "tl xs") auto
  moreover from split_point_eq [OF assms] calculation have "split_point (length (x # y # zs)) = 2 ^ k" by simp
  ultimately show ?thesis by (simp only: tree_hash.simps Let_def)
qed

section \<open>A binary counter of trees\<close>

datatype mtree = Leaf bytes | Node mtree mtree

primrec tleaves :: "mtree \<Rightarrow> bytes list" where
  "tleaves (Leaf x) = [x]"
| "tleaves (Node l r) = tleaves l @ tleaves r"

primrec troot :: "hash_fun \<Rightarrow> mtree \<Rightarrow> bytes" where
  "troot H (Leaf x) = H x"
| "troot H (Node l r) = H (troot H l @ troot H r)"

fun perfect :: "nat \<Rightarrow> mtree \<Rightarrow> bool" where
  "perfect 0 (Leaf x) = True"
| "perfect (Suc k) (Node l r) = (perfect k l \<and> perfect k r)"
| "perfect _ _ = False"

lemma length_perfect: "perfect k t \<Longrightarrow> length (tleaves t) = 2 ^ k"
  by (induction k t rule: perfect.induct) auto

lemma tree_hash_perfect: "perfect k t \<Longrightarrow> tree_hash H (tleaves t) = troot H t"
proof (induction k t rule: perfect.induct)
  case (2 k l r)
  have len: "length (tleaves l) = 2 ^ k" "length (tleaves r) = 2 ^ k"
    using 2 by (auto intro: length_perfect)
  then have "tree_hash H (tleaves (Node l r)) = H (tree_hash H (tleaves l) @ tree_hash H (tleaves r))"
    by (subst tree_hash_split [of k]) auto
  with 2 show ?case by auto
qed auto

text \<open>The digits, lowest first: digit \<open>i\<close> is absent or a perfect tree of height \<open>i\<close>.\<close>

type_synonym forest = "mtree option list"

fun forest_ok :: "nat \<Rightarrow> forest \<Rightarrow> bool" where
  "forest_ok i [] = True"
| "forest_ok i (None # ds) = forest_ok (Suc i) ds"
| "forest_ok i (Some t # ds) = (perfect i t \<and> forest_ok (Suc i) ds)"

fun fleaves :: "forest \<Rightarrow> bytes list" where
  "fleaves [] = []"
| "fleaves (None # ds) = fleaves ds"
| "fleaves (Some t # ds) = fleaves ds @ tleaves t"

fun carry :: "mtree \<Rightarrow> forest \<Rightarrow> forest" where
  "carry t [] = []"
| "carry t (None # ds) = Some t # ds"
| "carry t (Some u # ds) = None # carry (Node u t) ds"

lemma length_carry [simp]: "length (carry t ds) = length ds"
  by (induction t ds rule: carry.induct) auto

lemma carry_ok: "forest_ok i ds \<Longrightarrow> perfect i t \<Longrightarrow> forest_ok i (carry t ds)"
  by (induction t ds arbitrary: i rule: carry.induct) auto

lemma carry_leaves:
  "fleaves (carry t ds) = (if None \<in> set ds then fleaves ds @ tleaves t else [])"
  by (induction t ds rule: carry.induct) auto

lemma forest_snoc_ok: "forest_ok i (ds @ [d]) \<longleftrightarrow>
    forest_ok i ds \<and> (case d of None \<Rightarrow> True | Some t \<Rightarrow> perfect (i + length ds) t)"
  by (induction i ds rule: forest_ok.induct) (auto split: option.splits)

lemma fleaves_snoc:
  "fleaves (ds @ [d]) = (case d of None \<Rightarrow> [] | Some t \<Rightarrow> tleaves t) @ fleaves ds"
  by (induction ds rule: fleaves.induct) (auto split: option.splits)

lemma fleaves_bound: "forest_ok 0 ds \<Longrightarrow> length (fleaves ds) < 2 ^ length ds"
proof (induction ds rule: rev_induct)
  case (snoc d ds)
  then show ?case
    by (cases d) (auto simp: forest_snoc_ok fleaves_snoc dest: length_perfect)
qed simp

lemma fleaves_full:
  "forest_ok i ds \<Longrightarrow> None \<notin> set ds \<Longrightarrow> length (fleaves ds) + 2 ^ i = 2 ^ (i + length ds)"
  by (induction i ds rule: forest_ok.induct) (auto dest!: length_perfect)

lemma fleaves_not_full:
  assumes "forest_ok 0 ds" and "None \<in> set ds"
  shows "Suc (length (fleaves ds)) < 2 ^ length ds"
  using assms
proof (induction ds rule: rev_induct)
  case (snoc d ds)
  then have "length (fleaves ds) < 2 ^ length ds" by (simp add: fleaves_bound forest_snoc_ok)
  with snoc show ?case
    by (cases d) (auto simp: forest_snoc_ok fleaves_snoc dest!: length_perfect)
qed simp

text \<open>Bagging: fold the digits, lowest first, each further tree on the left.\<close>

fun bag :: "mtree option \<Rightarrow> forest \<Rightarrow> mtree option" where
  "bag acc [] = acc"
| "bag acc (None # ds) = bag acc ds"
| "bag None (Some t # ds) = bag (Some t) ds"
| "bag (Some a) (Some t # ds) = bag (Some (Node t a)) ds"

lemma bag_snoc: "bag acc (ds @ [d]) =
    (case d of None \<Rightarrow> bag acc ds
             | Some t \<Rightarrow> (case bag acc ds of None \<Rightarrow> Some t | Some a \<Rightarrow> Some (Node t a)))"
  by (induction acc ds rule: bag.induct) (auto split: option.splits)

lemma bag_tree_hash:
  assumes "forest_ok 0 ds"
  shows "(case bag None ds of None \<Rightarrow> zero_hash | Some t \<Rightarrow> troot H t) = tree_hash H (fleaves ds) \<and>
     (bag None ds = None \<longleftrightarrow> fleaves ds = [])"
  using assms
proof (induction ds rule: rev_induct)
  case (snoc d ds)
  show ?case
  proof (cases d)
    case None
    with snoc show ?thesis by (simp add: forest_snoc_ok bag_snoc fleaves_snoc)
  next
    case (Some t)
    with snoc.prems have t: "perfect (length ds) t" and ok: "forest_ok 0 ds"
      by (simp_all add: forest_snoc_ok)
    note IH = snoc.IH [OF ok] and len = length_perfect [OF t]
    have ne: "tleaves t \<noteq> []" using len by auto
    show ?thesis
    proof (cases "bag None ds")
      case None
      with IH Some ne show ?thesis
        by (simp add: bag_snoc fleaves_snoc tree_hash_perfect [OF t])
    next
      case (Some a)
      with IH have "fleaves ds \<noteq> []" by simp
      then have "tree_hash H (tleaves t @ fleaves ds) = H (tree_hash H (tleaves t) @ tree_hash H (fleaves ds))"
        using len fleaves_bound [OF ok] by (subst tree_hash_split [of "length ds"]) auto
      with IH Some \<open>d = Some t\<close> ne show ?thesis
        by (simp add: bag_snoc fleaves_snoc tree_hash_perfect [OF t])
    qed
  qed
qed simp

section \<open>The code implements the counter\<close>

lemma bit_Suc_nat: "bit (Suc n) i \<longleftrightarrow> (bit n i \<noteq> (\<forall>j < i. bit n j))"
proof (induction i arbitrary: n)
  case 0
  show ?case by (simp add: bit_0)
next
  case (Suc i)
  have all: "(\<forall>j < Suc i. bit n j) \<longleftrightarrow> odd n \<and> (\<forall>j < i. bit (n div 2) j)"
    by (auto simp: less_Suc_eq_0_disj bit_0 bit_Suc)
  show ?case
  proof (cases "even n")
    case True
    with all show ?thesis by (simp add: bit_Suc)
  next
    case False
    then have "Suc n div 2 = Suc (n div 2)" by simp
    with False all Suc.IH [of "n div 2"] show ?thesis by (simp add: bit_Suc)
  qed
qed

lemma bit_incr_word:
  fixes w :: u64
  assumes "i < 64"
  shows "bit (w + 1) i \<longleftrightarrow> (bit w i \<noteq> (\<forall>j < i. bit w j))"
proof -
  have unat_bit: "bit w j = bit (unat w) j" for j by (simp add: bit_unsigned_iff)
  have "bit (w + 1) i = bit (unat (w + 1)) i" by (simp add: bit_unsigned_iff)
  also have "unat (w + 1) = take_bit 64 (Suc (unat w))"
    by (simp add: unat_word_ariths take_bit_eq_mod)
  finally show ?thesis using assms by (simp add: bit_take_bit_iff bit_Suc_nat unat_bit)
qed

lemma mask_test_iff:
  fixes w :: u64
  shows "w AND push_bit i 1 = 0 \<longleftrightarrow> \<not> bit w i" and "w AND 2 ^ i = 0 \<longleftrightarrow> \<not> bit w i"
  by (simp_all add: bit_iff_and_push_bit_not_eq_0)

text \<open>The digits of the code's state from level \<open>i\<close> on, and counter and bagging on digests.\<close>

definition digits :: "u64 \<Rightarrow> bytes list \<Rightarrow> nat \<Rightarrow> bytes option list" where
  "digits cnt fr i = map (\<lambda>j. if bit cnt j then Some (fr ! j) else None) [i..<8]"

fun hcarry :: "hash_fun \<Rightarrow> bytes \<Rightarrow> bytes option list \<Rightarrow> bytes option list" where
  "hcarry H h [] = []"
| "hcarry H h (None # ds) = Some h # ds"
| "hcarry H h (Some g # ds) = None # hcarry H (H (g @ h)) ds"

fun hbag :: "hash_fun \<Rightarrow> bytes option \<Rightarrow> bytes option list \<Rightarrow> bytes option" where
  "hbag H acc [] = acc"
| "hbag H acc (None # ds) = hbag H acc ds"
| "hbag H None (Some g # ds) = hbag H (Some g) ds"
| "hbag H (Some h) (Some g # ds) = hbag H (Some (H (g @ h))) ds"

lemma hbag_not_None: "hbag H (Some h) ds \<noteq> None"
proof (induction ds arbitrary: h)
  case (Cons d ds)
  then show ?case by (cases d) auto
qed simp

lemma digits_step:
  "i < 8 \<Longrightarrow> digits cnt fr i = (if bit cnt i then Some (fr ! i) else None) # digits cnt fr (Suc i)"
  by (simp add: digits_def upt_conv_Cons)

lemma digits_done [simp]: "8 \<le> i \<Longrightarrow> digits cnt fr i = []"
  by (simp add: digits_def)

lemma hcarry_troot:
  "hcarry H (troot H t) (map (map_option (troot H)) ds) = map (map_option (troot H)) (carry t ds)"
  by (induction t ds rule: carry.induct) auto

lemma hbag_troot:
  "hbag H (map_option (troot H) acc) (map (map_option (troot H)) ds) = map_option (troot H) (bag acc ds)"
proof (induction acc ds rule: bag.induct)
  case (4 a t ds)
  then show ?case by simp
qed auto

lemma append_loop_digits:
  assumes "length fr = 8" and "\<forall>j < i. bit idx j"
  shows "digits (idx + 1) (append_loop H idx i cur fr) i = hcarry H cur (digits idx fr i) \<and>
     length (append_loop H idx i cur fr) = 8"
  using assms
proof (induction H idx i cur fr rule: append_loop.induct)
  case (1 H idx i cur fr)
  consider (top) "8 \<le> i" | (store) "i < 8" "\<not> bit idx i" | (ripple) "i < 8" "bit idx i"
    by fastforce
  then show ?case
  proof cases
    case top
    with 1 show ?thesis by (simp add: append_loop.simps [of H idx i cur fr])
  next
    case store
    have "digits (idx + 1) (fr[i := cur]) (Suc i) = digits idx fr (Suc i)"
      unfolding digits_def
    proof (rule map_cong [OF refl])
      fix j assume j: "j \<in> set [Suc i..<8]"
      with store have "\<not> (\<forall>l < j. bit idx l)" and "j < 64" by (auto intro!: exI [of _ i])
      then have "bit (idx + 1) j = bit idx j" by (simp add: bit_incr_word)
      with j show "(if bit (idx + 1) j then Some (fr[i := cur] ! j) else None) =
          (if bit idx j then Some (fr ! j) else None)" by simp
    qed
    moreover have "bit (idx + 1) i" using store 1 by (subst bit_incr_word) auto
    ultimately show ?thesis
      using store 1 by (simp add: append_loop.simps [of H idx i cur fr] mask_test_iff digits_step)
  next
    case ripple
    have "\<not> bit (idx + 1) i" using ripple 1 by (subst bit_incr_word) auto
    moreover have "\<forall>j < Suc i. bit idx j" using ripple 1 by (auto simp: less_Suc_eq)
    ultimately show ?thesis
      using ripple 1 by (simp add: append_loop.simps [of H idx i cur fr] mask_test_iff digits_step)
  qed
qed

lemma root_loop_digits:
  "root_loop H cnt i cur active fr =
     (case hbag H (if active then Some cur else None) (digits cnt fr i) of None \<Rightarrow> cur | Some h \<Rightarrow> h)"
proof (induction H cnt i cur active fr rule: root_loop.induct)
  case (1 H cnt i cur active fr)
  show ?case
  proof (cases "8 \<le> i")
    case True
    then show ?thesis by (simp add: root_loop.simps)
  next
    case False
    then show ?thesis
      using 1 by (cases active; cases "bit cnt i")
        (simp_all add: root_loop.simps [of H cnt i cur] mask_test_iff digits_step hbag_not_None
          split: option.split)
  qed
qed

text \<open>The simulation relation between the C state and the counter of trees.\<close>

definition represents :: "hash_fun \<Rightarrow> MerkleTree \<Rightarrow> forest \<Rightarrow> bool" where
  "represents H t ds \<longleftrightarrow> length (frontier t) = 8 \<and> length ds = 8 \<and> forest_ok 0 ds \<and>
     digits (leaf_count t) (frontier t) 0 = map (map_option (troot H)) ds"

lemma represents_init: "represents H merkle_init (replicate 8 None)"
  by (simp add: represents_def merkle_init_def digits_def upt_rec eval_nat_numeral)

lemma represents_append:
  assumes "represents H t ds"
  shows "represents H (merkle_append H x t) (carry (Leaf x) ds)"
  using assms append_loop_digits [of "frontier t" 0 "leaf_count t" H "H x"]
    hcarry_troot [of H "Leaf x" ds] carry_ok [of 0 ds "Leaf x"]
  by (simp add: represents_def merkle_append_def)

lemma represents_root:
  assumes "represents H t ds"
  shows "merkle_get_root H t = tree_hash H (fleaves ds)"
proof -
  have "merkle_get_root H t = (case map_option (troot H) (bag None ds) of None \<Rightarrow> zero_hash | Some h \<Rightarrow> h)"
    using assms hbag_troot [of H None ds] by (simp add: merkle_get_root_def root_loop_digits represents_def)
  with bag_tree_hash [of ds H] assms show ?thesis
    by (simp add: represents_def split: option.splits)
qed

definition epoch :: "'a list \<Rightarrow> 'a list" where
  "epoch ls = drop (256 * (length ls div 256)) ls"

lemma length_epoch: "length (epoch ls) = length ls mod 256"
  by (simp add: epoch_def minus_mult_div_eq_mod)

lemma epoch_snoc:
  "epoch (ls @ [x]) = (if Suc (length (epoch ls)) < 256 then epoch ls @ [x] else [])"
proof (cases "Suc (length ls mod 256) < 256")
  case True
  then have "Suc (length ls) div 256 = length ls div 256" by (simp add: div_Suc mod_Suc)
  with True show ?thesis by (simp add: epoch_def length_epoch [unfolded epoch_def])
next
  case False
  then have "Suc (length ls) mod 256 = 0" using mod_less_divisor [of 256 "length ls"]
    by (simp add: mod_Suc)
  then have "256 * (Suc (length ls) div 256) = Suc (length ls)" by (simp add: dvd_mult_div_cancel dvd_eq_mod_eq_0)
  with False show ?thesis by (simp add: epoch_def minus_mult_div_eq_mod)
qed

lemma empty_forest: "fleaves (replicate n None) = []"
  by (induction n) simp_all

lemma represents_run:
  "\<exists>ds. represents H (fold (merkle_append H) ls merkle_init) ds \<and> fleaves ds = epoch ls"
proof (induction ls rule: rev_induct)
  case Nil
  have "represents H (fold (merkle_append H) [] merkle_init) (replicate 8 None)"
    using represents_init by simp
  moreover have "fleaves (replicate 8 None) = epoch ([] :: bytes list)"
    unfolding empty_forest by (simp add: epoch_def)
  ultimately show ?case by blast
next
  case (snoc x ls)
  then obtain ds where ds: "represents H (fold (merkle_append H) ls merkle_init) ds" "fleaves ds = epoch ls"
    by blast
  then have ok: "forest_ok 0 ds" "length ds = 8" by (simp_all add: represents_def)
  have "None \<in> set ds \<Longrightarrow> Suc (length (epoch ls)) < 256"
    and "None \<notin> set ds \<Longrightarrow> Suc (length (epoch ls)) = 256"
    using fleaves_not_full [OF ok(1)] fleaves_full [OF ok(1)] ok(2) ds(2) by simp_all
  then have "None \<in> set ds \<longleftrightarrow> Suc (length (epoch ls)) < 256" by linarith
  then have "fleaves (carry (Leaf x) ds) = epoch (ls @ [x])"
    by (simp add: carry_leaves epoch_snoc ds(2))
  with represents_append [OF ds(1), of x] show ?case by auto
qed


lemma merkle_root_epoch:
  "merkle_get_root H (fold (merkle_append H) ls merkle_init) = tree_hash H (epoch ls)"
  using represents_run [of H ls] represents_root by metis

lemma epoch_small: "length ls < 256 \<Longrightarrow> epoch ls = ls"
  by (simp add: epoch_def)

lemma epoch_drop_prefix:
  assumes "length ls mod 256 = 0"
  shows "epoch (ls @ ms) = epoch ms"
proof -
  obtain k where k: "length ls = 256 * k" using assms by (metis mod_eq_0_iff_dvd dvd_def)
  then have "length (ls @ ms) div 256 = k + length ms div 256" by simp
  then show ?thesis using k by (simp add: epoch_def distrib_left)
qed

section \<open>What the root commits to\<close>

text \<open>The inputs on which a tree hash calls the hash.\<close>

function tree_queries :: "hash_fun \<Rightarrow> bytes list \<Rightarrow> bytes set" where
  "tree_queries H [] = {}"
| "tree_queries H [x] = {x}"
| "tree_queries H (x # y # xs) =
     (let zs = x # y # xs; k = split_point (length zs)
      in insert (tree_hash H (take k zs) @ tree_hash H (drop k zs))
           (tree_queries H (take k zs) \<union> tree_queries H (drop k zs)))"
  by pat_completeness auto
termination
proof (relation "measure (\<lambda>(H, xs). length xs)")
  fix H :: hash_fun and x y :: bytes and xs zs k
  assume "zs = x # y # xs" "k = split_point (length zs)"
  then show "((H, take k zs), H, x # y # xs) \<in> measure (\<lambda>(H, xs). length xs)"
    and "((H, drop k zs), H, x # y # xs) \<in> measure (\<lambda>(H, xs). length xs)"
    using split_point_bounds [of "length zs"] by auto
qed simp

lemma length_tree_hash:
  assumes "\<And>b. length (H b) = 32"
  shows "length (tree_hash H xs) = 32"
  using assms by (induction H xs rule: tree_hash.induct) (simp_all add: zero_hash_def Let_def)

lemma tree_hash_binding:
  assumes "\<And>b. length (H b) = 32" and "length xs = length ys"
    and "inj_on H (tree_queries H xs \<union> tree_queries H ys)" and "tree_hash H xs = tree_hash H ys"
  shows "xs = ys"
  using assms
proof (induction H xs arbitrary: ys rule: tree_hash.induct)
  case (2 H x)
  then obtain y where "ys = [y]" by (cases ys) auto
  with "2.prems"(3,4) show ?case by (auto dest: inj_onD)
next
  case (3 H x y xs)
  obtain u v us where ys: "ys = u # v # us"
    using "3.prems"(2) by (cases ys; cases "tl ys") auto
  let ?z = "x # y # xs" and ?k = "split_point (length (x # y # xs))"
  have k: "split_point (length ys) = ?k" using "3.prems"(2) by simp
  have qx: "tree_queries H ?z = insert (tree_hash H (take ?k ?z) @ tree_hash H (drop ?k ?z))
      (tree_queries H (take ?k ?z) \<union> tree_queries H (drop ?k ?z))"
    by (simp only: tree_queries.simps Let_def)
  have qy: "tree_queries H ys = insert (tree_hash H (take ?k ys) @ tree_hash H (drop ?k ys))
      (tree_queries H (take ?k ys) \<union> tree_queries H (drop ?k ys))"
    using k by (simp only: ys tree_queries.simps Let_def)
  have "H (tree_hash H (take ?k ?z) @ tree_hash H (drop ?k ?z)) =
      H (tree_hash H (take ?k ys) @ tree_hash H (drop ?k ys))"
    using "3.prems"(4) k by (simp only: ys tree_hash.simps Let_def)
  then have "tree_hash H (take ?k ?z) @ tree_hash H (drop ?k ?z) =
      tree_hash H (take ?k ys) @ tree_hash H (drop ?k ys)"
    using "3.prems"(3) unfolding qx qy inj_on_def by blast
  then have eq: "tree_hash H (take ?k ?z) = tree_hash H (take ?k ys)"
      "tree_hash H (drop ?k ?z) = tree_hash H (drop ?k ys)"
    by (simp_all add: length_tree_hash "3.prems"(1) append_eq_append_conv)
  have "inj_on H (tree_queries H (take ?k ?z) \<union> tree_queries H (take ?k ys))"
    "inj_on H (tree_queries H (drop ?k ?z) \<union> tree_queries H (drop ?k ys))"
    using "3.prems"(3) unfolding qx qy by (auto intro: inj_on_subset)
  then have "take ?k ?z = take ?k ys" "drop ?k ?z = drop ?k ys"
    using "3.IH"(1) [OF refl refl, of "take ?k ys"] "3.IH"(2) [OF refl refl, of "drop ?k ys"]
      "3.prems"(1,2) eq by simp_all
  then show ?case using append_take_drop_id [of ?k ?z] append_take_drop_id [of ?k ys] by argo
qed simp

section \<open>Properties\<close>

text \<open>C9: the incremental frontier computes the tree hash. After any sequence of appends to a
  fresh tree the root is the recursive tree hash of the leaves added since the last multiple
  of 256, which is all of them for the first 255 leaves.\<close>

theorem merkle_root_is_tree_hash:
  "merkle_get_root H (fold (merkle_append H) ls merkle_init) =
     tree_hash H (drop (256 * (length ls div 256)) ls)"
  using merkle_root_epoch [of H ls] by (simp only: epoch_def)

text \<open>C10: the root binds the log. For two logs of the same length below 256 that differ in any
  leaf the roots differ, if the hash has no collision among the inputs that the two
  trees hash.\<close>

theorem merkle_root_binding:
  assumes "\<And>b. length (H b) = 32"
    and "length xs = length ys" and "length xs < 256" and "xs \<noteq> ys"
    and "inj_on H (tree_queries H xs \<union> tree_queries H ys)"
  shows "merkle_get_root H (fold (merkle_append H) xs merkle_init) \<noteq>
     merkle_get_root H (fold (merkle_append H) ys merkle_init)"
  using tree_hash_binding [of H xs ys] assms by (auto simp: merkle_root_epoch epoch_small)

definition tree_demo_hash :: hash_fun where
  "tree_demo_hash b = (if length b = 64 then take 31 (drop 32 b) @ [255] else take 32 (b @ replicate 32 0))"

lemma length_tree_demo_hash [simp]: "length (tree_demo_hash b) = 32"
  by (auto simp: tree_demo_hash_def)

lemma tree_queries_two:
  "tree_queries H [a, b] = {H a @ H b, a, b}"
proof -
  have "split_point (Suc (Suc 0)) = 1" by (simp add: split_point.simps)
  then show ?thesis by (auto simp: Let_def)
qed

lemma tree_demo_values:
  "tree_demo_hash [x] = x # replicate 31 0"
  "tree_demo_hash (x # replicate 31 0 @ y # replicate 31 0) = y # replicate 30 0 @ [255]"
  by (simp_all add: tree_demo_hash_def take_Cons')

lemma end_mark: "replicate 30 (0 :: u8) @ [255] \<noteq> replicate 31 0"
  by (rule notI, drule arg_cong [where f = last]) simp

lemma tree_demo_no_collision:
  "inj_on tree_demo_hash (tree_queries tree_demo_hash [[1], [2]] \<union> tree_queries tree_demo_hash [[1], [3]])"
  unfolding tree_queries_two by (auto simp: tree_demo_values end_mark)

theorem merkle_root_binding_witness:
  "merkle_get_root tree_demo_hash (fold (merkle_append tree_demo_hash) [[1], [2]] merkle_init) \<noteq>
   merkle_get_root tree_demo_hash (fold (merkle_append tree_demo_hash) [[1], [3]] merkle_init)"
  by (rule merkle_root_binding [OF _ _ _ _ tree_demo_no_collision]) simp_all

text \<open>the tree forgets. Whenever the number of leaves is a multiple of 256 everything
  appended so far leaves the root: later roots are those of a tree that never held them.\<close>

theorem merkle_forgets_at_256:
  assumes "length ls mod 256 = 0"
  shows "merkle_get_root H (fold (merkle_append H) (ls @ ms) merkle_init) =
     merkle_get_root H (fold (merkle_append H) ms merkle_init)"
  by (simp only: merkle_root_epoch epoch_drop_prefix [OF assms])

theorem merkle_forgets_at_256_witness:
  "merkle_get_root demo_hash (fold (merkle_append demo_hash) (replicate 512 [7] @ [[1]]) merkle_init) =
   merkle_get_root demo_hash (fold (merkle_append demo_hash) [[1]] merkle_init)"
  by (rule merkle_forgets_at_256) simp

text \<open>leaves and inner nodes are hashed alike, so the two-leaf log and the log whose
  only leaf is the concatenation of the two leaf digests have the same root.\<close>

theorem merkle_no_domain_separation:
  "merkle_get_root H (fold (merkle_append H) [a, b] merkle_init) =
   merkle_get_root H (fold (merkle_append H) [H a @ H b] merkle_init)"
proof -
  have "split_point (Suc (Suc 0)) = 1" by (simp add: split_point.simps)
  then have "tree_hash H [a, b] = H (H a @ H b)" by (simp add: Let_def)
  then show ?thesis by (simp only: merkle_root_epoch) (simp add: epoch_small)
qed

end
