(* ===== verification/Hash_Chain.thy ===== *)
theory Hash_Chain
  imports Gate0_Prelude
begin

text \<open>
  The contract that the three hash-chained logs of the repository share (the write-ahead log, the
  audit log and the chain of \<open>gate0_chain.c\<close>): each entry is hashed together with the digest of the
  entry before it. A log provides \<open>link\<close>, the bytes that it hashes for an entry after a digest;
  if \<open>link\<close> determines both, the last digest commits to the whole log.
\<close>

primrec chain_end :: "(bytes \<Rightarrow> 'e \<Rightarrow> bytes) \<Rightarrow> hash_fun \<Rightarrow> bytes \<Rightarrow> 'e list \<Rightarrow> bytes" where
  "chain_end link H p [] = p"
| "chain_end link H p (e # es) = chain_end link H (H (link p e)) es"

text \<open>The inputs that are hashed on the way.\<close>

primrec chain_inputs :: "(bytes \<Rightarrow> 'e \<Rightarrow> bytes) \<Rightarrow> hash_fun \<Rightarrow> bytes \<Rightarrow> 'e list \<Rightarrow> bytes set" where
  "chain_inputs link H p [] = {}"
| "chain_inputs link H p (e # es) = insert (link p e) (chain_inputs link H (H (link p e)) es)"

lemma chain_end_snoc: "chain_end link H p (es @ [e]) = H (link (chain_end link H p es) e)"
  by (induction es arbitrary: p) simp_all

lemma chain_inputs_snoc:
  "chain_inputs link H p (es @ [e]) = insert (link (chain_end link H p es) e) (chain_inputs link H p es)"
  by (induction es arbitrary: p) auto

lemma length_chain_end:
  "(\<And>b. length (H b) = n) \<Longrightarrow> length p = n \<Longrightarrow> length (chain_end link H p es) = n"
  by (induction es arbitrary: p) simp_all

locale hash_chain =
  fixes link :: "bytes \<Rightarrow> 'e \<Rightarrow> bytes" and entry_ok :: "'e \<Rightarrow> bool"
  assumes link_inject: "length p = 32 \<Longrightarrow> length q = 32 \<Longrightarrow> entry_ok e \<Longrightarrow> entry_ok f \<Longrightarrow>
      link p e = link q f \<Longrightarrow> p = q \<and> e = f"
begin

lemma chain_binding:
  assumes "\<And>b. length (H b) = 32" and "length p = 32"
    and "length es = length fs" and "\<forall>e \<in> set es \<union> set fs. entry_ok e"
    and "inj_on H (chain_inputs link H p es \<union> chain_inputs link H p fs)"
    and "chain_end link H p es = chain_end link H p fs"
  shows "es = fs"
  using assms(3-6)
proof (induction es arbitrary: fs rule: rev_induct)
  case (snoc e es)
  obtain gs g where fs: "fs = gs @ [g]" using snoc.prems(1) by (cases fs rule: rev_cases) auto
  have len: "length (chain_end link H p es) = 32" "length (chain_end link H p gs) = 32"
    using assms(1,2) by (simp_all add: length_chain_end)
  have "link (chain_end link H p es) e = link (chain_end link H p gs) g"
    using snoc.prems(3,4) unfolding fs chain_end_snoc chain_inputs_snoc by (elim inj_onD) simp_all
  then have eq: "chain_end link H p es = chain_end link H p gs \<and> e = g"
    using link_inject [OF len, of e g] snoc.prems(2) fs by simp
  have "inj_on H (chain_inputs link H p es \<union> chain_inputs link H p gs)"
    using snoc.prems(3) unfolding fs chain_inputs_snoc by (rule inj_on_subset) auto
  with snoc.IH [of gs] snoc.prems(1,2) eq fs show ?case by auto
qed simp

lemma tamper_changes_end:
  assumes "\<And>b. length (H b) = 32" and "length p = 32"
    and "length es = length fs" and "\<forall>e \<in> set es \<union> set fs. entry_ok e"
    and "inj_on H (chain_inputs link H p es \<union> chain_inputs link H p fs)" and "es \<noteq> fs"
  shows "chain_end link H p es \<noteq> chain_end link H p fs"
  using chain_binding [OF assms(1-5)] assms(6) by blast

end

text \<open>An input-distinguishing hash for the witnesses: the first byte counts modulo 256.\<close>

definition mix_hash :: hash_fun where
  "mix_hash b = replicate 32 (sum_list b)"

lemma length_mix_hash [simp]: "length (mix_hash b) = 32"
  by (simp add: mix_hash_def)

lemma mix_hash_inject: "mix_hash b = mix_hash c \<longleftrightarrow> sum_list b = sum_list c"
  by (simp add: mix_hash_def replicate_eq_replicate)

end
