(* ===== verification/Wal.thy ===== *)
theory Wal
  imports Hash_Chain
begin

text \<open>
  \<open>src/wal.c\<close>: the in-memory write-ahead log of the gate's verdicts, a ring of 65536 records
  chained by hash, and its integrity check. The hash \<open>H\<close> is \<open>crypto_hash_sha256\<close>. What is
  hashed is the first \<open>sizeof(WalRecord) - 32\<close> bytes of the record in memory, so the record has
  an object representation: 8 + 8 + 32 + 32 + 4 + 4 + 4 bytes and four bytes of padding.
\<close>

section \<open>Records and state\<close>

definition WAL_CAPACITY :: nat where "WAL_CAPACITY = 65536"

record WalRecord =
  wr_sequence :: u64
  wr_timestamp_ns :: u64
  wr_prev_hash :: bytes
  wr_entry_hash :: bytes
  wr_agent_id :: u32
  wr_action_code :: u32
  wr_result :: u32

definition wal_record_bytes :: "WalRecord \<Rightarrow> bytes" where
  "wal_record_bytes r =
     le_bytes 8 (wr_sequence r) @ le_bytes 8 (wr_timestamp_ns r) @ wr_prev_hash r @ wr_entry_hash r @
     le_bytes 4 (wr_agent_id r) @ le_bytes 4 (wr_action_code r) @ le_bytes 4 (wr_result r) @ replicate 4 0"

definition sizeof_WalRecord :: nat where "sizeof_WalRecord = 96"

record WalLog =
  g_wal_buffer :: "WalRecord list"
  g_wal_head :: u64
  g_latest_hash :: bytes
  g_wal_initialized :: bool

definition zero_wal_record :: WalRecord where
  "zero_wal_record = \<lparr>wr_sequence = 0, wr_timestamp_ns = 0, wr_prev_hash = replicate 32 0,
     wr_entry_hash = replicate 32 0, wr_agent_id = 0, wr_action_code = 0, wr_result = 0\<rparr>"

definition wal_init :: WalLog where
  "wal_init = \<lparr>g_wal_buffer = replicate 65536 zero_wal_record, g_wal_head = 0,
     g_latest_hash = replicate 32 0, g_wal_initialized = True\<rparr>"

text \<open>The bytes that both operations hash.\<close>

definition wal_hashed_bytes :: "WalRecord \<Rightarrow> bytes" where
  "wal_hashed_bytes r = take (sizeof_WalRecord - 32) (wal_record_bytes r)"

definition wal_append :: "hash_fun \<Rightarrow> u32 \<Rightarrow> u32 \<Rightarrow> u32 \<Rightarrow> u64 \<Rightarrow> WalLog \<Rightarrow> WalLog" where
  "wal_append H agent_id action_code result timestamp_ns w =
     (let w = (if \<not> g_wal_initialized w then wal_init else w);
          idx = unat (g_wal_head w mod 65536);
          rec = (g_wal_buffer w ! idx)\<lparr>wr_sequence := g_wal_head w, wr_timestamp_ns := timestamp_ns,
                  wr_agent_id := agent_id, wr_action_code := action_code, wr_result := result,
                  wr_prev_hash := g_latest_hash w\<rparr>;
          rec = rec\<lparr>wr_entry_hash := H (wal_hashed_bytes rec)\<rparr>
      in w\<lparr>g_wal_buffer := (g_wal_buffer w)[idx := rec],
           g_latest_hash := wr_entry_hash rec,
           g_wal_head := g_wal_head w + 1\<rparr>)"

primrec wal_verify_loop :: "hash_fun \<Rightarrow> bytes \<Rightarrow> WalRecord list \<Rightarrow> bool" where
  "wal_verify_loop H expected_prev [] = True"
| "wal_verify_loop H expected_prev (rec # recs) =
     (if wr_prev_hash rec \<noteq> expected_prev then False
      else if wr_entry_hash rec \<noteq> H (wal_hashed_bytes rec) then False
      else wal_verify_loop H (wr_entry_hash rec) recs)"

definition wal_verify_integrity :: "hash_fun \<Rightarrow> WalLog \<Rightarrow> bool" where
  "wal_verify_integrity H w =
     (if g_wal_head w = 0 then True
      else let count = (if g_wal_head w < 65536 then g_wal_head w else 65536)
           in wal_verify_loop H (replicate 32 0) (take (unat count) (g_wal_buffer w)))"

text \<open>A history of calls: agent, action, result, timestamp.\<close>

type_synonym wal_event = "u32 \<times> u32 \<times> u32 \<times> u64"

definition wal_log :: "hash_fun \<Rightarrow> wal_event \<Rightarrow> WalLog \<Rightarrow> WalLog" where
  "wal_log H e w = (case e of (a, c, r, t) \<Rightarrow> wal_append H a c r t w)"

definition wal_run :: "hash_fun \<Rightarrow> wal_event list \<Rightarrow> WalLog" where
  "wal_run H es = fold (wal_log H) es wal_init"

lemma wal_run_snoc: "wal_run H (es @ [e]) = wal_log H e (wal_run H es)"
  by (simp add: wal_run_def)

section \<open>Layout\<close>

definition wf_wal_record :: "WalRecord \<Rightarrow> bool" where
  "wf_wal_record r \<longleftrightarrow> length (wr_prev_hash r) = 32 \<and> length (wr_entry_hash r) = 32"

lemma length_wal_record_bytes [byte_len]: "wf_wal_record r \<Longrightarrow> length (wal_record_bytes r) = sizeof_WalRecord"
  by (simp add: wal_record_bytes_def wf_wal_record_def sizeof_WalRecord_def)

text \<open>The hashed prefix ends sixteen bytes into the record's own hash field.\<close>

lemma wal_hashed_bytes_eq:
  "wf_wal_record r \<Longrightarrow> wal_hashed_bytes r =
     le_bytes 8 (wr_sequence r) @ le_bytes 8 (wr_timestamp_ns r) @ wr_prev_hash r @ take 16 (wr_entry_hash r)"
  by (simp add: wal_hashed_bytes_def wal_record_bytes_def wf_wal_record_def sizeof_WalRecord_def)

lemma wal_hashed_bytes_payload [simp]:
  "wf_wal_record r \<Longrightarrow>
     wal_hashed_bytes (r\<lparr>wr_agent_id := a, wr_action_code := c, wr_result := x\<rparr>) = wal_hashed_bytes r"
  by (simp add: wal_hashed_bytes_eq wf_wal_record_def)

section \<open>The shape of a run\<close>

definition wal_ok :: "WalLog \<Rightarrow> bool" where
  "wal_ok w \<longleftrightarrow> g_wal_initialized w \<and> length (g_wal_buffer w) = 65536 \<and> length (g_latest_hash w) = 32 \<and>
     (\<forall>r \<in> set (g_wal_buffer w). wf_wal_record r)"

lemma wal_ok_init: "wal_ok wal_init"
  by (simp add: wal_ok_def wal_init_def wf_wal_record_def zero_wal_record_def)

lemma wal_index_bound: "unat (h mod 65536 :: u64) < 65536"
  by (simp add: unat_mod)

lemma wal_ok_log:
  assumes "\<And>b. length (H b) = 32" and "wal_ok w"
  shows "wal_ok (wal_log H e w)"
proof (cases e)
  case (fields a c r t)
  have "wf_wal_record (g_wal_buffer w ! unat (g_wal_head w mod 65536))"
    using assms(2) wal_index_bound [of "g_wal_head w"] by (simp add: wal_ok_def)
  with assms fields show ?thesis
    by (auto simp: wal_log_def wal_append_def wal_ok_def Let_def wf_wal_record_def
        dest!: set_update_subset_insert [THEN subsetD])
qed

lemma wal_ok_run: "(\<And>b. length (H b) = 32) \<Longrightarrow> wal_ok (wal_run H es)"
  by (induction es rule: rev_induct) (simp_all add: wal_run_def wal_ok_init wal_ok_log)

lemma wal_head_log: "wal_ok w \<Longrightarrow> g_wal_head (wal_log H e w) = g_wal_head w + 1"
  by (cases e) (simp add: wal_log_def wal_append_def wal_ok_def Let_def)

lemma wal_head_run: "(\<And>b. length (H b) = 32) \<Longrightarrow> g_wal_head (wal_run H es) = of_nat (length es)"
proof (induction es rule: rev_induct)
  case Nil
  show ?case by (simp add: wal_run_def wal_init_def)
next
  case (snoc e es)
  then show ?case by (simp add: wal_run_snoc wal_head_log wal_ok_run)
qed


section \<open>The specification of a log within capacity\<close>

text \<open>The record of the \<open>n\<close>-th event: the stale hash bytes in a fresh slot are zero.\<close>

definition wal_record_of :: "hash_fun \<Rightarrow> bytes \<Rightarrow> nat \<Rightarrow> wal_event \<Rightarrow> WalRecord" where
  "wal_record_of H prev n e = (case e of (a, c, r, t) \<Rightarrow>
     \<lparr>wr_sequence = of_nat n, wr_timestamp_ns = t, wr_prev_hash = prev,
      wr_entry_hash = H (le_bytes 8 (of_nat n :: u64) @ le_bytes 8 t @ prev @ replicate 16 0),
      wr_agent_id = a, wr_action_code = c, wr_result = r\<rparr>)"

primrec wal_chain :: "hash_fun \<Rightarrow> bytes \<Rightarrow> nat \<Rightarrow> wal_event list \<Rightarrow> WalRecord list" where
  "wal_chain H prev n [] = []"
| "wal_chain H prev n (e # es) =
     (let r = wal_record_of H prev n e in r # wal_chain H (wr_entry_hash r) (Suc n) es)"

primrec wal_chain_end :: "hash_fun \<Rightarrow> bytes \<Rightarrow> nat \<Rightarrow> wal_event list \<Rightarrow> bytes" where
  "wal_chain_end H prev n [] = prev"
| "wal_chain_end H prev n (e # es) =
     wal_chain_end H (wr_entry_hash (wal_record_of H prev n e)) (Suc n) es"

lemma length_wal_chain [simp]: "length (wal_chain H prev n es) = length es"
  by (induction es arbitrary: prev n) (simp_all add: Let_def)

lemma wal_chain_snoc:
  "wal_chain H prev n (es @ [e]) =
     wal_chain H prev n es @ [wal_record_of H (wal_chain_end H prev n es) (n + length es) e]"
  "wal_chain_end H prev n (es @ [e]) =
     wr_entry_hash (wal_record_of H (wal_chain_end H prev n es) (n + length es) e)"
  by (induction es arbitrary: prev n) (simp_all add: Let_def)

lemma wal_log_fresh_slot:
  assumes "wal_ok w" and "g_wal_head w = of_nat n" and "n < 65536" and "g_wal_buffer w ! n = zero_wal_record"
  shows "g_wal_buffer (wal_log H e w) = (g_wal_buffer w)[n := wal_record_of H (g_latest_hash w) n e]"
    and "g_latest_hash (wal_log H e w) = wr_entry_hash (wal_record_of H (g_latest_hash w) n e)"
proof -
  obtain a c r t where e: "e = (a, c, r, t)" by (cases e)
  have n: "unat (of_nat n :: u64) = n" using assms(3) by (simp add: unsigned_of_nat take_bit_nat_eq_self_iff)
  then have idx: "unat (of_nat n mod 65536 :: u64) = n" using assms(3) by (simp add: unat_mod)
  have wf: "length (g_latest_hash w) = 32" and init: "g_wal_initialized w"
    using assms(1) by (simp_all add: wal_ok_def)
  show "g_wal_buffer (wal_log H e w) = (g_wal_buffer w)[n := wal_record_of H (g_latest_hash w) n e]"
    and "g_latest_hash (wal_log H e w) = wr_entry_hash (wal_record_of H (g_latest_hash w) n e)"
    using wf init assms(2,4)
    by (simp_all add: e wal_log_def wal_append_def Let_def idx zero_wal_record_def wal_record_of_def
        wal_hashed_bytes_eq wf_wal_record_def)
qed

lemma wal_run_fresh:
  assumes "\<And>b. length (H b) = 32" and "length es \<le> 65536"
  shows "g_wal_buffer (wal_run H es) =
      wal_chain H (replicate 32 0) 0 es @ replicate (65536 - length es) zero_wal_record \<and>
    g_latest_hash (wal_run H es) = wal_chain_end H (replicate 32 0) 0 es"
  using assms(2)
proof (induction es rule: rev_induct)
  case Nil
  show ?case by (simp add: wal_run_def wal_init_def)
next
  case (snoc e es)
  let ?w = "wal_run H es" and ?n = "length es"
  have IH: "g_wal_buffer ?w = wal_chain H (replicate 32 0) 0 es @ replicate (65536 - ?n) zero_wal_record"
    "g_latest_hash ?w = wal_chain_end H (replicate 32 0) 0 es" using snoc by simp_all
  have "g_wal_head ?w = of_nat ?n" and n: "?n < 65536"
    using wal_head_run [of H es] assms(1) snoc.prems by simp_all
  moreover have "g_wal_buffer ?w ! ?n = zero_wal_record" using n IH by (simp add: nth_append)
  ultimately have step:
    "g_wal_buffer (wal_log H e ?w) = (g_wal_buffer ?w)[?n := wal_record_of H (g_latest_hash ?w) ?n e]"
    "g_latest_hash (wal_log H e ?w) = wr_entry_hash (wal_record_of H (g_latest_hash ?w) ?n e)"
    using wal_log_fresh_slot [OF wal_ok_run [of H es]] assms(1) by blast+
  have "replicate (65536 - ?n) zero_wal_record = zero_wal_record # replicate (65535 - ?n) zero_wal_record"
    using n by (simp flip: replicate_Suc add: Suc_diff_le)
  then show ?case using step IH by (simp add: wal_run_snoc wal_chain_snoc list_update_append)
qed

text \<open>What the check accepts, written over positions.\<close>

lemma wal_verify_loop_iff:
  "wal_verify_loop H prev rs \<longleftrightarrow>
     (\<forall>i < length rs. wr_prev_hash (rs ! i) = (if i = 0 then prev else wr_entry_hash (rs ! (i - 1))) \<and>
        wr_entry_hash (rs ! i) = H (wal_hashed_bytes (rs ! i)))"
proof (induction rs arbitrary: prev)
  case (Cons r rs)
  have split: "(\<forall>i < length (r # rs). P i) \<longleftrightarrow> P 0 \<and> (\<forall>i < length rs. P (Suc i))" for P
    by (auto simp: less_Suc_eq_0_disj)
  show ?case unfolding split by (auto simp: Cons.IH nth_Cons' split: if_splits)
qed simp


text \<open>The log as a hash chain over sequence numbers and timestamps.\<close>

definition wal_link :: "bytes \<Rightarrow> nat \<times> u64 \<Rightarrow> bytes" where
  "wal_link prev e = (case e of (n, t) \<Rightarrow> le_bytes 8 (of_nat n :: u64) @ le_bytes 8 t @ prev @ replicate 16 0)"

lemma wal_link_inject:
  assumes "length p = 32" and "length q = 32" and "fst e < 2 ^ 64" and "fst f < 2 ^ 64"
    and "wal_link p e = wal_link q f"
  shows "p = q \<and> e = f"
proof -
  obtain n t m u where e: "e = (n, t)" "f = (m, u)" by (cases e; cases f)
  with assms have "(of_nat n :: u64) = of_nat m" "t = u" "p = q"
    by (simp_all add: wal_link_def le_bytes_inject)
  with assms e show ?thesis by (simp add: of_nat_u64_inject)
qed

interpretation wal_hash: hash_chain wal_link "\<lambda>e. fst e < 2 ^ 64"
  by unfold_locales (rule wal_link_inject)

definition wal_times :: "nat \<Rightarrow> wal_event list \<Rightarrow> (nat \<times> u64) list" where
  "wal_times n es = zip [n..<n + length es] (map (snd \<circ> snd \<circ> snd) es)"

lemma wal_chain_end_link: "wal_chain_end H p n es = chain_end wal_link H p (wal_times n es)"
proof (induction es arbitrary: p n)
  case (Cons e es)
  obtain a c r t where e: "e = (a, c, r, t)" by (cases e)
  have "wal_times n (e # es) = (n, t) # wal_times (Suc n) es"
    by (simp add: e wal_times_def upt_conv_Cons del: upt_Suc)
  then show ?case using Cons.IH by (simp add: e wal_record_of_def wal_link_def)
qed (simp add: wal_times_def)

section \<open>What the hashes do not cover\<close>

text \<open>Two logs that differ only in agents, actions and results.\<close>

definition wal_skeleton :: "WalRecord \<Rightarrow> WalRecord" where
  "wal_skeleton r = r\<lparr>wr_agent_id := 0, wr_action_code := 0, wr_result := 0\<rparr>"

definition wal_same :: "WalLog \<Rightarrow> WalLog \<Rightarrow> bool" where
  "wal_same v w \<longleftrightarrow> map wal_skeleton (g_wal_buffer v) = map wal_skeleton (g_wal_buffer w) \<and>
     g_wal_head v = g_wal_head w \<and> g_latest_hash v = g_latest_hash w"

lemma wal_skeleton_fields:
  "wal_skeleton r = wal_skeleton s \<longleftrightarrow> wr_sequence r = wr_sequence s \<and>
     wr_timestamp_ns r = wr_timestamp_ns s \<and> wr_prev_hash r = wr_prev_hash s \<and> wr_entry_hash r = wr_entry_hash s"
  by (cases r; cases s) (simp add: wal_skeleton_def)

lemma wal_hashed_bytes_skeleton:
  "wf_wal_record r \<Longrightarrow> wf_wal_record s \<Longrightarrow> wal_skeleton r = wal_skeleton s \<Longrightarrow>
     wal_hashed_bytes r = wal_hashed_bytes s"
  by (simp add: wal_skeleton_fields wal_hashed_bytes_eq)

lemma wal_verify_loop_skeleton:
  "map wal_skeleton rs = map wal_skeleton ss \<Longrightarrow> \<forall>r \<in> set rs \<union> set ss. wf_wal_record r \<Longrightarrow>
     wal_verify_loop H prev rs = wal_verify_loop H prev ss"
proof (induction rs arbitrary: prev ss)
  case (Cons r rs)
  then obtain s ss' where ss: "ss = s # ss'" by (cases ss) auto
  with Cons.prems have "wal_skeleton r = wal_skeleton s" "wal_hashed_bytes r = wal_hashed_bytes s"
    using wal_hashed_bytes_skeleton [of r s] by auto
  with Cons ss show ?case by (auto simp: wal_skeleton_fields)
qed simp

lemma wal_verify_same:
  assumes "wal_ok v" and "wal_ok w" and "wal_same v w"
  shows "wal_verify_integrity H v = wal_verify_integrity H w"
proof -
  have "wal_verify_loop H prev (take n (g_wal_buffer v)) = wal_verify_loop H prev (take n (g_wal_buffer w))"
    for prev n
    using assms by (intro wal_verify_loop_skeleton)
      (auto simp: wal_same_def wal_ok_def simp flip: take_map dest: in_set_takeD)
  with assms(3) show ?thesis by (simp add: wal_verify_integrity_def wal_same_def Let_def)
qed

lemma wal_same_log:
  assumes "wal_ok v" and "wal_ok w" and "wal_same v w"
  shows "wal_same (wal_log H (a, c, r, t) v) (wal_log H (a', c', r', t) w)"
proof -
  let ?i = "unat (g_wal_head w mod 65536)"
  have i: "?i < 65536" by (rule wal_index_bound)
  have len: "length (g_wal_buffer v) = 65536" "length (g_wal_buffer w) = 65536"
    using assms by (simp_all add: wal_ok_def)
  have "map wal_skeleton (g_wal_buffer v) ! ?i = map wal_skeleton (g_wal_buffer w) ! ?i"
    using assms(3) by (simp add: wal_same_def)
  with i len have sk: "wal_skeleton (g_wal_buffer v ! ?i) = wal_skeleton (g_wal_buffer w ! ?i)" by simp
  have wf: "wf_wal_record (g_wal_buffer v ! ?i)" "wf_wal_record (g_wal_buffer w ! ?i)"
    using assms(1,2) i len by (auto simp: wal_ok_def)
  show ?thesis
    using assms sk wf
    by (auto simp: wal_log_def wal_append_def Let_def wal_same_def wal_ok_def wal_skeleton_fields
        map_update wal_hashed_bytes_eq wf_wal_record_def
        intro!: arg_cong [where f = "list_update (map wal_skeleton (g_wal_buffer w)) ?i"])
qed


lemma wal_same_run:
  assumes "\<And>b. length (H b) = 32" and "map (snd \<circ> snd \<circ> snd) es = map (snd \<circ> snd \<circ> snd) es'"
  shows "wal_same (wal_run H es) (wal_run H es')"
  using assms(2)
proof (induction es arbitrary: es' rule: rev_induct)
  case Nil
  then show ?case by (simp add: wal_same_def)
next
  case (snoc e es)
  then obtain d ds where es': "es' = ds @ [d]" by (cases es' rule: rev_cases) auto
  with snoc have "wal_same (wal_run H es) (wal_run H ds)" by simp
  moreover obtain a c r t where e: "e = (a, c, r, t)" by (cases e)
  moreover obtain a' c' r' where d: "d = (a', c', r', t)" using snoc.prems e es' by (cases d) auto
  ultimately show ?case
    using wal_same_log [OF wal_ok_run [of H es] wal_ok_run [of H ds]] assms(1) es'
    by (simp add: wal_run_snoc)
qed

section \<open>After the ring has wrapped\<close>

lemma wal_log_slots:
  assumes "wal_ok w" and "j < 65536"
  shows "wr_prev_hash (g_wal_buffer (wal_log H e w) ! j) =
      (if j = unat (g_wal_head w mod 65536) then g_latest_hash w else wr_prev_hash (g_wal_buffer w ! j))"
    and "g_latest_hash (wal_log H e w) \<in> range H"
  using assms wal_index_bound [of "g_wal_head w"]
  by (cases e; simp add: wal_log_def wal_append_def wal_ok_def Let_def nth_list_update)+

lemma wal_wrapped_prev:
  assumes "\<And>b. length (H b) = 32"
  shows "(es \<noteq> [] \<longrightarrow> g_latest_hash (wal_run H es) \<in> range H) \<and>
     (65536 < length es \<longrightarrow> wr_prev_hash (g_wal_buffer (wal_run H es) ! 0) \<in> range H)"
proof (induction es rule: rev_induct)
  case (snoc e es)
  have ok: "wal_ok (wal_run H es)" using assms by (rule wal_ok_run)
  have "unat (g_wal_head (wal_run H es) mod 65536) = length es mod 65536"
    using wal_head_run [of H es] assms
    by (simp add: unat_mod unsigned_of_nat take_bit_eq_mod mod_mod_cancel)
  then show ?case
    using snoc wal_log_slots [OF ok, of 0 H e] by (auto simp: wal_run_snoc not_less_eq less_Suc_eq)
qed simp

lemma wal_verify_first:
  assumes "\<And>b. length (H b) = 32" and "es \<noteq> []" and "length es < 2 ^ 64"
    and "wal_verify_integrity H (wal_run H es)"
  shows "wr_prev_hash (g_wal_buffer (wal_run H es) ! 0) = replicate 32 0"
    and "wr_entry_hash (g_wal_buffer (wal_run H es) ! 0) = H (wal_hashed_bytes (g_wal_buffer (wal_run H es) ! 0))"
proof -
  let ?w = "wal_run H es"
  let ?n = "unat (if g_wal_head ?w < 65536 then g_wal_head ?w else 65536)"
  have "unat (g_wal_head ?w) = length es"
    using wal_head_run [of H es] assms(1,3) by (simp add: unsigned_of_nat take_bit_nat_eq_self_iff)
  then have head: "g_wal_head ?w \<noteq> 0" using assms(2) by auto
  moreover have "length (g_wal_buffer ?w) = 65536" using wal_ok_run [of H es] assms(1) by (simp add: wal_ok_def)
  moreover from head have "0 < ?n" by (simp add: unat_gt_0)
  ultimately show "wr_prev_hash (g_wal_buffer ?w ! 0) = replicate 32 0"
    and "wr_entry_hash (g_wal_buffer ?w ! 0) = H (wal_hashed_bytes (g_wal_buffer ?w ! 0))"
    using assms(4) by (auto simp: wal_verify_integrity_def Let_def wal_verify_loop_iff dest!: spec [of _ 0])
qed


lemma wal_verify_run_iff:
  assumes "\<And>b. length (H b) = 32" and "length es < 2 ^ 64"
  shows "wal_verify_integrity H (wal_run H es) \<longleftrightarrow>
     wal_verify_loop H (replicate 32 0) (take (min (length es) 65536) (g_wal_buffer (wal_run H es)))"
proof -
  have u: "unat (g_wal_head (wal_run H es)) = length es"
    using wal_head_run [of H es] assms by (simp add: unsigned_of_nat take_bit_nat_eq_self_iff)
  then have "g_wal_head (wal_run H es) = 0 \<longleftrightarrow> es = []" by (simp flip: unat_eq_0)
  moreover have "g_wal_head (wal_run H es) < 65536 \<longleftrightarrow> length es < 65536"
    using u by (simp add: word_less_nat_alt)
  ultimately show ?thesis using u by (simp add: wal_verify_integrity_def Let_def min_def)
qed

section \<open>Properties\<close>

text \<open>The two hashes that make the check fail on any log: of a first record with a clean slot,
  and of the same record once its own hash has been stored.\<close>

definition wal_first_prefix :: "u64 \<Rightarrow> bytes" where
  "wal_first_prefix t = le_bytes 8 (0 :: u64) @ le_bytes 8 t @ replicate 32 0"

lemma wal_first_record:
  assumes "\<And>b. length (H b) = 32" and "es \<noteq> []" and "length es \<le> 65536"
  shows "g_wal_buffer (wal_run H es) ! 0 = wal_record_of H (replicate 32 0) 0 (hd es)"
proof -
  obtain e ds where "es = e # ds" using assms(2) by (cases es) auto
  then show ?thesis using wal_run_fresh [of H es] assms by (simp add: Let_def)
qed

text \<open>C13: within the capacity the ring holds exactly the chain of the events: record \<open>i\<close>
  carries sequence number \<open>i\<close>, the arguments of the \<open>i\<close>-th call and the hash of record \<open>i - 1\<close>,
  the other slots are untouched and the latest hash is the end of the chain.\<close>

theorem wal_run_is_chain:
  assumes "\<And>b. length (H b) = 32" and "length es \<le> 65536"
  shows "g_wal_buffer (wal_run H es) =
      wal_chain H (replicate 32 0) 0 es @ replicate (65536 - length es) zero_wal_record \<and>
    g_latest_hash (wal_run H es) = wal_chain_end H (replicate 32 0) 0 es \<and>
    g_wal_head (wal_run H es) = of_nat (length es)"
  using wal_run_fresh [of H es] wal_head_run [of H es] assms by simp

theorem wal_run_is_chain_witness:
  "g_latest_hash (wal_run demo_hash [(1, 2, 0, 9), (1, 3, 0, 10)]) =
     wal_chain_end demo_hash (replicate 32 0) 0 [(1, 2, 0, 9), (1, 3, 0, 10)]"
  using wal_run_is_chain [of demo_hash "[(1, 2, 0, 9), (1, 3, 0, 10)]"] by simp

text \<open>the log does not protect what it records. Two histories with the same timestamps but any
  other agents, actions and results end in the same latest hash and get the same verdict
  from the integrity check: the hashed bytes stop before those fields.\<close>

theorem wal_content_unprotected:
  assumes "\<And>b. length (H b) = 32" and "map (\<lambda>(a, c, r, t). t) es = map (\<lambda>(a, c, r, t). t) es'"
  shows "g_latest_hash (wal_run H es) = g_latest_hash (wal_run H es') \<and>
     wal_verify_integrity H (wal_run H es) = wal_verify_integrity H (wal_run H es')"
proof -
  have "(\<lambda>(a, c, r, t). t) = (snd \<circ> snd \<circ> snd :: wal_event \<Rightarrow> u64)" by auto
  then have "wal_same (wal_run H es) (wal_run H es')" using assms by (simp add: wal_same_run)
  then show ?thesis using wal_verify_same [OF wal_ok_run wal_ok_run] assms(1) by (simp add: wal_same_def)
qed

theorem wal_content_unprotected_witness:
  "g_latest_hash (wal_run demo_hash [(1, 7, 0, 9)]) = g_latest_hash (wal_run demo_hash [(66, 8, 5, 9)])"
  using wal_content_unprotected [of demo_hash "[(1, 7, 0, 9)]" "[(66, 8, 5, 9)]"] by simp

text \<open>C14: the integrity check rejects the log the code itself writes. \<open>wal_append\<close> hashes the first
  half of the record's hash field before it stores the hash there and \<open>wal_verify_integrity\<close>
  hashes it afterwards, so from the first append on the check fails, unless the hash
  takes the same value on those two inputs.\<close>

theorem wal_own_log_rejected:
  assumes "\<And>b. length (H b) = 32" and "es \<noteq> []" and "length es \<le> 65536"
    and "H (wal_first_prefix (snd (snd (snd (hd es)))) @
           take 16 (H (wal_first_prefix (snd (snd (snd (hd es)))) @ replicate 16 0))) \<noteq>
         H (wal_first_prefix (snd (snd (snd (hd es)))) @ replicate 16 0)"
  shows "\<not> wal_verify_integrity H (wal_run H es)"
proof
  assume v: "wal_verify_integrity H (wal_run H es)"
  have "wr_entry_hash (g_wal_buffer (wal_run H es) ! 0) = H (wal_hashed_bytes (g_wal_buffer (wal_run H es) ! 0))"
    using v assms(1-3) by (intro wal_verify_first(2)) simp_all
  then show False
    using assms(1,4) unfolding wal_first_record [of H, OF assms(1-3)]
    by (cases "hd es") (simp add: wal_record_of_def wal_hashed_bytes_eq wf_wal_record_def wal_first_prefix_def)
qed

theorem wal_own_log_rejected_witness:
  "\<not> wal_verify_integrity (\<lambda>b. replicate 32 (b ! 48 + 1)) (wal_run (\<lambda>b. replicate 32 (b ! 48 + 1)) [(1, 7, 0, 5)])"
  by (rule wal_own_log_rejected) (simp_all add: wal_first_prefix_def nth_append replicate_eq_replicate)

text \<open>once the ring has wrapped the check rejects every log, whatever bytes are hashed: it starts
  at slot 0 and expects a zero previous hash there, while the slot holds a later record.\<close>

theorem wal_wrapped_log_rejected:
  assumes "\<And>b. length (H b) = 32" and "\<And>b. H b \<noteq> replicate 32 0"
    and "65536 < length es" and "length es < 2 ^ 64"
  shows "\<not> wal_verify_integrity H (wal_run H es)"
proof
  assume v: "wal_verify_integrity H (wal_run H es)"
  have "es \<noteq> []" using assms(3) by auto
  then have "wr_prev_hash (g_wal_buffer (wal_run H es) ! 0) = replicate 32 0"
    using v assms(1,4) by (intro wal_verify_first(1))
  moreover have "wr_prev_hash (g_wal_buffer (wal_run H es) ! 0) \<in> range H"
    using wal_wrapped_prev [of H es] assms(1,3) by blast
  ultimately show False using assms(2) by (metis rangeE)
qed

theorem wal_wrapped_log_rejected_witness:
  "\<not> wal_verify_integrity (\<lambda>b. replicate 32 1) (wal_run (\<lambda>b. replicate 32 1) (replicate 65537 (0, 0, 0, 0)))"
  by (rule wal_wrapped_log_rejected) (simp_all add: replicate_eq_replicate)


text \<open>what the latest hash does commit to is the time line: two logs of the same length within
  the capacity whose timestamps differ anywhere have different latest hashes, if the hash has no
  collision among the inputs of the two chains.\<close>

theorem wal_latest_hash_binds_times:
  assumes "\<And>b. length (H b) = 32" and "length es = length fs" and "length es \<le> 65536"
    and "map (\<lambda>(a, c, r, t). t) es \<noteq> map (\<lambda>(a, c, r, t). t) fs"
    and "inj_on H (chain_inputs wal_link H (replicate 32 0) (wal_times 0 es) \<union>
           chain_inputs wal_link H (replicate 32 0) (wal_times 0 fs))"
  shows "g_latest_hash (wal_run H es) \<noteq> g_latest_hash (wal_run H fs)"
proof -
  have snds: "(\<lambda>(a, c, r, t). t) = (snd \<circ> snd \<circ> snd :: wal_event \<Rightarrow> u64)" by auto
  have "map snd (wal_times 0 gs) = map (\<lambda>(a, c, r, t). t) gs" for gs
    by (simp add: wal_times_def snds)
  then have "wal_times 0 es \<noteq> wal_times 0 fs" using assms(4) by metis
  moreover have "\<forall>e \<in> set (wal_times 0 es) \<union> set (wal_times 0 fs). fst e < 2 ^ 64"
    using assms(2,3) by (auto simp: wal_times_def dest!: set_zip_leftD)
  moreover have "length (wal_times 0 es) = length (wal_times 0 fs)" using assms(2) by (simp add: wal_times_def)
  ultimately have "chain_end wal_link H (replicate 32 0) (wal_times 0 es) \<noteq>
      chain_end wal_link H (replicate 32 0) (wal_times 0 fs)"
    using assms(1,5) by (intro wal_hash.tamper_changes_end) simp_all
  moreover have "g_latest_hash (wal_run H gs) = chain_end wal_link H (replicate 32 0) (wal_times 0 gs)"
    if "length gs \<le> 65536" for gs
    using wal_run_fresh [of H gs, OF assms(1) that, THEN conjunct2] by (simp only: wal_chain_end_link)
  ultimately show ?thesis using assms(2,3) by simp
qed

lemma wal_demo_times: "wal_times 0 [(1, 7, 0, t)] = [(0, t)]"
  by (simp add: wal_times_def)

lemma wal_demo_sums:
  "sum_list (le_bytes 8 (0 :: u64)) = 0" "sum_list (le_bytes 8 (9 :: u64)) = 9" "sum_list (le_bytes 8 (10 :: u64)) = 10"
  by code_simp+

theorem wal_latest_hash_binds_times_witness:
  "g_latest_hash (wal_run mix_hash [(1, 7, 0, 9)]) \<noteq> g_latest_hash (wal_run mix_hash [(1, 7, 0, 10)])"
  by (rule wal_latest_hash_binds_times)
    (auto simp: mix_hash_inject wal_link_def wal_demo_times wal_demo_sums sum_list_replicate)

end
