(* ===== verification/Audit_Log.thy ===== *)
theory Audit_Log
  imports Hash_Chain
begin

text \<open>
  \<open>src/audit_log.c\<close>: one 96-byte record per decision, appended to a file and chained by hash. The
  file system is the environment of a call: whether \<open>open\<close> succeeds and how many bytes \<open>write\<close>
  puts at the end of the file. \<open>crypto_hash_sha256\<close> reads its input before it writes the digest (its
  output field overlaps the last four hashed bytes), so those bytes are the zeros of \<open>memset\<close>.
\<close>

section \<open>Records and state\<close>

record AuditRecord =
  ar_timestamp_ns :: u64
  ar_command_id :: u32
  ar_node_id :: u32
  ar_sequence :: u64
  ar_command_type :: u8
  ar_decision_code :: u16
  ar_previous_hash :: bytes
  ar_event_hash :: bytes

text \<open>Object representation: a padding byte before \<open>decision_code\<close>, four at the end.\<close>

definition audit_record_bytes :: "AuditRecord \<Rightarrow> bytes" where
  "audit_record_bytes r =
     le_bytes 8 (ar_timestamp_ns r) @ le_bytes 4 (ar_command_id r) @ le_bytes 4 (ar_node_id r) @
     le_bytes 8 (ar_sequence r) @ le_bytes 1 (ar_command_type r) @ replicate 1 0 @
     le_bytes 2 (ar_decision_code r) @ ar_previous_hash r @ ar_event_hash r @ replicate 4 0"

definition sizeof_AuditRecord :: nat where "sizeof_AuditRecord = 96"

record AuditLog =
  audit_last_hash :: bytes
  audit_initialized :: bool

definition audit_start :: AuditLog where
  "audit_start = \<lparr>audit_last_hash = replicate 32 0, audit_initialized = False\<rparr>"

record AuditEvent =
  ae_cmd_id :: u32
  ae_node_id :: u32
  ae_seq :: u64
  ae_cmd_type :: u8
  ae_decision :: u16
  ae_timestamp_ns :: u64

text \<open>The record before it is hashed; the environment \<open>(opened, n)\<close>; the state and the file.\<close>

definition audit_fill :: "AuditEvent \<Rightarrow> bytes \<Rightarrow> AuditRecord" where
  "audit_fill e prev = \<lparr>ar_timestamp_ns = ae_timestamp_ns e, ar_command_id = ae_cmd_id e,
     ar_node_id = ae_node_id e, ar_sequence = ae_seq e, ar_command_type = ae_cmd_type e,
     ar_decision_code = ae_decision e, ar_previous_hash = prev, ar_event_hash = replicate 32 0\<rparr>"

definition audit_log_event ::
  "hash_fun \<Rightarrow> bool \<times> nat \<Rightarrow> AuditEvent \<Rightarrow> AuditLog \<times> bytes \<Rightarrow> AuditLog \<times> bytes" where
  "audit_log_event H env e st =
     (case (env, st) of ((opened, written), (log, disk)) \<Rightarrow>
        if \<not> opened then (log, disk)
        else let prev = (if \<not> audit_initialized log then replicate 32 0 else audit_last_hash log);
                 rec = audit_fill e prev;
                 rec = rec\<lparr>ar_event_hash := H (take (sizeof_AuditRecord - 32) (audit_record_bytes rec))\<rparr>
             in (\<lparr>audit_last_hash = ar_event_hash rec, audit_initialized = True\<rparr>,
                 disk @ take written (audit_record_bytes rec)))"

section \<open>The chain\<close>

text \<open>What is hashed for an event.\<close>

definition audit_link :: "bytes \<Rightarrow> AuditEvent \<Rightarrow> bytes" where
  "audit_link prev e =
     le_bytes 8 (ae_timestamp_ns e) @ le_bytes 4 (ae_cmd_id e) @ le_bytes 4 (ae_node_id e) @
     le_bytes 8 (ae_seq e) @ le_bytes 1 (ae_cmd_type e) @ replicate 1 0 @
     le_bytes 2 (ae_decision e) @ prev @ replicate 4 0"

definition audit_record :: "hash_fun \<Rightarrow> bytes \<Rightarrow> AuditEvent \<Rightarrow> AuditRecord" where
  "audit_record H prev e = (audit_fill e prev)\<lparr>ar_event_hash := H (audit_link prev e)\<rparr>"

primrec audit_records :: "hash_fun \<Rightarrow> bytes \<Rightarrow> AuditEvent list \<Rightarrow> AuditRecord list" where
  "audit_records H prev [] = []"
| "audit_records H prev (e # es) =
     audit_record H prev e # audit_records H (H (audit_link prev e)) es"

lemma audit_hashed_bytes:
  "length prev = 32 \<Longrightarrow>
     take (sizeof_AuditRecord - 32) (audit_record_bytes (audit_fill e prev)) = audit_link prev e"
  by (simp add: audit_record_bytes_def audit_fill_def audit_link_def sizeof_AuditRecord_def)

lemma length_audit_record_bytes [byte_len]:
  "length (ar_previous_hash r) = 32 \<Longrightarrow> length (ar_event_hash r) = 32 \<Longrightarrow>
     length (audit_record_bytes r) = sizeof_AuditRecord"
  by (simp add: audit_record_bytes_def sizeof_AuditRecord_def)

lemma audit_link_inject:
  assumes "length p = 32" and "length q = 32" and "audit_link p e = audit_link q f"
  shows "p = q \<and> e = f"
  using assms by (cases e; cases f) (auto simp: audit_link_def le_bytes_inject)

interpretation audit: hash_chain audit_link "\<lambda>_. True"
  by unfold_locales (rule audit_link_inject)

section \<open>Runs\<close>

definition audit_prev :: "AuditLog \<Rightarrow> bytes" where
  "audit_prev log = (if \<not> audit_initialized log then replicate 32 0 else audit_last_hash log)"

definition audit_run ::
  "hash_fun \<Rightarrow> ((bool \<times> nat) \<times> AuditEvent) list \<Rightarrow> AuditLog \<times> bytes \<Rightarrow> AuditLog \<times> bytes" where
  "audit_run H xs = fold (\<lambda>(env, e). audit_log_event H env e) xs"

lemma audit_log_event_step:
  assumes "length (audit_prev log) = 32"
  shows "audit_log_event H (True, n) e (log, disk) =
    (\<lparr>audit_last_hash = H (audit_link (audit_prev log) e), audit_initialized = True\<rparr>,
     disk @ take n (audit_record_bytes (audit_record H (audit_prev log) e)))"
  using audit_hashed_bytes [OF assms, of e]
  by (simp add: audit_log_event_def Let_def audit_prev_def audit_record_def)

lemma audit_record_length:
  "(\<And>b. length (H b) = 32) \<Longrightarrow> length p = 32 \<Longrightarrow> length (audit_record_bytes (audit_record H p e)) = 96"
  using length_audit_record_bytes [of "audit_record H p e"]
  by (simp add: audit_record_def audit_fill_def sizeof_AuditRecord_def)

definition full_write :: "AuditEvent \<Rightarrow> (bool \<times> nat) \<times> AuditEvent" where
  "full_write e = ((True, 96), e)"

lemma audit_run_records:
  assumes "\<And>b. length (H b) = 32" and "length (audit_prev log) = 32"
  shows "snd (audit_run H (map full_write es) (log, disk)) =
      disk @ concat (map audit_record_bytes (audit_records H (audit_prev log) es)) \<and>
    audit_prev (fst (audit_run H (map full_write es) (log, disk))) =
      chain_end audit_link H (audit_prev log) es"
  using assms(2)
proof (induction es arbitrary: log disk)
  case (Cons e es)
  let ?log = "\<lparr>audit_last_hash = H (audit_link (audit_prev log) e), audit_initialized = True\<rparr>"
  have prev: "audit_prev ?log = H (audit_link (audit_prev log) e)" by (simp add: audit_prev_def)
  have "audit_run H (map full_write (e # es)) (log, disk) =
      audit_run H (map full_write es)
        (?log, disk @ audit_record_bytes (audit_record H (audit_prev log) e))"
    using audit_log_event_step [OF Cons.prems, of H 96 e disk] audit_record_length [of H, OF assms(1) Cons.prems]
    by (simp add: audit_run_def full_write_def)
  then show ?case
    using Cons.IH [of ?log] assms(1) by (simp add: prev)
qed (simp add: audit_run_def)

lemma audit_prev_start: "audit_prev audit_start = replicate 32 0"
  by (simp add: audit_prev_def audit_start_def)


lemma audit_log_event_fst:
  "fst (audit_log_event H (opened, n) e (log, disk)) =
     (if opened then fst (audit_log_event H (True, m) e (log, disk')) else log)"
  by (simp add: audit_log_event_def Let_def)

lemma audit_run_fst:
  "map (\<lambda>((opened, n), e). (opened, e)) xs = map (\<lambda>((opened, n), e). (opened, e)) ys \<Longrightarrow>
     fst (audit_run H xs (log, disk)) = fst (audit_run H ys (log, disk'))"
proof (induction xs arbitrary: ys log disk disk')
  case (Cons x xs)
  obtain y zs where ys: "ys = y # zs" using Cons.prems by (cases ys) auto
  obtain b n e where x: "x = ((b, n), e)" by (metis prod.collapse)
  with Cons.prems ys obtain m where y: "y = ((b, m), e)" by (cases y; cases "fst y") auto
  have "fst (audit_log_event H (b, n) e (log, disk)) = fst (audit_log_event H (b, m) e (log, disk'))"
    using audit_log_event_fst [of H b n e log disk m disk'] audit_log_event_fst [of H b m e log disk' m disk'] by simp
  then obtain l d d' where "audit_log_event H (b, n) e (log, disk) = (l, d)"
    "audit_log_event H (b, m) e (log, disk') = (l, d')" by (metis prod.collapse)
  with Cons.IH [of zs l d d'] Cons.prems x y ys show ?case by (simp add: audit_run_def)
qed (simp add: audit_run_def)

lemma audit_run_start:
  assumes "\<And>b. length (H b) = 32" and "es \<noteq> []"
  shows "audit_run H (map full_write es) (audit_start, []) =
     (\<lparr>audit_last_hash = chain_end audit_link H (replicate 32 0) es, audit_initialized = True\<rparr>,
      concat (map audit_record_bytes (audit_records H (replicate 32 0) es)))"
proof -
  let ?r = "audit_run H (map full_write es) (audit_start, [])"
  obtain ds d where "es = ds @ [d]" using assms(2) by (metis rev_exhaust)
  then have "?r = audit_log_event H (True, 96) d (audit_run H (map full_write ds) (audit_start, []))"
    by (simp add: audit_run_def full_write_def)
  then have "audit_initialized (fst ?r)"
    by (cases "audit_run H (map full_write ds) (audit_start, [])") (simp add: audit_log_event_def Let_def)
  then have "audit_prev (fst ?r) = audit_last_hash (fst ?r)" by (simp add: audit_prev_def)
  moreover have "length (audit_prev audit_start) = 32" by (simp add: audit_prev_start)
  ultimately have "audit_last_hash (fst ?r) = chain_end audit_link H (replicate 32 0) es"
    "snd ?r = concat (map audit_record_bytes (audit_records H (replicate 32 0) es))"
    using audit_run_records [of H audit_start es "[]"] assms(1) unfolding audit_prev_start by simp_all
  with \<open>audit_initialized (fst ?r)\<close> show ?thesis by (intro prod_eqI) simp_all
qed

section \<open>Properties\<close>

definition demo_event :: AuditEvent where
  "demo_event = \<lparr>ae_cmd_id = 1, ae_node_id = 2, ae_seq = 3, ae_cmd_type = 4, ae_decision = 0, ae_timestamp_ns = 5\<rparr>"

text \<open>C11: with a working file the log file is the byte image of the hash chain of the events, oldest
  first, and the hash kept in memory is the end of that chain.\<close>

theorem audit_file_is_chain:
  assumes "\<And>b. length (H b) = 32" and "es \<noteq> []"
  shows "audit_run H (map full_write es) (audit_start, []) =
     (\<lparr>audit_last_hash = chain_end audit_link H (replicate 32 0) es, audit_initialized = True\<rparr>,
      concat (map audit_record_bytes (audit_records H (replicate 32 0) es)))"
  using assms by (rule audit_run_start)

theorem audit_file_is_chain_witness:
  "fst (audit_run mix_hash (map full_write [demo_event]) (audit_start, [])) =
     \<lparr>audit_last_hash = chain_end audit_link mix_hash (replicate 32 0) [demo_event], audit_initialized = True\<rparr>"
  using audit_file_is_chain [of mix_hash "[demo_event]"] by simp

text \<open>C12: the audit hash commits to every field of every event: two logs of the same length that differ
  anywhere end in different hashes, if the hash has no collision among the inputs of the two chains.\<close>

theorem audit_hash_binds_events:
  assumes "\<And>b. length (H b) = 32" and "length es = length fs" and "es \<noteq> fs"
    and "inj_on H (chain_inputs audit_link H (replicate 32 0) es \<union> chain_inputs audit_link H (replicate 32 0) fs)"
  shows "audit_last_hash (fst (audit_run H (map full_write es) (audit_start, []))) \<noteq>
     audit_last_hash (fst (audit_run H (map full_write fs) (audit_start, [])))"
proof -
  have "es \<noteq> []" "fs \<noteq> []" using assms(2,3) by auto
  then show ?thesis
    using audit.tamper_changes_end [of H "replicate 32 0" es fs] assms by (simp add: audit_run_start)
qed

theorem audit_hash_binds_events_witness:
  "audit_last_hash (fst (audit_run mix_hash (map full_write [demo_event]) (audit_start, []))) \<noteq>
   audit_last_hash (fst (audit_run mix_hash (map full_write [demo_event\<lparr>ae_decision := 1\<rparr>]) (audit_start, [])))"
  by (rule audit_hash_binds_events) (simp_all add: mix_hash_inject demo_event_def audit_link_def eval_nat_numeral)

text \<open>the chain in memory does not depend on what reaches the disk. Once \<open>open\<close> succeeds the hash
  advances over the event whether \<open>write\<close> stored the whole record, part of it or nothing, so
  after a lost write the next record links to one that is not in the file.\<close>

theorem audit_chain_ignores_write:
  assumes "map (\<lambda>((opened, n), e). (opened, e)) xs = map (\<lambda>((opened, n), e). (opened, e)) ys"
  shows "fst (audit_run H xs (log, disk)) = fst (audit_run H ys (log, disk'))"
  using assms by (rule audit_run_fst)

theorem audit_chain_ignores_write_witness:
  "fst (audit_run mix_hash [((True, 0), demo_event)] (audit_start, [])) =
   fst (audit_run mix_hash [((True, 96), demo_event)] (audit_start, []))"
  by (rule audit_chain_ignores_write) simp

text \<open>a restart begins a new chain at the zero hash, so a file written by two runs of the
  program is two chains one after the other: the second part does not depend on the first, and
  removing the first leaves exactly what a run on a fresh file would have written.\<close>

theorem audit_restart_forgets:
  assumes "\<And>b. length (H b) = 32"
  shows "snd (audit_run H (map full_write fs) (audit_start, snd (audit_run H (map full_write es) (audit_start, [])))) =
     snd (audit_run H (map full_write es) (audit_start, [])) @ snd (audit_run H (map full_write fs) (audit_start, []))"
  using audit_run_records [of H audit_start] assms by (simp add: audit_prev_start)

theorem audit_restart_forgets_witness:
  "snd (audit_run mix_hash (map full_write [demo_event])
      (audit_start, snd (audit_run mix_hash (map full_write [demo_event]) (audit_start, [])))) =
   snd (audit_run mix_hash (map full_write [demo_event]) (audit_start, [])) @
     snd (audit_run mix_hash (map full_write [demo_event]) (audit_start, []))"
  by (rule audit_restart_forgets) simp

end
