(* ===== verification/Posix.thy ===== *)
theory Posix
  imports Gate0_Prelude
begin

text \<open>
  The system-call level of the servers and clients. A program is a tree of calls: it asks the system for one
  call and goes on with the answer. Running it against a list of answers gives the calls it made, in order,
  and its result, if the answers did not run out first (the call that has no answer yet is the one the process is
  blocked in, or was killed in). \<open>keeps_fds\<close> is the weakest precondition of a descriptor discipline, over every answer the
  documentation of the call allows.
\<close>

section \<open>Calls and answers\<close>

datatype errno = EINTR | EAGAIN | EBADF | Other_errno

datatype sock_domain = AF_UNIX | AF_INET
datatype sock_addr = Unix_addr string | Inet_addr u32 u16

datatype sys_call =
    Mlockall | Unlink string | Mkdir string nat | Chmod string nat
  | Socket sock_domain | Setsockopt int int | Fcntl_getfl int | Fcntl_setfl int int
  | Bind int sock_addr | Listen int nat | Accept int | Connect int sock_addr
  | Read int nat | Write int bytes | Recv int nat | Send int bytes
  | Shutdown int | Close int | Open string | Fsync int
  | Epoll_create | Epoll_ctl_add int int | Epoll_wait int nat nat
  | Usleep nat | Clock_gettime | Print string | Print_error string | Perror string

text \<open>The return value, \<open>errno\<close>, the bytes stored through the pointer arguments, for
  \<open>epoll_wait\<close> the descriptors of the ready events, and the indeterminate content that the buffer on the
  stack, which the call is to fill, has before it.\<close>

record sys_reply =
  ret :: int
  errno :: errno
  stored :: bytes
  ready :: "int list"
  residue :: bytes

type_synonym event = "sys_call \<times> sys_reply"

text \<open>The \<open>struct timespec\<close> that \<open>clock_gettime\<close> stores, read as the nanosecond count of every \<open>now_ns\<close>.\<close>

definition clock_ns :: "sys_reply \<Rightarrow> u64" where
  "clock_ns r = le_word (field_at 0 8 (stored r)) * 1000000000 + le_word (field_at 8 8 (stored r))"

text \<open>\<open>strncpy (addr.sun_path, path, sizeof(addr.sun_path) - 1)\<close> into the zeroed 108-byte field.\<close>

definition unix_address :: "string \<Rightarrow> sock_addr" where
  "unix_address path = Unix_addr (take 107 path)"

section \<open>Programs\<close>

datatype 'a io = Done 'a | Sys sys_call "sys_reply \<Rightarrow> 'a io"

primrec io_bind :: "'a io \<Rightarrow> ('a \<Rightarrow> 'b io) \<Rightarrow> 'b io" where
  "io_bind (Done a) f = f a"
| "io_bind (Sys c k) f = Sys c (\<lambda>r. io_bind (k r) f)"

primrec run_io :: "'a io \<Rightarrow> sys_reply list \<Rightarrow> event list \<times> ('a \<times> sys_reply list) option" where
  "run_io (Done a) rs = ([], Some (a, rs))"
| "run_io (Sys c k) rs =
     (case rs of
        [] \<Rightarrow> ([], None)
      | r # rs \<Rightarrow> (let (es, x) = run_io (k r) rs in ((c, r) # es, x)))"

text \<open>\<open>while (1)\<close> with its body: \<open>Inl\<close> goes round again, \<open>Inr\<close> leaves the loop. \<open>n\<close> bounds the number of rounds.\<close>

primrec io_loop :: "nat \<Rightarrow> ('s \<Rightarrow> ('s + 'a) io) \<Rightarrow> 's \<Rightarrow> ('s + 'a) io" where
  "io_loop 0 body s = Done (Inl s)"
| "io_loop (Suc n) body s =
     io_bind (body s) (\<lambda>x. case x of Inl s \<Rightarrow> io_loop n body s | Inr a \<Rightarrow> Done (Inr a))"

lemma io_loop_numeral [simp]:
  "io_loop (numeral k) body s =
     io_bind (body s) (\<lambda>x. case x of Inl s \<Rightarrow> io_loop (pred_numeral k) body s | Inr a \<Rightarrow> Done (Inr a))"
  by (simp add: numeral_eq_Suc)

text \<open>Congruence rules that leave what follows a call unevaluated until its answer is known.\<close>

lemma Sys_weak_cong: "c = c' \<Longrightarrow> Sys c k = Sys c' k"
  by simp

lemma io_bind_weak_cong: "m = m' \<Longrightarrow> io_bind m f = io_bind m' f"
  by simp

lemmas io_congs = Sys_weak_cong io_bind_weak_cong

lemma io_bind_assoc [simp]: "io_bind (io_bind m f) g = io_bind m (\<lambda>x. io_bind (f x) g)"
  by (induction m) simp_all

lemma run_bind:
  "run_io (io_bind m f) rs =
     (case run_io m rs of
        (es, None) \<Rightarrow> (es, None)
      | (es, Some (a, rs')) \<Rightarrow> (let (es', x) = run_io (f a) rs' in (es @ es', x)))"
  by (induction m arbitrary: rs) (auto split: list.split prod.split option.split)

text \<open>For evaluating a run: the calls and the result apart, so that no step duplicates the rest of the run.\<close>

lemma run_io_steps:
  "fst (run_io (Sys c k) (r # rs)) = (c, r) # fst (run_io (k r) rs)"
  "snd (run_io (Sys c k) (r # rs)) = snd (run_io (k r) rs)"
  "fst (run_io (Sys c k) []) = []" "snd (run_io (Sys c k) []) = None"
  by (simp_all add: split_beta Let_def)

text \<open>The answers are consumed from the front, and recorded.\<close>

lemma run_consumes:
  "run_io m rs = (es, Some (a, rs')) \<Longrightarrow> rs = map snd es @ rs'"
  by (induction m arbitrary: rs es) (fastforce split: list.splits prod.splits)+

lemma run_blocked: "run_io m rs = (es, None) \<Longrightarrow> rs = map snd es"
  by (induction m arbitrary: rs es) (fastforce split: list.splits prod.splits)+

text \<open>One round of a loop makes at least one call, so as many rounds as there are answers, and one more,
  are enough: the loop is left or blocked, and a larger bound changes nothing.\<close>

definition makes_call :: "'a io \<Rightarrow> bool" where
  "makes_call m \<longleftrightarrow> (case m of Done _ \<Rightarrow> False | Sys _ _ \<Rightarrow> True)"

lemma makes_call_simps [simp]: "makes_call (Done a) = False" "makes_call (Sys c k) = True"
  by (simp_all add: makes_call_def)

lemma makes_call_consumes:
  "makes_call m \<Longrightarrow> run_io m rs = (es, Some (a, rs')) \<Longrightarrow> length rs' < length rs"
  by (cases m) (auto split: list.splits prod.splits dest: run_consumes)

lemma io_loop_enough:
  assumes body: "\<And>s. makes_call (body s)"
  shows "length rs < n \<Longrightarrow> run_io (io_loop n body s) rs = (es, x) \<Longrightarrow>
    x = None \<or> (\<exists>a rs'. x = Some (Inr a, rs'))"
proof (induction n arbitrary: s rs es x)
  case (Suc n)
  obtain es1 y where b: "run_io (body s) rs = (es1, y)" by (cases "run_io (body s) rs")
  show ?case
  proof (cases y)
    case (Some p)
    obtain z rs' where z: "y = Some (z, rs')" using Some by (cases p) auto
    have "length rs' < n" using makes_call_consumes [OF body b [unfolded z]] Suc.prems(1) by simp
    with Suc.IH Suc.prems(2) b z show ?thesis by (cases z) (fastforce simp: run_bind split: prod.splits)+
  qed (use Suc.prems(2) b in \<open>simp add: run_bind\<close>)
qed simp

lemma io_loop_more_rounds:
  assumes body: "\<And>s. makes_call (body s)"
  shows "length rs < n \<Longrightarrow> n \<le> m \<Longrightarrow> run_io (io_loop m body s) rs = run_io (io_loop n body s) rs"
proof (induction n arbitrary: m s rs)
  case (Suc n)
  then obtain k where m: "m = Suc k" "n \<le> k" by (cases m) auto
  obtain es y where b: "run_io (body s) rs = (es, y)" by (cases "run_io (body s) rs")
  show ?case
  proof (cases y)
    case (Some p)
    obtain z rs' where z: "y = Some (z, rs')" using Some by (cases p) auto
    have "length rs' < n" using makes_call_consumes [OF body b [unfolded z]] Suc.prems(1) by simp
    from Suc.IH [OF this m(2)] b z m(1) show ?thesis by (cases z) (simp_all add: run_bind)
  qed (use b m in \<open>simp add: run_bind\<close>)
qed simp

section \<open>Descriptors\<close>

text \<open>The set of descriptors the process holds, before and after a call.\<close>

definition after_call :: "int set \<Rightarrow> event \<Rightarrow> int set" where
  "after_call F e =
     (case fst e of
        Socket _ \<Rightarrow> if 0 \<le> ret (snd e) then insert (ret (snd e)) F else F
      | Accept _ \<Rightarrow> if 0 \<le> ret (snd e) then insert (ret (snd e)) F else F
      | Open _ \<Rightarrow> if 0 \<le> ret (snd e) then insert (ret (snd e)) F else F
      | Epoll_create \<Rightarrow> if 0 \<le> ret (snd e) then insert (ret (snd e)) F else F
      | Close fd \<Rightarrow> F - {fd}
      | _ \<Rightarrow> F)"

text \<open>The descriptors a call is given.\<close>

definition uses_fds :: "sys_call \<Rightarrow> int set" where
  "uses_fds c =
     (case c of
        Setsockopt fd _ \<Rightarrow> {fd} | Fcntl_getfl fd \<Rightarrow> {fd} | Fcntl_setfl fd _ \<Rightarrow> {fd}
      | Bind fd _ \<Rightarrow> {fd} | Listen fd _ \<Rightarrow> {fd} | Accept fd \<Rightarrow> {fd} | Connect fd _ \<Rightarrow> {fd}
      | Read fd _ \<Rightarrow> {fd} | Write fd _ \<Rightarrow> {fd} | Recv fd _ \<Rightarrow> {fd} | Send fd _ \<Rightarrow> {fd}
      | Shutdown fd \<Rightarrow> {fd} | Close fd \<Rightarrow> {fd} | Fsync fd \<Rightarrow> {fd}
      | Epoll_ctl_add e fd \<Rightarrow> {e, fd} | Epoll_wait e _ _ \<Rightarrow> {e}
      | _ \<Rightarrow> {})"

text \<open>What the documentation of the calls promises of an answer: a new descriptor is one the process does not hold, a
  transfer moves at most what was asked for, and a call on a descriptor that is not held fails.\<close>

definition allowed :: "int set \<Rightarrow> sys_call \<Rightarrow> sys_reply \<Rightarrow> bool" where
  "allowed F c r \<longleftrightarrow>
     -1 \<le> ret r \<and> (\<not> uses_fds c \<subseteq> F \<longrightarrow> ret r = -1) \<and>
     (case c of
        Socket _ \<Rightarrow> 0 \<le> ret r \<longrightarrow> ret r \<notin> F
      | Accept _ \<Rightarrow> 0 \<le> ret r \<longrightarrow> ret r \<notin> F
      | Open _ \<Rightarrow> 0 \<le> ret r \<longrightarrow> ret r \<notin> F
      | Epoll_create \<Rightarrow> 0 \<le> ret r \<longrightarrow> ret r \<notin> F
      | Read _ n \<Rightarrow> ret r \<le> int n \<and> (0 \<le> ret r \<longrightarrow> length (stored r) = nat (ret r))
      | Recv _ n \<Rightarrow> ret r \<le> int n \<and> (0 \<le> ret r \<longrightarrow> length (stored r) = nat (ret r))
      | Write _ bs \<Rightarrow> ret r \<le> int (length bs)
      | Send _ bs \<Rightarrow> ret r \<le> int (length bs)
      | Epoll_wait _ n _ \<Rightarrow> ret r \<le> int n \<and> int (length (ready r)) = max 0 (ret r)
      | Clock_gettime \<Rightarrow> length (stored r) = 16
      | _ \<Rightarrow> True)"

primrec allowed_run :: "int set \<Rightarrow> event list \<Rightarrow> bool" where
  "allowed_run F [] = True"
| "allowed_run F (e # es) \<longleftrightarrow> allowed F (fst e) (snd e) \<and> allowed_run (after_call F e) es"

text \<open>Held descriptors at the end of a run, and the discipline: a descriptor is used only while it is held.\<close>

definition held_after :: "int set \<Rightarrow> event list \<Rightarrow> int set" where
  "held_after F es = foldl after_call F es"

primrec disciplined :: "int set \<Rightarrow> event list \<Rightarrow> bool" where
  "disciplined F [] = True"
| "disciplined F (e # es) \<longleftrightarrow> uses_fds (fst e) \<subseteq> F \<and> disciplined (after_call F e) es"

lemma held_after_simps [simp]:
  "held_after F [] = F"
  "held_after F (e # es) = held_after (after_call F e) es"
  "held_after F (es @ es') = held_after (held_after F es) es'"
  by (simp_all add: held_after_def)

lemma allowed_run_append [simp]:
  "allowed_run F (es @ es') \<longleftrightarrow> allowed_run F es \<and> allowed_run (held_after F es) es'"
  by (induction es arbitrary: F) simp_all

lemma disciplined_append [simp]:
  "disciplined F (es @ es') \<longleftrightarrow> disciplined F es \<and> disciplined (held_after F es) es'"
  by (induction es arbitrary: F) simp_all

section \<open>A weakest precondition\<close>

text \<open>From the held descriptors \<open>F\<close> the program keeps the discipline whatever allowed answers it gets,
  and its result and the descriptors then held satisfy \<open>Q\<close>.\<close>

primrec keeps_fds :: "'a io \<Rightarrow> int set \<Rightarrow> ('a \<Rightarrow> int set \<Rightarrow> bool) \<Rightarrow> bool" where
  "keeps_fds (Done a) F Q = Q a F"
| "keeps_fds (Sys c k) F Q \<longleftrightarrow>
     uses_fds c \<subseteq> F \<and> (\<forall>r. allowed F c r \<longrightarrow> keeps_fds (k r) (after_call F (c, r)) Q)"

lemma keeps_fds_mono:
  "keeps_fds m F Q \<Longrightarrow> (\<And>a F. Q a F \<Longrightarrow> R a F) \<Longrightarrow> keeps_fds m F R"
  by (induction m arbitrary: F) auto

lemma keeps_fds_bind [simp]:
  "keeps_fds (io_bind m f) F Q \<longleftrightarrow> keeps_fds m F (\<lambda>a F. keeps_fds (f a) F Q)"
  by (induction m arbitrary: F) simp_all

lemma keeps_fds_loop:
  assumes body: "\<And>s F. I s F \<Longrightarrow> keeps_fds (body s) F (\<lambda>x F. case x of Inl s \<Rightarrow> I s F | Inr a \<Rightarrow> Q a F)"
  shows "I s F \<Longrightarrow> keeps_fds (io_loop n body s) F (\<lambda>x F. case x of Inl s \<Rightarrow> I s F | Inr a \<Rightarrow> Q a F)"
proof (induction n arbitrary: s F)
  case (Suc n)
  show ?case
    unfolding io_loop.simps keeps_fds_bind
    by (rule keeps_fds_mono [OF body [OF Suc.prems]]) (auto intro: Suc.IH split: sum.split_asm)
qed simp

text \<open>Soundness: every run whose answers are allowed is disciplined, and a finished one satisfies \<open>Q\<close>.\<close>

lemma keeps_fds_sound:
  "keeps_fds m F Q \<Longrightarrow> run_io m rs = (es, x) \<Longrightarrow> allowed_run F es \<Longrightarrow>
     disciplined F es \<and> (\<forall>a rs'. x = Some (a, rs') \<longrightarrow> Q a (held_after F es))"
proof (induction m arbitrary: F rs es)
  case (Sys c k)
  show ?case
  proof (cases rs)
    case (Cons r rs')
    obtain es' where run: "run_io (k r) rs' = (es', x)" and es: "es = (c, r) # es'"
      using Sys.prems(2) Cons by (auto split: prod.splits)
    have "keeps_fds (k r) (after_call F (c, r)) Q" "allowed_run (after_call F (c, r)) es'"
      using Sys.prems es by simp_all
    from Sys.IH [OF _ this(1) run this(2)] Sys.prems(1) es show ?thesis by auto
  qed (use Sys.prems in auto)
qed auto

lemmas call_simps = after_call_def uses_fds_def allowed_def

section \<open>Printed numbers\<close>

fun decimal :: "nat \<Rightarrow> string" where
  "decimal n = (if n < 10 then [char_of (48 + n)] else decimal (n div 10) @ [char_of (48 + n mod 10)])"

declare decimal.simps [simp del]

definition show_int :: "int \<Rightarrow> string" where
  "show_int i = (if i < 0 then CHR ''-'' # decimal (nat (- i)) else decimal (nat i))"

definition newline :: string where "newline = [CHR 0x0A]"

text \<open>The bytes of a string literal, without its terminator.\<close>

definition chars_bytes :: "string \<Rightarrow> bytes" where
  "chars_bytes cs = map (\<lambda>c. of_nat (of_char c)) cs"

definition bytes_chars :: "bytes \<Rightarrow> string" where
  "bytes_chars bs = map (\<lambda>b. char_of (unat b)) bs"

text \<open>\<open>%0kx\<close>.\<close>

definition hex_digit :: "nat \<Rightarrow> char" where
  "hex_digit d = ''0123456789abcdef'' ! d"

primrec hex :: "nat \<Rightarrow> nat \<Rightarrow> string" where
  "hex 0 n = []"
| "hex (Suc k) n = hex k (n div 16) @ [hex_digit (n mod 16)]"

lemma hex_digit_inject: "m < 16 \<Longrightarrow> n < 16 \<Longrightarrow> hex_digit m = hex_digit n \<longleftrightarrow> m = n"
proof -
  assume "m < 16" "n < 16"
  moreover have "distinct ''0123456789abcdef''" "length ''0123456789abcdef'' = 16" by simp_all
  ultimately show ?thesis unfolding hex_digit_def by (simp only: nth_eq_iff_index_eq)
qed

lemma hex_inject: "m < 16 ^ k \<Longrightarrow> n < 16 ^ k \<Longrightarrow> hex k m = hex k n \<longleftrightarrow> m = n"
proof (induction k arbitrary: m n)
  case (Suc k)
  have "m div 16 < 16 ^ k" "n div 16 < 16 ^ k" using Suc.prems by (simp_all add: less_mult_imp_div_less mult.commute)
  moreover have "m = n \<longleftrightarrow> m div 16 = n div 16 \<and> m mod 16 = n mod 16" by (metis div_mult_mod_eq)
  ultimately show ?case using Suc.IH by (simp add: hex_digit_inject)
qed simp

text \<open>\<open>decimal\<close> read back, and how long it is.\<close>

definition digits_value :: "string \<Rightarrow> nat" where
  "digits_value cs = foldl (\<lambda>v c. 10 * v + (of_char c - 48)) 0 cs"

lemma digits_value_decimal: "digits_value (decimal n) = n"
proof (induction n rule: decimal.induct)
  case (1 n)
  show ?case
  proof (cases "n < 10")
    case True
    then show ?thesis by (subst decimal.simps) (simp add: digits_value_def)
  next
    case False
    with 1 show ?thesis by (subst decimal.simps) (simp add: digits_value_def)
  qed
qed

lemma decimal_inject: "decimal m = decimal n \<longleftrightarrow> m = n"
  by (metis digits_value_decimal)

lemma decimal_nonempty: "decimal n \<noteq> []"
  by (subst decimal.simps) simp

lemma length_decimal: "n < 10 ^ k \<Longrightarrow> 0 < k \<Longrightarrow> length (decimal n) \<le> k"
proof (induction k arbitrary: n)
  case (Suc k)
  show ?case
  proof (cases "n < 10")
    case True
    then show ?thesis by (subst decimal.simps) simp
  next
    case False
    with Suc.prems have "n div 10 < 10 ^ k" "0 < k" by (auto simp: less_mult_imp_div_less mult.commute intro: gr0I)
    with Suc.IH [of "n div 10"] False show ?thesis by (subst decimal.simps) simp
  qed
qed simp

section \<open>Other predicates of programs\<close>

text \<open>A program that makes calls of one kind only, whatever it is answered.\<close>

primrec always :: "(sys_call \<Rightarrow> bool) \<Rightarrow> 'a io \<Rightarrow> bool" where
  "always P (Done a) = True"
| "always P (Sys c k) \<longleftrightarrow> P c \<and> (\<forall>r. always P (k r))"

lemma always_bind: "always P m \<Longrightarrow> (\<And>a. always P (f a)) \<Longrightarrow> always P (io_bind m f)"
  by (induction m) auto

lemma always_loop: "(\<And>s. always P (body s)) \<Longrightarrow> always P (io_loop n body s)"
  by (induction n arbitrary: s) (auto intro!: always_bind split: sum.split)

lemma always_sound: "always P m \<Longrightarrow> (c, r) \<in> set (fst (run_io m rs)) \<Longrightarrow> P c"
proof (induction m arbitrary: rs)
  case (Sys c' k)
  then show ?case by (fastforce simp: split_beta Let_def split: list.splits)
qed simp

text \<open>Whatever the answers, as long as they satisfy \<open>A\<close>, a run that has made \<open>es\<close> ends with \<open>Q\<close>.\<close>

primrec ensures :: "(event \<Rightarrow> bool) \<Rightarrow> 'a io \<Rightarrow> event list \<Rightarrow> (event list \<Rightarrow> 'a \<Rightarrow> bool) \<Rightarrow> bool" where
  "ensures A (Done a) es Q = Q es a"
| "ensures A (Sys c k) es Q \<longleftrightarrow> (\<forall>r. A (c, r) \<longrightarrow> ensures A (k r) (es @ [(c, r)]) Q)"

lemma ensures_bind [simp]:
  "ensures A (io_bind m f) es Q \<longleftrightarrow> ensures A m es (\<lambda>es a. ensures A (f a) es Q)"
  by (induction m arbitrary: es) simp_all

lemma ensures_mono: "ensures A m es Q \<Longrightarrow> (\<And>es a. Q es a \<Longrightarrow> R es a) \<Longrightarrow> ensures A m es R"
  by (induction m arbitrary: es) simp_all

lemma ensures_sound:
  "ensures A m es0 Q \<Longrightarrow> run_io m rs = (es, Some (a, rs')) \<Longrightarrow> list_all A es \<Longrightarrow> Q (es0 @ es) a"
  by (induction m arbitrary: es0 rs es) (fastforce split: list.splits prod.splits)+

end
