(* ===== verification/Gate0_Chain.thy ===== *)
theory Gate0_Chain
  imports Hash_Chain Posix
begin

text \<open>
  \<open>gate0_chain.c\<close>: the demonstration of a hash-chained audit log. \<open>main\<close> hashes each entry after the
  previous digest and prints the first sixteen bytes of every digest in hexadecimal, and at the end that it has passed. The strings are C strings.
\<close>

definition ascii :: "string \<Rightarrow> bytes" where
  "ascii s = map of_char s"

definition compute_hash :: "hash_fun \<Rightarrow> bytes \<Rightarrow> nat \<Rightarrow> bytes" where
  "compute_hash H input len = H (take len input)"

definition print_hex :: "bytes \<Rightarrow> nat \<Rightarrow> string" where
  "print_hex bin len =
     concat (map (\<lambda>b. hex 2 (unat b)) (take len bin)) @ newline"

definition chain_entries :: "string list" where
  "chain_entries = [''gate0_init: system boot'', ''auth_success: client connected'',
     ''state_transition: active mode'']"

text \<open>The loop: the digests in order.\<close>

primrec chain_loop :: "hash_fun \<Rightarrow> bytes \<Rightarrow> bytes list \<Rightarrow> bytes list" where
  "chain_loop H prev_hash [] = []"
| "chain_loop H prev_hash (e # es) =
     (let payload = prev_hash @ e;
          current_hash = compute_hash H payload (32 + length e)
      in current_hash # chain_loop H current_hash es)"

definition chain_line :: "nat \<Rightarrow> string \<Rightarrow> bytes \<Rightarrow> string" where
  "chain_line i entry hash = ''[+] Log Entry '' @ decimal (i + 1) @ '': '' @ entry @ newline @ ''    Hash: '' @ print_hex hash 16"

definition chain_main :: "bool \<Rightarrow> hash_fun \<Rightarrow> int \<times> string list" where
  "chain_main sodium_ok H =
     (if \<not> sodium_ok then (1, [])
      else let hashes = chain_loop H (replicate 32 0) (map ascii chain_entries)
           in (0, map (\<lambda>i. chain_line i (chain_entries ! i) (hashes ! i)) [0..<3] @
                  [''[+] SHA-256 Hash-Chained Audit Log: PASSED'' @ newline]))"

definition chain_link :: "bytes \<Rightarrow> bytes \<Rightarrow> bytes" where
  "chain_link prev e = prev @ e"

interpretation demo_chain: hash_chain chain_link "\<lambda>_. True"
  by unfold_locales (simp add: chain_link_def)

lemma chain_loop_last:
  "(\<And>b. length (H b) = 32) \<Longrightarrow> length p = 32 \<Longrightarrow>
     last (p # chain_loop H p es) = chain_end chain_link H p es"
  by (induction es arbitrary: p) (simp_all add: chain_link_def compute_hash_def Let_def)

text \<open>The last digest of the loop commits to all its entries.\<close>

lemma chain_loop_binds:
  assumes "\<And>b. length (H b) = 32" and "length es = length fs" and "es \<noteq> fs"
    and "inj_on H (chain_inputs chain_link H (replicate 32 0) es \<union> chain_inputs chain_link H (replicate 32 0) fs)"
  shows "last (replicate 32 0 # chain_loop H (replicate 32 0) es) \<noteq>
     last (replicate 32 0 # chain_loop H (replicate 32 0) fs)"
  using demo_chain.tamper_changes_end [of H "replicate 32 0" es fs] assms
  by (simp only: chain_loop_last length_replicate) simp

text \<open>What the demonstration prints reveals the first half of each digest: two hashes with the same output agree there.\<close>

lemma print_hex_inject:
  assumes "print_hex a n = print_hex b n" and "length a = length b"
  shows "take n a = take n b"
proof -
  have "concat (map (\<lambda>b. hex 2 (unat b)) xs) = concat (map (\<lambda>b. hex 2 (unat b)) ys) \<Longrightarrow> xs = ys"
    if "length xs = length ys" for xs ys :: bytes
    using that
  proof (induction xs ys rule: list_induct2)
    case (Cons x xs y ys)
    have "length (hex 2 (unat w)) = 2" for w :: u8 by (simp add: numeral_2_eq_2)
    with Cons have "hex 2 (unat x) = hex 2 (unat y)" "xs = ys" by auto
    moreover have "unat w < 16 ^ 2" for w :: u8 using unsigned_less [of w] by simp
    ultimately show ?case using hex_inject [of "unat x" 2 "unat y"] by (simp add: word_unat_eq_iff del: hex.simps)
  qed simp
  from this [of "take n a" "take n b"] assms show ?thesis by (simp add: print_hex_def)
qed

end
