(* ===== verification/Persistence.thy ===== *)
theory Persistence
  imports Gate0_Header
begin

text \<open>
  \<open>src/persistence.c\<close> and \<open>wal_recover.c\<close>: sender records appended to a file in frames of 304
  bytes, and the two programs that read them back. The file is \<open>None\<close> while it does not exist. The
  environment of a write is whether \<open>open\<close> succeeds and what \<open>write\<close> returns: \<open>None\<close> for an error, or
  the number of bytes that reached the file. A \<open>read\<close> on a regular file returns the bytes that are left, up to the frame.
\<close>

section \<open>Frames\<close>

record PersistRecord =
  pr_sequence :: u64
  pr_length :: u32
  pr_hash :: bytes
  pr_payload :: bytes

definition persist_record_bytes :: "PersistRecord \<Rightarrow> bytes" where
  "persist_record_bytes r =
     le_bytes 8 (pr_sequence r) @ le_bytes 4 (pr_length r) @ pr_hash r @ pr_payload r @ replicate 4 0"

definition sizeof_PersistRecord :: nat where "sizeof_PersistRecord = 304"

definition persist_record :: "SenderRecord \<Rightarrow> u64 \<Rightarrow> PersistRecord" where
  "persist_record sender seq =
     \<lparr>pr_sequence = seq, pr_length = of_nat sizeof_SenderRecord, pr_hash = replicate 32 0,
      pr_payload = sender_bytes sender @ replicate (256 - sizeof_SenderRecord) 0\<rparr>"

definition persist_sender_state ::
  "bool \<times> nat option \<Rightarrow> SenderRecord \<Rightarrow> u64 \<Rightarrow> bytes option \<Rightarrow> int \<times> bytes option" where
  "persist_sender_state env sender seq disk =
     (if \<not> fst env then (-1, disk)
      else let content = (case disk of None \<Rightarrow> [] | Some d \<Rightarrow> d);
               rec = persist_record_bytes (persist_record sender seq)
           in case snd env of
                None \<Rightarrow> (-1, Some content)
              | Some n \<Rightarrow> (if n = sizeof_PersistRecord then 0 else -1, Some (content @ take n rec)))"

text \<open>The read loop of \<open>recover_sender_state\<close>: the last complete frame, if any.\<close>

function recover_loop :: "bytes option \<Rightarrow> bytes \<Rightarrow> bytes option" where
  "recover_loop latest bs =
     (if length (take sizeof_PersistRecord bs) = sizeof_PersistRecord
      then recover_loop (Some (take sizeof_PersistRecord bs)) (drop sizeof_PersistRecord bs)
      else latest)"
  by pat_completeness auto
termination
  by (relation "measure (\<lambda>(latest, bs). length bs)") (auto simp: sizeof_PersistRecord_def)

declare recover_loop.simps [simp del]

definition recover_sender_state :: "bool \<Rightarrow> bytes option \<Rightarrow> SenderRecord \<Rightarrow> int \<times> SenderRecord" where
  "recover_sender_state opened disk sender =
     (case disk of
        None \<Rightarrow> (-1, sender)
      | Some content \<Rightarrow>
          if \<not> opened then (-1, sender)
          else (case recover_loop None content of
                  Some latest \<Rightarrow> (0, sender_of_bytes (field_at 44 sizeof_SenderRecord latest))
                | None \<Rightarrow> (-1, sender)))"

text \<open>\<open>wal_recover.c\<close>: exit status with what is printed of the first frame. \<open>%s\<close> runs to the first
  zero byte; without one in the payload it leaves the array.\<close>

definition wal_recover_main :: "bool \<Rightarrow> bytes option \<Rightarrow> fault + (int \<times> (u64 \<times> bytes) option)" where
  "wal_recover_main opened disk =
     (case disk of
        None \<Rightarrow> Inr (1, None)
      | Some content \<Rightarrow>
          if \<not> opened then Inr (1, None)
          else let rec = take sizeof_PersistRecord content
               in if length rec \<noteq> sizeof_PersistRecord then Inr (1, None)
                  else if 0 \<notin> set (field_at 44 256 rec) then Inl OutOfBounds
                  else Inr (0, Some (le_word (field_at 0 8 rec), takeWhile (\<lambda>b. b \<noteq> 0) (field_at 44 256 rec))))"

section \<open>Reading frames back\<close>

lemma length_persist_record_bytes:
  "wf_sender s \<Longrightarrow> length (persist_record_bytes (persist_record s seq)) = 304"
  by (simp add: persist_record_bytes_def persist_record_def byte_len sizeof_defs)

lemma sender_in_frame:
  assumes "wf_sender s"
  shows "sender_of_bytes (field_at 44 41 (persist_record_bytes (persist_record s seq))) = s"
  using sender_of_bytes_append [OF assms, of "[]"] assms
  by (simp add: persist_record_bytes_def persist_record_def codec byte_len sizeof_defs field_at_append_here)

lemma recover_loop_frames:
  assumes "\<forall>r \<in> set rs. length r = 304" and "length tail < 304"
  shows "recover_loop latest (concat rs @ tail) = (if rs = [] then latest else Some (last rs))"
  using assms(1)
proof (induction rs arbitrary: latest)
  case Nil
  then show ?case using assms(2) by (simp add: recover_loop.simps [of latest tail] sizeof_PersistRecord_def)
next
  case (Cons r rs)
  then show ?case
    by (subst recover_loop.simps) (simp add: sizeof_PersistRecord_def)
qed

text \<open>A history of completed writes, each with its sequence number.\<close>

definition persist_all :: "(SenderRecord \<times> u64) list \<Rightarrow> bytes option \<Rightarrow> bytes option" where
  "persist_all xs disk =
     fold (\<lambda>(s, seq) d. snd (persist_sender_state (True, Some 304) s seq d)) xs disk"

definition frames :: "(SenderRecord \<times> u64) list \<Rightarrow> bytes list" where
  "frames xs = map (\<lambda>(s, seq). persist_record_bytes (persist_record s seq)) xs"

lemma persist_all_frames:
  assumes "\<forall>(s, seq) \<in> set xs. wf_sender s"
  shows "persist_all xs (Some d) = Some (d @ concat (frames xs))"
  using assms
proof (induction xs arbitrary: d)
  case (Cons x xs)
  then show ?case
    by (cases x) (simp add: persist_all_def frames_def persist_sender_state_def
        length_persist_record_bytes sizeof_PersistRecord_def)
qed (simp add: persist_all_def frames_def)

lemma frames_length: "\<forall>(s, seq) \<in> set xs. wf_sender s \<Longrightarrow> \<forall>r \<in> set (frames xs). length r = 304"
  by (auto simp: frames_def length_persist_record_bytes)

lemma frames_append: "frames (xs @ ys) = frames xs @ frames ys"
  by (simp add: frames_def)

lemma frames_single: "frames [(s, seq)] = [persist_record_bytes (persist_record s seq)]"
  by (simp add: frames_def)

section \<open>Properties\<close>

definition demo_sender :: "u8 \<Rightarrow> u64 \<Rightarrow> SenderRecord" where
  "demo_sender b n = \<lparr>public_key = replicate 32 b, last_sequence = n, used = True\<rparr>"

lemma wf_demo_sender [simp]: "wf_sender (demo_sender b n)"
  by (simp add: demo_sender_def wf_sender_def)

text \<open>C17: recovery after a crash. After any number of completed writes and a last write torn at any
  point, recovery succeeds and returns the sender of the last completed write.\<close>

theorem persist_crash_recovery:
  assumes "\<forall>(s, seq) \<in> set xs. wf_sender s" and "wf_sender s" and "k < 304"
  shows "recover_sender_state True
      (snd (persist_sender_state (True, Some k) t m (persist_all (xs @ [(s, n)]) (Some [])))) old = (0, s)"
proof -
  let ?t = "take k (persist_record_bytes (persist_record t m))"
  have wf: "\<forall>(s, seq) \<in> set (xs @ [(s, n)]). wf_sender s" using assms(1,2) by auto
  have "snd (persist_sender_state (True, Some k) t m (persist_all (xs @ [(s, n)]) (Some []))) =
      Some (concat (frames (xs @ [(s, n)])) @ ?t)"
    unfolding persist_all_frames [OF wf] by (simp add: persist_sender_state_def)
  moreover have "recover_loop None (concat (frames (xs @ [(s, n)])) @ ?t) =
      Some (persist_record_bytes (persist_record s n))"
    using recover_loop_frames [OF frames_length [OF wf], of ?t None] assms(3)
    by (simp add: frames_append frames_single)
  ultimately show ?thesis
    using sender_in_frame [OF assms(2)] by (simp add: recover_sender_state_def sizeof_defs)
qed

theorem persist_crash_recovery_witness:
  "recover_sender_state True (snd (persist_sender_state (True, Some 100) (demo_sender 2 9) 2
     (persist_all ([] @ [(demo_sender 1 8, 1)]) (Some [])))) zero_sender = (0, demo_sender 1 8)"
  by (rule persist_crash_recovery) simp_all

text \<open>a torn write corrupts what follows. Frames carry no marker and the file is never
  truncated, so after a write torn past the sender's bytes the next write reports success and
  recovery still returns the sender of the torn one.\<close>

theorem persist_torn_write_hides_success:
  assumes "\<forall>(s, seq) \<in> set xs. wf_sender s" and "wf_sender s" and "wf_sender t" and "85 \<le> k" and "k < 304"
  shows "fst (persist_sender_state (True, Some 304) t m
        (snd (persist_sender_state (True, Some k) s n (persist_all xs (Some []))))) = 0 \<and>
    recover_sender_state True (snd (persist_sender_state (True, Some 304) t m
        (snd (persist_sender_state (True, Some k) s n (persist_all xs (Some [])))))) old = (0, s)"
proof -
  let ?S = "persist_record_bytes (persist_record s n)" and ?T = "persist_record_bytes (persist_record t m)"
  have len: "length ?S = 304" "length ?T = 304" using assms(2,3) by (simp_all add: length_persist_record_bytes)
  let ?mixed = "take k ?S @ take (304 - k) ?T" and ?rest = "drop (304 - k) ?T"
  have disk: "snd (persist_sender_state (True, Some 304) t m
        (snd (persist_sender_state (True, Some k) s n (persist_all xs (Some []))))) =
      Some (concat (frames xs @ [?mixed]) @ ?rest)"
    unfolding persist_all_frames [OF assms(1)] using len by (simp add: persist_sender_state_def)
  have "\<forall>r \<in> set (frames xs @ [?mixed]). length r = 304" "length ?rest < 304"
    using frames_length [OF assms(1)] len assms(4,5) by auto
  then have scan: "recover_loop None (concat (frames xs @ [?mixed]) @ ?rest) = Some ?mixed"
    using recover_loop_frames [of "frames xs @ [?mixed]" ?rest None] by simp
  have "field_at 44 41 ?mixed = field_at 44 41 (take k ?S)"
    using len assms(4) by (intro field_at_append_inside) simp
  also have "\<dots> = field_at 44 41 ?S"
    using field_at_append_inside [of 44 41 "take k ?S" "drop k ?S"] len assms(4) by simp
  finally show ?thesis
    using disk scan sender_in_frame [OF assms(2), of n]
    by (simp add: recover_sender_state_def sizeof_defs) (simp add: persist_sender_state_def sizeof_PersistRecord_def)
qed

theorem persist_torn_write_hides_success_witness:
  "recover_sender_state True (snd (persist_sender_state (True, Some 304) (demo_sender 2 9) 2
     (snd (persist_sender_state (True, Some 100) (demo_sender 1 8) 1 (persist_all [] (Some [])))))) zero_sender =
   (0, demo_sender 1 8)"
  by (rule persist_torn_write_hides_success [THEN conjunct2]) simp_all

text \<open>The recovery tool prints the first frame of the file, the recovery function the last.\<close>

lemma wal_recover_first_frame:
  assumes "\<forall>(s, seq) \<in> set ((s, n) # xs). wf_sender s"
  shows "wal_recover_main True (persist_all ((s, n) # xs) (Some [])) =
     Inr (0, Some (n, takeWhile (\<lambda>b. b \<noteq> 0) (sender_bytes s @ [0])))"
proof -
  let ?S = "persist_record_bytes (persist_record s n)"
  have wf: "wf_sender s" using assms by simp
  have "take 304 (concat (frames ((s, n) # xs))) = ?S"
    using length_persist_record_bytes [OF wf, of n] by (simp add: frames_def)
  moreover have "field_at 44 256 ?S = sender_bytes s @ 0 # replicate 214 0"
    using length_sender_bytes [OF wf] field_at_append_here [of "sender_bytes s @ replicate 215 0" 256 "replicate 4 0"]
    by (simp add: persist_record_bytes_def persist_record_def codec sizeof_defs) (simp flip: replicate_Suc)
  moreover have "field_at 0 8 ?S = le_bytes 8 n"
    by (simp add: persist_record_bytes_def persist_record_def codec)
  moreover have "takeWhile (\<lambda>b. b \<noteq> 0) (us @ 0 # vs) = takeWhile (\<lambda>b. b \<noteq> 0) (us @ [0])" for us vs :: bytes
    by (induction us) auto
  ultimately show ?thesis
    unfolding persist_all_frames [OF assms] using length_persist_record_bytes [OF wf, of n]
    by (simp add: wal_recover_main_def sizeof_PersistRecord_def codec Let_def)
qed

end
