(* ===== verification/Telemetry.thy ===== *)
theory Telemetry
  imports Gate0_Header Store_Interface
begin

text \<open>
  \<open>src/telemetry.c\<close>: a ring of 1024 verdicts that overwrites its oldest entry. The two C
  arrays and the index variables are kept as they are; the abstraction reads the entries from \<open>tail\<close> on.
\<close>

definition TELEMETRY_RING_SIZE :: nat where "TELEMETRY_RING_SIZE = 1024"

record TelemetryRing =
  tl_timestamps :: "u64 list"
  tl_results :: "GateOResult list"
  tl_head :: u32
  tl_tail :: u32
  tl_full :: bool

text \<open>\<open>static TelemetryRing telemetry_buffer = {0}\<close> (code 0 is \<open>GO_OK\<close>).\<close>

definition telemetry_zero :: TelemetryRing where
  "telemetry_zero = \<lparr>tl_timestamps = replicate 1024 0, tl_results = replicate 1024 GO_OK,
     tl_head = 0, tl_tail = 0, tl_full = False\<rparr>"

definition telemetry_push :: "u64 \<Rightarrow> GateOResult \<Rightarrow> TelemetryRing \<Rightarrow> TelemetryRing" where
  "telemetry_push timestamp_ns result b =
     (let b = b\<lparr>tl_timestamps := (tl_timestamps b)[unat (tl_head b) := timestamp_ns],
                tl_results := (tl_results b)[unat (tl_head b) := result]\<rparr>;
          b = (if tl_full b then b\<lparr>tl_tail := (tl_tail b + 1) mod 1024\<rparr> else b);
          b = b\<lparr>tl_head := (tl_head b + 1) mod 1024\<rparr>
      in if tl_head b = tl_tail b then b\<lparr>tl_full := True\<rparr> else b)"

section \<open>Abstraction\<close>

definition telemetry_count :: "TelemetryRing \<Rightarrow> nat" where
  "telemetry_count b =
     (if tl_full b then 1024 else (unat (tl_head b) + 1024 - unat (tl_tail b)) mod 1024)"

definition telemetry_events :: "TelemetryRing \<Rightarrow> (u64 \<times> GateOResult) list" where
  "telemetry_events b =
     ring_view 1024 (zip (tl_timestamps b) (tl_results b)) (unat (tl_tail b)) (telemetry_count b)"

definition telemetry_inv :: "TelemetryRing \<Rightarrow> bool" where
  "telemetry_inv b \<longleftrightarrow> length (tl_timestamps b) = 1024 \<and> length (tl_results b) = 1024 \<and>
     unat (tl_head b) < 1024 \<and> unat (tl_tail b) < 1024 \<and> (tl_full b \<longrightarrow> tl_head b = tl_tail b)"

lemma unat_next_index:
  fixes i :: u32
  assumes "unat i < 1024"
  shows "unat ((i + 1) mod 1024) = Suc (unat i) mod 1024"
proof -
  have "unat (i + 1) = Suc (unat i)"
    using assms by (intro unat_Suc_word) (auto simp: unsigned_minus_1_eq_mask mask_eq_exp_minus_1)
  then show ?thesis by (simp add: unat_mod)
qed

text \<open>Pushing while the ring is not full appends; pushing on a full ring drops the oldest entry.\<close>

lemma telemetry_push_fields:
  assumes "telemetry_inv b"
  shows "zip (tl_timestamps (telemetry_push t r b)) (tl_results (telemetry_push t r b)) =
      (zip (tl_timestamps b) (tl_results b))[unat (tl_head b) := (t, r)]"
    and "unat (tl_head (telemetry_push t r b)) = Suc (unat (tl_head b)) mod 1024"
    and "unat (tl_tail (telemetry_push t r b)) =
      (if tl_full b then Suc (unat (tl_tail b)) mod 1024 else unat (tl_tail b))"
    and "tl_full (telemetry_push t r b) \<longleftrightarrow>
      tl_full b \<or> Suc (unat (tl_head b)) mod 1024 = unat (tl_tail b)"
  using assms unat_next_index [of "tl_head b"] unat_next_index [of "tl_tail b"]
  by (auto simp: telemetry_push_def telemetry_inv_def Let_def update_zip word_unat_eq_iff)

lemma telemetry_inv_push: "telemetry_inv b \<Longrightarrow> telemetry_inv (telemetry_push t r b)"
  using unat_next_index [of "tl_head b"] unat_next_index [of "tl_tail b"]
  by (auto simp: telemetry_push_def telemetry_inv_def Let_def word_unat_eq_iff)

lemma telemetry_not_full_count:
  assumes "telemetry_inv b" and "\<not> tl_full b"
  shows "telemetry_count b < 1024"
    and "unat (tl_head b) = (unat (tl_tail b) + telemetry_count b) mod 1024"
proof -
  let ?h = "unat (tl_head b)" and ?t = "unat (tl_tail b)"
  have bounds: "?h < 1024" "?t < 1024" using assms(1) by (simp_all add: telemetry_inv_def)
  then show "telemetry_count b < 1024" by (simp add: telemetry_count_def assms(2))
  have "(?t + (?h + 1024 - ?t) mod 1024) mod 1024 = (?t + (?h + 1024 - ?t)) mod 1024"
    by (rule mod_add_right_eq)
  also have "\<dots> = ?h" using bounds by simp
  finally show "?h = (?t + telemetry_count b) mod 1024" by (simp add: telemetry_count_def assms(2))
qed

lemma telemetry_count_push:
  assumes "telemetry_inv b"
  shows "telemetry_count (telemetry_push t r b) =
     (if tl_full b then 1024 else Suc (telemetry_count b))"
proof (cases "tl_full b")
  case True
  then show ?thesis by (simp add: telemetry_count_def telemetry_push_fields [OF assms])
next
  case False
  let ?h = "unat (tl_head b)" and ?t = "unat (tl_tail b)"
  have bounds: "?h < 1024" "?t < 1024" using assms by (simp_all add: telemetry_inv_def)
  have next_index: "Suc ?h mod 1024 < 1024" by simp
  have "Suc ?h mod 1024 = ?t \<Longrightarrow> Suc ((?h + 1024 - ?t) mod 1024) = 1024"
    using bounds by (auto simp only: ring_distance [OF bounds] ring_succ split: if_splits)
  moreover have "Suc ?h mod 1024 \<noteq> ?t \<Longrightarrow>
      (Suc ?h mod 1024 + 1024 - ?t) mod 1024 = Suc ((?h + 1024 - ?t) mod 1024)"
    unfolding ring_distance [OF bounds] ring_distance [OF next_index bounds(2)]
    using bounds by (auto simp: ring_succ)
  ultimately have "(if Suc ?h mod 1024 = ?t then 1024 else (Suc ?h mod 1024 + 1024 - ?t) mod 1024) =
      Suc ((?h + 1024 - ?t) mod 1024)" by simp
  then show ?thesis
    using False by (simp only: telemetry_count_def telemetry_push_fields [OF assms] simp_thms if_False)
qed

lemma telemetry_events_push:
  assumes "telemetry_inv b"
  shows "telemetry_events (telemetry_push t r b) =
     (if tl_full b then tl (telemetry_events b) else telemetry_events b) @ [(t, r)]"
proof (cases "tl_full b")
  case False
  let ?z = "zip (tl_timestamps b) (tl_results b)"
  have "ring_view 1024 (?z[(unat (tl_tail b) + telemetry_count b) mod 1024 := (t, r)])
      (unat (tl_tail b)) (Suc (telemetry_count b)) =
    ring_view 1024 ?z (unat (tl_tail b)) (telemetry_count b) @ [(t, r)]"
    using assms telemetry_not_full_count(1) [OF assms False]
    by (intro ring_view_push) (simp_all add: telemetry_inv_def)
  with False telemetry_not_full_count(2) [OF assms False] show ?thesis
    by (simp add: telemetry_events_def telemetry_push_fields [OF assms] telemetry_count_push [OF assms])
next
  case True
  let ?z = "zip (tl_timestamps b) (tl_results b)" and ?t = "unat (tl_tail b)"
  from True assms have h: "unat (tl_head b) = ?t" "?t < 1024" "length ?z = 1024"
    by (simp_all add: telemetry_inv_def)
  have last: "(Suc ?t mod 1024 + 1023) mod 1024 = ?t" using h(2) by (simp add: ring_succ)
  have "ring_view 1024 (?z[(Suc ?t mod 1024 + 1023) mod 1024 := (t, r)]) (Suc ?t mod 1024) (Suc 1023) =
      ring_view 1024 ?z (Suc ?t mod 1024) 1023 @ [(t, r)]"
    using h(3) by (intro ring_view_push) simp_all
  moreover have "ring_view 1024 ?z ?t (Suc 1023) = ?z ! (?t mod 1024) # ring_view 1024 ?z (Suc ?t mod 1024) 1023"
    by (rule ring_view_pop)
  ultimately show ?thesis
    using True by (simp add: telemetry_events_def telemetry_push_fields [OF assms]
        telemetry_count_push [OF assms] h(1) last telemetry_count_def [of b])
qed

lemma length_telemetry_events: "length (telemetry_events b) = telemetry_count b"
  by (simp add: telemetry_events_def)

lemma telemetry_count_bound: "telemetry_inv b \<Longrightarrow> telemetry_count b \<le> 1024"
  using telemetry_not_full_count(1) [of b] by (cases "tl_full b") (auto simp: telemetry_count_def)

interpretation telemetry: window_log "\<lambda>(t, r). telemetry_push t r" telemetry_events telemetry_inv 1024
proof unfold_locales
  fix b and x :: "u64 \<times> GateOResult"
  assume inv: "telemetry_inv b"
  obtain t r where x: "x = (t, r)" by fastforce
  show "telemetry_inv ((case x of (t, r) \<Rightarrow> telemetry_push t r) b)"
    using telemetry_inv_push [OF inv] by (simp add: x)
  show "telemetry_events ((case x of (t, r) \<Rightarrow> telemetry_push t r) b) =
      drop (Suc (length (telemetry_events b)) - 1024) (telemetry_events b @ [x])"
    using telemetry_not_full_count(1) [OF inv]
    by (cases "tl_full b")
      (simp_all add: x telemetry_events_push [OF inv] length_telemetry_events telemetry_count_def drop_Suc
        drop_Cons')
  show "length (telemetry_events b) \<le> 1024"
    using telemetry_count_bound [OF inv] by (simp add: length_telemetry_events)
qed

section \<open>Properties\<close>

text \<open>
  C15: The telemetry ring is exact: after pushing any sequence of verdicts into the zeroed
  buffer, reading from \<open>tail\<close> gives the latest 1024 of them (all of them while there are
  fewer), oldest first, and every array index used was in bounds.
\<close>

theorem telemetry_keeps_latest:
  "telemetry_events (fold (\<lambda>(t, r). telemetry_push t r) xs telemetry_zero) = drop (length xs - 1024) xs \<and>
   telemetry_inv (fold (\<lambda>(t, r). telemetry_push t r) xs telemetry_zero)"
proof -
  have inv: "telemetry_inv telemetry_zero" by (simp add: telemetry_inv_def telemetry_zero_def)
  moreover have "telemetry_events telemetry_zero = []"
    by (simp add: telemetry_events_def telemetry_count_def telemetry_zero_def ring_view_def)
  ultimately show ?thesis using telemetry.latest_entries [OF inv] telemetry.inv_fold [OF inv] by blast
qed

end
