(* ===== verification/Ring_Pool.thy ===== *)
theory Ring_Pool
  imports Store_Interface
begin

text \<open>
  \<open>src/mesh_sync.c\<close>: the message ring between one producer and one consumer, with the
  power-of-two index mask. One cell stays empty to tell a full ring from an empty one, so the ring holds at
  most 1023 messages.
\<close>

record ring_msg =
  msg_id :: u32
  msg_length :: u32
  msg_data :: bytes

text \<open>The pool, over the type of what its cells hold: \<open>ring_msg\<close>, or the bytes of one.\<close>

record 'm ring_pool =
  rp_head :: u32
  rp_tail :: u32
  rp_buffer :: "'m list"

abbreviation RING_CAPACITY :: "'a::numeral" where "RING_CAPACITY \<equiv> 1024"

definition ring_init :: "'m ring_pool \<Rightarrow> 'm ring_pool" where
  "ring_init pool = pool\<lparr>rp_head := 0, rp_tail := 0\<rparr>"

definition ring_push :: "'m \<Rightarrow> 'm ring_pool \<Rightarrow> bool \<times> 'm ring_pool" where
  "ring_push msg pool =
     (let next_head = (rp_head pool + 1) AND (RING_CAPACITY - 1) in
      if next_head = rp_tail pool then (False, pool)
      else (True, pool\<lparr>rp_buffer := (rp_buffer pool)[unat (rp_head pool) := msg], rp_head := next_head\<rparr>))"

definition ring_pop :: "'m ring_pool \<Rightarrow> 'm option \<times> 'm ring_pool" where
  "ring_pop pool =
     (if rp_tail pool = rp_head pool then (None, pool)
      else (Some (rp_buffer pool ! unat (rp_tail pool)),
            pool\<lparr>rp_tail := (rp_tail pool + 1) AND (RING_CAPACITY - 1)\<rparr>))"

section \<open>Abstraction\<close>

definition ring_count :: "'m ring_pool \<Rightarrow> nat" where
  "ring_count pool = (unat (rp_head pool) + 1024 - unat (rp_tail pool)) mod 1024"

definition ring_contents :: "'m ring_pool \<Rightarrow> 'm list" where
  "ring_contents pool = ring_view 1024 (rp_buffer pool) (unat (rp_tail pool)) (ring_count pool)"

definition ring_inv :: "'m ring_pool \<Rightarrow> bool" where
  "ring_inv pool \<longleftrightarrow> length (rp_buffer pool) = 1024 \<and> unat (rp_head pool) < 1024 \<and>
     unat (rp_tail pool) < 1024"

lemma unat_masked_next:
  fixes i :: u32
  assumes "unat i < 1024"
  shows "unat ((i + 1) AND 1023) = Suc (unat i) mod 1024"
proof -
  have "unat (i + 1) = Suc (unat i)"
    using assms by (intro unat_Suc_word) (auto simp: unsigned_minus_1_eq_mask mask_eq_exp_minus_1)
  moreover have "(1023 :: u32) = mask 10" by (simp add: mask_eq_exp_minus_1)
  then have "(i + 1) AND 1023 = (i + 1) mod 1024"
    by (simp only: take_bit_eq_mask [symmetric] take_bit_eq_mod) simp
  ultimately show ?thesis by (simp add: unat_mod)
qed

lemma ring_head_eq:
  assumes "ring_inv pool"
  shows "unat (rp_head pool) = (unat (rp_tail pool) + ring_count pool) mod 1024"
proof -
  have "unat (rp_head pool) < 1024" "unat (rp_tail pool) < 1024"
    using assms by (simp_all add: ring_inv_def)
  then show ?thesis by (simp add: ring_count_def mod_add_right_eq)
qed

text \<open>The push test compares indices; it holds exactly when 1023 messages are waiting.\<close>

lemma ring_index_facts:
  assumes "ring_inv pool"
  shows "Suc (unat (rp_head pool)) mod 1024 = unat (rp_tail pool) \<longleftrightarrow> ring_count pool = 1023"
    and "unat (rp_tail pool) = unat (rp_head pool) \<longleftrightarrow> ring_count pool = 0"
    and "ring_count pool < 1024"
proof -
  have b: "unat (rp_head pool) < 1024" "unat (rp_tail pool) < 1024"
    using assms by (simp_all add: ring_inv_def)
  show "Suc (unat (rp_head pool)) mod 1024 = unat (rp_tail pool) \<longleftrightarrow> ring_count pool = 1023"
    unfolding ring_count_def ring_distance [OF b] using b by (auto simp: ring_succ)
  show "unat (rp_tail pool) = unat (rp_head pool) \<longleftrightarrow> ring_count pool = 0"
    unfolding ring_count_def ring_distance [OF b] using b by auto
  show "ring_count pool < 1024" by (simp add: ring_count_def)
qed

lemma ring_count_next:
  assumes "h < 1024" and "t < 1024"
  shows "Suc h mod 1024 \<noteq> t \<Longrightarrow> (Suc h mod 1024 + 1024 - t) mod 1024 = Suc ((h + 1024 - t) mod 1024)"
    and "t \<noteq> h \<Longrightarrow> Suc ((h + 1024 - Suc t mod 1024) mod 1024) = (h + 1024 - t) mod 1024"
proof -
  have b: "Suc h mod 1024 < 1024" "Suc t mod 1024 < 1024" by simp_all
  show "Suc h mod 1024 \<noteq> t \<Longrightarrow> (Suc h mod 1024 + 1024 - t) mod 1024 = Suc ((h + 1024 - t) mod 1024)"
    unfolding ring_distance [OF assms] ring_distance [OF b(1) assms(2)]
    using assms by (auto simp: ring_succ)
  show "t \<noteq> h \<Longrightarrow> Suc ((h + 1024 - Suc t mod 1024) mod 1024) = (h + 1024 - t) mod 1024"
    unfolding ring_distance [OF assms] ring_distance [OF assms(1) b(2)]
    using assms by (auto simp: ring_succ)
qed

lemma ring_push_contents:
  assumes "ring_inv pool"
  shows "ring_inv (snd (ring_push m pool))"
    and "fst (ring_push m pool) \<longleftrightarrow> length (ring_contents pool) < 1023"
    and "ring_contents (snd (ring_push m pool)) =
      (if length (ring_contents pool) < 1023 then ring_contents pool @ [m] else ring_contents pool)"
proof -
  have b: "unat (rp_head pool) < 1024" "unat (rp_tail pool) < 1024" "length (rp_buffer pool) = 1024"
    using assms by (simp_all add: ring_inv_def)
  note next_head = unat_masked_next [OF b(1)] and idx = ring_index_facts [OF assms]
  have full: "(rp_head pool + 1) AND 1023 = rp_tail pool \<longleftrightarrow> ring_count pool = 1023"
    using idx(1) by (simp add: word_unat_eq_iff next_head)
  show "ring_inv (snd (ring_push m pool))"
    using assms by (simp add: ring_push_def Let_def ring_inv_def next_head)
  show "fst (ring_push m pool) \<longleftrightarrow> length (ring_contents pool) < 1023"
    using idx(3) by (simp add: ring_push_def Let_def full ring_contents_def)
  show "ring_contents (snd (ring_push m pool)) =
      (if length (ring_contents pool) < 1023 then ring_contents pool @ [m] else ring_contents pool)"
  proof (cases "ring_count pool = 1023")
    case True
    then show ?thesis by (simp add: ring_push_def Let_def full ring_contents_def)
  next
    case False
    let ?next = "pool\<lparr>rp_buffer := (rp_buffer pool)[unat (rp_head pool) := m],
                      rp_head := (rp_head pool + 1) AND 1023\<rparr>"
    have step: "snd (ring_push m pool) = ?next" using False full by (simp add: ring_push_def Let_def)
    have sel: "rp_head ?next = (rp_head pool + 1) AND 1023" "rp_tail ?next = rp_tail pool"
      by simp_all
    have "ring_count ?next = Suc (ring_count pool)"
      using False idx(1) ring_count_next(1) [OF b(1,2)]
      by (simp only: ring_count_def next_head sel simp_thms)
    moreover from this have "rp_buffer ?next =
        (rp_buffer pool)[(unat (rp_tail pool) + ring_count pool) mod 1024 := m]"
      using ring_head_eq [OF assms] by simp
    ultimately have "ring_contents (snd (ring_push m pool)) =
        ring_view 1024 ((rp_buffer pool)[(unat (rp_tail pool) + ring_count pool) mod 1024 := m])
          (unat (rp_tail pool)) (Suc (ring_count pool))"
      by (simp only: step ring_contents_def sel)
    with False idx(3) b(3) show ?thesis by (simp add: ring_view_push ring_contents_def)
  qed
qed

lemma ring_pop_contents:
  assumes "ring_inv pool"
  shows "ring_inv (snd (ring_pop pool)) \<and>
    (case ring_contents pool of
       [] \<Rightarrow> fst (ring_pop pool) = None \<and> ring_contents (snd (ring_pop pool)) = []
     | m # ms \<Rightarrow> fst (ring_pop pool) = Some m \<and> ring_contents (snd (ring_pop pool)) = ms)"
proof -
  have b: "unat (rp_head pool) < 1024" "unat (rp_tail pool) < 1024"
    using assms by (simp_all add: ring_inv_def)
  note next_tail = unat_masked_next [OF b(2)] and idx = ring_index_facts [OF assms]
  show ?thesis
  proof (cases "rp_tail pool = rp_head pool")
    case True
    then have "ring_contents pool = []" using idx(2) by (simp add: ring_contents_def ring_view_def)
    with True assms show ?thesis by (simp add: ring_pop_def)
  next
    case False
    then have ne: "unat (rp_tail pool) \<noteq> unat (rp_head pool)" by (simp add: word_unat_eq_iff)
    let ?n = "(unat (rp_head pool) + 1024 - Suc (unat (rp_tail pool)) mod 1024) mod 1024"
    have "ring_count pool = Suc ?n"
      using ring_count_next(2) [OF b ne] by (simp add: ring_count_def)
    then have "ring_contents pool = rp_buffer pool ! unat (rp_tail pool) #
        ring_view 1024 (rp_buffer pool) (Suc (unat (rp_tail pool)) mod 1024) ?n"
      using b(2) by (simp only: ring_contents_def ring_view_pop) simp
    with False assms show ?thesis
      by (simp add: ring_pop_def ring_inv_def next_tail ring_contents_def ring_count_def)
  qed
qed

interpretation ring: bounded_queue ring_push ring_pop ring_contents ring_inv 1023
  by (unfold_locales, intro conjI ring_push_contents, assumption+, rule ring_pop_contents, assumption)

section \<open>Properties\<close>

text \<open>The operations of the pool as one step function over a history of pushes and pops.\<close>

definition pool_step :: "'m queue_op \<Rightarrow> 'm ring_pool \<Rightarrow> 'm queue_reply \<times> 'm ring_pool" where
  "pool_step a pool = (case a of Push m \<Rightarrow> (let (ok, p) = ring_push m pool in (Pushed ok, p))
                              | Pop \<Rightarrow> (let (y, p) = ring_pop pool in (Popped y, p)))"

text \<open>
  C16: The message ring is a FIFO queue of capacity 1023: any history of pushes and pops on a
  freshly initialised ring of 1024 cells gets exactly the replies that a bounded list queue
  gives, so nothing is lost, duplicated or reordered, a push fails only when 1023 messages are waiting,
  and a pop only when none is.
\<close>

theorem ring_is_fifo:
  fixes pool :: "ring_msg ring_pool"
  assumes "length (rp_buffer pool) = 1024"
  shows "fst (replies pool_step ops (ring_init pool)) = fst (replies (list_queue_step 1023) ops [])"
proof -
  have inv: "ring_inv (ring_init pool)" using assms by (simp add: ring_inv_def ring_init_def)
  have empty: "ring_contents (ring_init pool) = []"
    by (simp add: ring_contents_def ring_count_def ring_init_def ring_view_def)
  have "ring.step = (pool_step :: ring_msg queue_op \<Rightarrow> _)" by (intro ext) (simp add: ring.step_def pool_step_def)
  with ring.replies_refine [OF inv, of ops] empty show ?thesis by simp
qed

theorem ring_is_fifo_witness:
  "fst (replies pool_step [Push \<lparr>msg_id = 1, msg_length = 0, msg_data = []\<rparr>, Pop, Pop]
      (ring_init \<lparr>rp_head = 7, rp_tail = 3,
         rp_buffer = replicate 1024 \<lparr>msg_id = 0, msg_length = 0, msg_data = []\<rparr>\<rparr>)) =
   [Pushed True, Popped (Some \<lparr>msg_id = 1, msg_length = 0, msg_data = []\<rparr>), Popped None]"
  by (subst ring_is_fifo) simp_all

end
