(* ===== verification/Heartbeat.thy ===== *)
theory Heartbeat
  imports Gate0_Header
begin

text \<open>
  \<open>src/heartbeat.c\<close> and \<open>src/heartbeat.h\<close>: the attestation check of a heartbeat packet. The clock
  difference is computed in signed 64-bit arithmetic, where overflow has no defined result; everything
  else is unsigned.
\<close>

section \<open>Data and the check\<close>

record HeartbeatPacket =
  hb_node_id :: bytes
  hb_sequence :: u64
  hb_timestamp_ns :: u64
  hb_interval_ms :: u32
  hb_signature :: bytes

record HeartbeatState =
  hs_last_seen_ns :: u64
  hs_sequence :: u64
  hs_miss_count :: u32

definition HB_MISS_LIMIT :: u64 where "HB_MISS_LIMIT = 2"
definition HB_WINDOW_NS :: int where "HB_WINDOW_NS = 5000000000"

definition heartbeat_init :: HeartbeatState where
  "heartbeat_init = \<lparr>hs_last_seen_ns = 0, hs_sequence = 0, hs_miss_count = 0\<rparr>"

text \<open>\<open>int64_t delta = (int64_t)now_ns - (int64_t)ts; if (delta < 0) delta = -delta;\<close>\<close>

definition representable :: "int \<Rightarrow> bool" where
  "representable d \<longleftrightarrow> - (2 ^ 63) \<le> d \<and> d < 2 ^ 63"

definition clock_distance :: "u64 \<Rightarrow> u64 \<Rightarrow> fault + int" where
  "clock_distance now ts =
     (let delta = sint now - sint ts in
      if \<not> representable delta then Inl SignedOverflow
      else if delta < 0 then (if representable (- delta) then Inr (- delta) else Inl SignedOverflow)
      else Inr delta)"

definition miss_window :: "HeartbeatPacket \<Rightarrow> u64" where
  "miss_window pkt = HB_MISS_LIMIT * ucast (hb_interval_ms pkt) * 1000000"

definition heartbeat_verify ::
    "HeartbeatPacket option \<Rightarrow> HeartbeatState option \<Rightarrow> u64 \<Rightarrow>
     fault + GateOResult \<times> HeartbeatState option" where
  "heartbeat_verify pkt state now =
     (case (pkt, state) of
        (Some p, Some s) \<Rightarrow>
          (case clock_distance now (hb_timestamp_ns p) of
             Inl f \<Rightarrow> Inl f
           | Inr delta \<Rightarrow>
               if HB_WINDOW_NS < delta then Inr (GO_EXPIRED, Some s)
               else if hs_last_seen_ns s \<noteq> 0 \<and> hb_sequence p \<le> hs_sequence s
               then Inr (GO_SEQUENCE_INVALID, Some s)
               else
                 let gap_ns = now - hs_last_seen_ns s in
                 if hs_last_seen_ns s \<noteq> 0 \<and> miss_window p < gap_ns
                 then Inr (GO_HEARTBEAT_MISSED, Some (s\<lparr>hs_miss_count := hs_miss_count s + 1\<rparr>))
                 else Inr (GO_HEARTBEAT_OK,
                           Some (s\<lparr>hs_last_seen_ns := now, hs_sequence := hb_sequence p, hs_miss_count := 0\<rparr>)))
      | _ \<Rightarrow> Inr (GO_HEARTBEAT_INVALID, state))"

section \<open>Arithmetic\<close>

lemma clock_distance_near:
  assumes "\<bar>sint now - sint ts\<bar> < 2 ^ 63"
  shows "clock_distance now ts = Inr \<bar>sint now - sint ts\<bar>"
  using assms by (auto simp: clock_distance_def representable_def Let_def)

lemma clock_distance_Inr:
  "clock_distance now ts = Inr d \<Longrightarrow> d = \<bar>sint now - sint ts\<bar>"
  by (auto simp: clock_distance_def Let_def split: if_splits)

text \<open>The window computation never wraps: a 32-bit interval times 2000000 fits in 64 bits.\<close>

lemma unat_miss_window: "unat (miss_window pkt) = 2000000 * unat (hb_interval_ms pkt)"
proof -
  let ?i = "hb_interval_ms pkt"
  have i: "unat ?i < 2 ^ 32" using unsigned_less [of ?i, where 'a = nat] by simp
  then have "unat (ucast ?i :: u64) = unat ?i" by (simp add: unsigned_ucast_eq take_bit_nat_eq_self)
  with i show ?thesis by (simp add: miss_window_def HB_MISS_LIMIT_def unat_word_ariths)
qed

lemma heartbeat_verify_ok:
  "heartbeat_verify (Some p) (Some s) now = Inr (GO_HEARTBEAT_OK, t) \<longleftrightarrow>
     (\<exists>d. clock_distance now (hb_timestamp_ns p) = Inr d \<and> d \<le> HB_WINDOW_NS) \<and>
     (hs_last_seen_ns s = 0 \<or> hs_sequence s < hb_sequence p \<and> now - hs_last_seen_ns s \<le> miss_window p) \<and>
     t = Some (s\<lparr>hs_last_seen_ns := now, hs_sequence := hb_sequence p, hs_miss_count := 0\<rparr>)"
  by (auto simp: heartbeat_verify_def Let_def not_less not_le split: sum.splits)

lemma heartbeat_verify_state:
  assumes "heartbeat_verify (Some p) (Some s) now = Inr (r, t)"
  shows "r = GO_HEARTBEAT_OK \<or>
     (\<exists>s'. t = Some s' \<and> hs_last_seen_ns s' = hs_last_seen_ns s \<and> hs_sequence s' = hs_sequence s)"
  using assms by (auto simp: heartbeat_verify_def Let_def split: sum.splits if_splits)

section \<open>Runs\<close>

text \<open>The packets of one node checked in turn, each with the clock reading it is checked at.\<close>

primrec heartbeat_run ::
    "HeartbeatState \<Rightarrow> (HeartbeatPacket \<times> u64) list \<Rightarrow> fault + GateOResult list \<times> HeartbeatState" where
  "heartbeat_run s [] = Inr ([], s)"
| "heartbeat_run s (x # xs) =
     (case heartbeat_verify (Some (fst x)) (Some s) (snd x) of
        Inl f \<Rightarrow> Inl f
      | Inr (r, t) \<Rightarrow>
          (case heartbeat_run (the t) xs of Inl f \<Rightarrow> Inl f | Inr (rs, u) \<Rightarrow> Inr (r # rs, u)))"

text \<open>A packet is late when the gap since the last accepted one exceeds the window it claims.\<close>

definition late :: "HeartbeatState \<Rightarrow> HeartbeatPacket \<times> u64 \<Rightarrow> bool" where
  "late s x \<longleftrightarrow> hs_last_seen_ns s \<noteq> 0 \<and>
     2000000 * unat (hb_interval_ms (fst x)) < unat (snd x - hs_last_seen_ns s)"

lemma late_not_ok:
  assumes "late s x"
  shows "heartbeat_verify (Some (fst x)) (Some s) (snd x) \<noteq> Inr (GO_HEARTBEAT_OK, t)"
  using assms by (auto simp: heartbeat_verify_ok late_def word_le_nat_alt unat_miss_window)

section \<open>Properties\<close>

text \<open>
  A heartbeat is accepted exactly when the clock difference has a defined value of at most five
  seconds and either it is the first one or its number is above the last and the gap since the last is at most
  twice the interval (in milliseconds) it claims; acceptance records the time and the number. The
  window is computed without wrap-around for every interval.
\<close>

theorem heartbeat_accept_iff:
  "heartbeat_verify (Some p) (Some s) now = Inr (GO_HEARTBEAT_OK, t) \<longleftrightarrow>
     \<bar>sint now - sint (hb_timestamp_ns p)\<bar> \<le> 5000000000 \<and>
     (hs_last_seen_ns s = 0 \<or>
      hs_sequence s < hb_sequence p \<and>
      unat (now - hs_last_seen_ns s) \<le> 2 * 1000000 * unat (hb_interval_ms p)) \<and>
     t = Some (s\<lparr>hs_last_seen_ns := now, hs_sequence := hb_sequence p, hs_miss_count := 0\<rparr>)"
proof -
  have "(\<exists>d. clock_distance now (hb_timestamp_ns p) = Inr d \<and> d \<le> HB_WINDOW_NS) \<longleftrightarrow>
      \<bar>sint now - sint (hb_timestamp_ns p)\<bar> \<le> 5000000000"
  proof
    assume "\<bar>sint now - sint (hb_timestamp_ns p)\<bar> \<le> 5000000000"
    then show "\<exists>d. clock_distance now (hb_timestamp_ns p) = Inr d \<and> d \<le> HB_WINDOW_NS"
      using clock_distance_near [of now "hb_timestamp_ns p"] by (simp add: HB_WINDOW_NS_def)
  qed (auto dest: clock_distance_Inr simp: HB_WINDOW_NS_def)
  then show ?thesis
    by (simp add: heartbeat_verify_ok word_le_nat_alt unat_miss_window)
qed

text \<open>
  The heartbeat is not authenticated: the outcome and the new state are the same whatever
  node identity and signature the packet carries.
\<close>

theorem heartbeat_ignores_signature:
  "heartbeat_verify (Some (p\<lparr>hb_node_id := n, hb_signature := sg\<rparr>)) s now = heartbeat_verify (Some p) s now"
  by (cases s; cases "clock_distance now (hb_timestamp_ns p)")
    (simp_all add: heartbeat_verify_def miss_window_def Let_def)

text \<open>
  A missed heartbeat is never recovered from: as long as the packets keep
  claiming an interval whose window the gap has already exceeded, no packet of any run is
  accepted again and the record of the last accepted one never moves, because a late packet
  does not restart the gap.
\<close>

theorem heartbeat_late_forever:
  assumes "list_all (late s) xs" and "heartbeat_run s xs = Inr (rs, t)"
  shows "GO_HEARTBEAT_OK \<notin> set rs \<and> hs_last_seen_ns t = hs_last_seen_ns s"
  using assms
proof (induction xs arbitrary: s rs)
  case (Cons x xs)
  from Cons.prems(2) obtain r u rs' where
    step: "heartbeat_verify (Some (fst x)) (Some s) (snd x) = Inr (r, u)"
    and rest: "heartbeat_run (the u) xs = Inr (rs', t)" and rs: "rs = r # rs'"
    by (auto split: sum.splits)
  from Cons.prems(1) step have r: "r \<noteq> GO_HEARTBEAT_OK" using late_not_ok by fastforce
  with heartbeat_verify_state [OF step]
  have same: "hs_last_seen_ns (the u) = hs_last_seen_ns s" by auto
  with Cons.prems(1) have "list_all (late (the u)) xs" by (simp add: late_def list_all_iff)
  from Cons.IH [OF this rest] r same rs show ?case by simp
qed simp

theorem heartbeat_late_forever_witness:
  "GO_HEARTBEAT_OK \<notin> set [GO_HEARTBEAT_MISSED, GO_HEARTBEAT_MISSED] \<and>
   hs_last_seen_ns \<lparr>hs_last_seen_ns = 1, hs_sequence = 4, hs_miss_count = 2\<rparr> = 1"
proof -
  let ?p = "\<lambda>n t. \<lparr>hb_node_id = [], hb_sequence = n, hb_timestamp_ns = t, hb_interval_ms = 2000,
               hb_signature = []\<rparr>"
  let ?s = "\<lparr>hs_last_seen_ns = 1, hs_sequence = 4, hs_miss_count = 0\<rparr>"
  let ?xs = "[(?p 5 4000000002, 4000000002), (?p 6 6000000002, 6000000002)]"
  have "list_all (late ?s) ?xs" by (simp add: late_def)
  moreover have "heartbeat_run ?s ?xs =
      Inr ([GO_HEARTBEAT_MISSED, GO_HEARTBEAT_MISSED],
           \<lparr>hs_last_seen_ns = 1, hs_sequence = 4, hs_miss_count = 2\<rparr>)"
    by (simp add: heartbeat_verify_def clock_distance_def representable_def miss_window_def
        HB_MISS_LIMIT_def HB_WINDOW_NS_def Let_def)
  ultimately show ?thesis using heartbeat_late_forever [of ?s ?xs] by simp
qed

end
