(* ===== verification/State_Engine.thy ===== *)
theory State_Engine
  imports Gate0_Prelude
begin

text \<open>
  \<open>state_engine.c\<close> and \<open>dark_controller.c\<close>: the controller's mode automaton and the component that
  falls silent when the controller is in trouble. Clock readings are arguments: an event that makes two transitions reads the clock
  twice. The joint system is a step relation, whose steps are the calls of the two headers; the facts about whole executions are
  inductions over it.
\<close>

section \<open>The state engine\<close>

datatype ControllerState = STATE_INIT | STATE_ACTIVE | STATE_DEGRADED | STATE_FAILSAFE | STATE_LOCKOUT

datatype StateEvent =
    EVT_HEARTBEAT_OK | EVT_HEARTBEAT_MISS | EVT_THREAT_HIGH | EVT_THREAT_CRITICAL
  | EVT_PROXY_RESTORED | EVT_MANUAL_RESET

record StateEngine =
  current :: ControllerState
  previous :: ControllerState
  entered_at_ns :: u64
  heartbeat_misses :: u32
  transition_count :: u32
  lockout_hard :: bool

definition transition :: "ControllerState \<Rightarrow> u64 \<Rightarrow> StateEngine \<Rightarrow> StateEngine" where
  "transition next_state now s =
     s\<lparr>previous := current s, current := next_state, entered_at_ns := now,
       transition_count := transition_count s + 1\<rparr>"

definition state_init :: "u64 \<Rightarrow> StateEngine" where
  "state_init now = \<lparr>current = STATE_INIT, previous = STATE_INIT, entered_at_ns = now,
     heartbeat_misses = 0, transition_count = 0, lockout_hard = False\<rparr>"

definition state_event :: "StateEvent \<Rightarrow> u64 \<Rightarrow> u64 \<Rightarrow> StateEngine \<Rightarrow> StateEngine" where
  "state_event e t1 t2 s =
     (if lockout_hard s then s
      else (case e of
        EVT_HEARTBEAT_OK \<Rightarrow>
          (let s = s\<lparr>heartbeat_misses := 0\<rparr>
           in if current s = STATE_DEGRADED \<or> current s = STATE_INIT then transition STATE_ACTIVE t1 s else s)
      | EVT_HEARTBEAT_MISS \<Rightarrow>
          (let s = s\<lparr>heartbeat_misses := heartbeat_misses s + 1\<rparr>;
               s = (if heartbeat_misses s \<ge> 3 then transition STATE_DEGRADED t1 s else s)
           in if heartbeat_misses s \<ge> 6 then transition STATE_FAILSAFE t2 s else s)
      | EVT_THREAT_HIGH \<Rightarrow>
          (if current s = STATE_ACTIVE then transition STATE_DEGRADED t1 s else s)
      | EVT_THREAT_CRITICAL \<Rightarrow> (transition STATE_LOCKOUT t1 s)\<lparr>lockout_hard := True\<rparr>
      | EVT_PROXY_RESTORED \<Rightarrow>
          (if current s \<noteq> STATE_LOCKOUT then transition STATE_ACTIVE t1 s else s)
      | EVT_MANUAL_RESET \<Rightarrow>
          transition STATE_INIT t1 (s\<lparr>lockout_hard := False, heartbeat_misses := 0\<rparr>)))"

text \<open>The argument \<open>now\<close> of the C function is unused; \<open>t\<close> is what \<open>transition\<close> reads from the clock.\<close>

definition state_tick :: "u64 \<Rightarrow> u64 \<Rightarrow> StateEngine \<Rightarrow> StateEngine" where
  "state_tick now t s =
     (if current s = STATE_FAILSAFE \<and> heartbeat_misses s \<ge> 10
      then transition STATE_LOCKOUT t (s\<lparr>lockout_hard := True\<rparr>) else s)"

definition state_allows_command :: "StateEngine \<Rightarrow> bool" where
  "state_allows_command s \<longleftrightarrow> current s = STATE_ACTIVE"

lemma transition_simps [simp]:
  "current (transition n t s) = n" "heartbeat_misses (transition n t s) = heartbeat_misses s"
  "lockout_hard (transition n t s) = lockout_hard s"
  by (simp_all add: transition_def)

section \<open>The dark controller\<close>

datatype DarkMode = DARK_OFF | DARK_ON | DARK_HARD

record DarkController =
  dark_mode :: DarkMode
  activated_at_ns :: u64
  packets_suppressed :: u64
  trigger_count :: u32
  silent_on_error :: u8

definition dark_init :: DarkController where
  "dark_init = \<lparr>dark_mode = DARK_OFF, activated_at_ns = 0, packets_suppressed = 0, trigger_count = 0,
     silent_on_error = 0\<rparr>"

definition dark_activate :: "DarkMode \<Rightarrow> u64 \<Rightarrow> DarkController \<Rightarrow> DarkController" where
  "dark_activate m now d =
     d\<lparr>dark_mode := m, activated_at_ns := now, trigger_count := trigger_count d + 1\<rparr>"

definition dark_deactivate :: "DarkController \<Rightarrow> DarkController" where
  "dark_deactivate d = d\<lparr>dark_mode := DARK_OFF, activated_at_ns := 0\<rparr>"

definition dark_should_suppress :: "DarkController \<Rightarrow> int \<times> DarkController" where
  "dark_should_suppress d =
     (if dark_mode d = DARK_OFF then (0, d)
      else (1, d\<lparr>packets_suppressed := packets_suppressed d + 1\<rparr>))"

definition dark_tick :: "u64 \<Rightarrow> StateEngine \<Rightarrow> DarkController \<Rightarrow> DarkController" where
  "dark_tick now s d =
     (if current s = STATE_LOCKOUT then dark_activate DARK_HARD now d
      else if current s = STATE_FAILSAFE \<or> current s = STATE_DEGRADED then
        (if dark_mode d = DARK_OFF then dark_activate DARK_ON now d else d)
      else if current s = STATE_ACTIVE \<and> dark_mode d = DARK_ON then dark_deactivate d
      else d)"

lemma dark_tick_mode:
  "dark_mode (dark_tick now s d) =
     (if current s = STATE_LOCKOUT then DARK_HARD
      else if current s = STATE_FAILSAFE \<or> current s = STATE_DEGRADED then
        (if dark_mode d = DARK_OFF then DARK_ON else dark_mode d)
      else if current s = STATE_ACTIVE \<and> dark_mode d = DARK_ON then DARK_OFF
      else dark_mode d)"
  by (simp add: dark_tick_def dark_activate_def dark_deactivate_def)

lemma dark_suppress_mode [simp]: "dark_mode (snd (dark_should_suppress d)) = dark_mode d"
  by (simp add: dark_should_suppress_def)


section \<open>The joint system\<close>

type_synonym controller = "StateEngine \<times> DarkController"

inductive sys_step :: "controller \<Rightarrow> controller \<Rightarrow> bool" where
  event: "sys_step (s, d) (state_event e t1 t2 s, d)"
| tick: "sys_step (s, d) (state_tick now t s, d)"
| dark: "sys_step (s, d) (s, dark_tick t s d)"
| suppress: "sys_step (s, d) (s, snd (dark_should_suppress d))"
| activate: "sys_step (s, d) (s, dark_activate m t d)"
| deactivate: "sys_step (s, d) (s, dark_deactivate d)"
| init: "sys_step (s, d) (s, dark_init)"

inductive_cases sys_step_cases: "sys_step (s, d) c"

definition sys_init :: "u64 \<Rightarrow> controller" where
  "sys_init now = (state_init now, dark_init)"

text \<open>The same steps as calls of the two headers: everything \<open>dark_controller.h\<close> declares but the print-out, and the
  engine's event and tick. \<open>state_init\<close> is called once, by \<open>sys_init\<close>.\<close>

datatype api_call =
    Call_event StateEvent u64 u64
  | Call_tick u64 u64
  | Call_dark_tick u64
  | Call_should_suppress
  | Call_activate DarkMode u64
  | Call_deactivate
  | Call_dark_init

fun controller_call :: "api_call \<Rightarrow> controller \<Rightarrow> controller" where
  "controller_call (Call_event e t1 t2) (s, d) = (state_event e t1 t2 s, d)"
| "controller_call (Call_tick now t) (s, d) = (state_tick now t s, d)"
| "controller_call (Call_dark_tick t) (s, d) = (s, dark_tick t s d)"
| "controller_call Call_should_suppress (s, d) = (s, snd (dark_should_suppress d))"
| "controller_call (Call_activate m t) (s, d) = (s, dark_activate m t d)"
| "controller_call Call_deactivate (s, d) = (s, dark_deactivate d)"
| "controller_call Call_dark_init (s, d) = (s, dark_init)"

definition controller_calls :: "api_call list \<Rightarrow> controller \<Rightarrow> controller" where
  "controller_calls cs c = fold controller_call cs c"

lemma controller_calls_simps [simp]:
  "controller_calls [] c = c"
  "controller_calls (x # cs) c = controller_calls cs (controller_call x c)"
  "controller_calls (cs @ ds) c = controller_calls ds (controller_calls cs c)"
  by (simp_all add: controller_calls_def)




text \<open>Being locked out, and the invariant that ties the flag to the mode.\<close>

definition locked :: "StateEngine \<Rightarrow> bool" where
  "locked s \<longleftrightarrow> current s = STATE_LOCKOUT \<and> lockout_hard s"

definition engine_inv :: "StateEngine \<Rightarrow> bool" where
  "engine_inv s \<longleftrightarrow> (lockout_hard s \<longleftrightarrow> current s = STATE_LOCKOUT)"

lemma engine_inv_init: "engine_inv (state_init now)"
  by (simp add: engine_inv_def state_init_def)

lemma engine_inv_event: "engine_inv s \<Longrightarrow> engine_inv (state_event e t1 t2 s)"
  by (cases e) (auto simp: engine_inv_def state_event_def Let_def)

lemma engine_inv_tick: "engine_inv s \<Longrightarrow> engine_inv (state_tick now t s)"
  by (auto simp: engine_inv_def state_tick_def)

lemma locked_event: "locked s \<Longrightarrow> state_event e t1 t2 s = s"
  by (simp add: locked_def state_event_def)

lemma locked_tick: "locked s \<Longrightarrow> state_tick now t s = s"
  by (simp add: locked_def state_tick_def)

lemma engine_inv_steps: "sys_step\<^sup>*\<^sup>* c c' \<Longrightarrow> engine_inv (fst c) \<Longrightarrow> engine_inv (fst c')"
proof (induction rule: rtranclp_induct)
  case (step y z)
  from step.hyps(2) step.IH [OF step.prems] show ?case
    by (cases rule: sys_step.cases) (simp_all add: engine_inv_event engine_inv_tick)
qed simp

lemma locked_steps: "sys_step\<^sup>*\<^sup>* c c' \<Longrightarrow> locked (fst c) \<Longrightarrow> fst c' = fst c"
proof (induction rule: rtranclp_induct)
  case (step y z)
  from step.hyps(2) step.IH [OF step.prems] step.prems show ?case
    by (cases rule: sys_step.cases) (auto simp: locked_event locked_tick)
qed simp




section \<open>Heartbeat accounting\<close>

primrec miss_run :: "(u64 \<times> u64) list \<Rightarrow> StateEngine \<Rightarrow> StateEngine" where
  "miss_run [] s = s"
| "miss_run (c # cs) s = miss_run cs (state_event EVT_HEARTBEAT_MISS (fst c) (snd c) s)"

lemma miss_run_snoc:
  "miss_run (cs @ [c]) s = state_event EVT_HEARTBEAT_MISS (fst c) (snd c) (miss_run cs s)"
  by (induction cs arbitrary: s) simp_all

lemma miss_run_spec:
  assumes "\<not> lockout_hard s" and "heartbeat_misses s = 0" and "length cs < 2 ^ 32"
  shows "\<not> lockout_hard (miss_run cs s) \<and> unat (heartbeat_misses (miss_run cs s)) = length cs \<and>
     current (miss_run cs s) =
       (if 6 \<le> length cs then STATE_FAILSAFE else if 3 \<le> length cs then STATE_DEGRADED else current s)"
  using assms(3)
proof (induction cs rule: rev_induct)
  case Nil
  then show ?case using assms(1,2) by simp
next
  case (snoc c cs)
  let ?r = "miss_run cs s"
  have IH: "\<not> lockout_hard ?r" "unat (heartbeat_misses ?r) = length cs"
    "current ?r = (if 6 \<le> length cs then STATE_FAILSAFE else if 3 \<le> length cs then STATE_DEGRADED else current s)"
    using snoc by simp_all
  have "unat (heartbeat_misses ?r + 1) = Suc (length cs)"
    using snoc.prems IH(2) by (subst unat_Suc_word) (auto simp: unsigned_minus_1_eq_mask mask_eq_exp_minus_1)
  then show ?case
    using IH by (simp add: miss_run_snoc state_event_def Let_def word_le_nat_alt)
qed

section \<open>Properties\<close>

text \<open>in every reachable configuration the hard lockout flag is set exactly in the lockout state.\<close>

theorem lockout_flag_iff_state:
  "sys_step\<^sup>*\<^sup>* (sys_init now) (s, d) \<Longrightarrow> lockout_hard s \<longleftrightarrow> current s = STATE_LOCKOUT"
  using engine_inv_steps [of "sys_init now" "(s, d)"] engine_inv_init [of now]
  by (simp add: sys_init_def engine_inv_def)

theorem lockout_flag_iff_state_witness:
  "lockout_hard (state_event EVT_THREAT_CRITICAL 1 1 (state_init 0)) \<longleftrightarrow>
   current (state_event EVT_THREAT_CRITICAL 1 1 (state_init 0)) = STATE_LOCKOUT"
  by (rule lockout_flag_iff_state [of 0 _ dark_init])
    (auto simp: sys_init_def intro: sys_step.event)

text \<open>C18: lockout is final. Once a critical threat has been reported no sequence of events and ticks
  leaves the lockout state, a manual reset included, and no command is allowed again.\<close>

theorem critical_threat_is_final:
  assumes "sys_step\<^sup>*\<^sup>* (sys_init now) (s, d)"
    and "sys_step\<^sup>*\<^sup>* (state_event EVT_THREAT_CRITICAL t1 t2 s, d) (s', d')"
  shows "current s' = STATE_LOCKOUT \<and> \<not> state_allows_command s' \<and>
     state_event EVT_MANUAL_RESET t3 t4 s' = s'"
proof -
  have "engine_inv s"
    using engine_inv_steps [OF assms(1)] engine_inv_init by (simp add: sys_init_def)
  then have "locked (state_event EVT_THREAT_CRITICAL t1 t2 s)"
    by (auto simp: locked_def engine_inv_def state_event_def)
  with locked_steps [OF assms(2)] have "locked s'" by simp
  then show ?thesis by (simp add: locked_event) (simp add: locked_def state_allows_command_def)
qed

theorem critical_threat_is_final_witness:
  "\<not> state_allows_command (state_event EVT_MANUAL_RESET 2 2
     (state_event EVT_THREAT_CRITICAL 1 1 (state_init 0)))"
proof -
  have start: "sys_step\<^sup>*\<^sup>* (sys_init 0) (state_init 0, dark_init)" by (simp add: sys_init_def)
  have "sys_step\<^sup>*\<^sup>* (state_event EVT_THREAT_CRITICAL 1 1 (state_init 0), dark_init)
      (state_event EVT_MANUAL_RESET 2 2 (state_event EVT_THREAT_CRITICAL 1 1 (state_init 0)), dark_init)"
    by (blast intro: sys_step.event)
  from critical_threat_is_final [OF start this] show ?thesis by blast
qed

text \<open>heartbeat escalation. From a state with no recorded misses, \<open>n\<close> missed heartbeats in a row
  leave the mode alone below 3, degrade it from 3 on, put it in failsafe from 6 on, and a tick after at least
  10 locks the controller out.\<close>

theorem heartbeat_escalation:
  assumes "\<not> lockout_hard s" and "heartbeat_misses s = 0" and "length cs < 2 ^ 32"
  shows "current (miss_run cs s) =
       (if 6 \<le> length cs then STATE_FAILSAFE else if 3 \<le> length cs then STATE_DEGRADED else current s) \<and>
     (10 \<le> length cs \<longleftrightarrow> locked (state_tick now t (miss_run cs s)))"
  using miss_run_spec [OF assms] by (auto simp: state_tick_def locked_def word_le_nat_alt)

theorem heartbeat_escalation_witness:
  "locked (state_tick 0 0 (miss_run (replicate 10 (1, 2)) (state_init 0)))"
  by (rule heartbeat_escalation [THEN conjunct2, THEN iffD1]) (simp_all add: state_init_def)

text \<open>failsafe can be left without repair. From any failsafe state that is not locked, one heartbeat, three
  missed ones and another heartbeat make the controller active: misses move it from failsafe
  to the milder degraded state.\<close>

theorem failsafe_escape:
  assumes "current s = STATE_FAILSAFE" and "\<not> lockout_hard s"
  shows "state_allows_command (state_event EVT_HEARTBEAT_OK t5 u5
     (miss_run [(t2, u2), (t3, u3), (t4, u4)] (state_event EVT_HEARTBEAT_OK t1 u1 s)))"
proof -
  let ?s = "state_event EVT_HEARTBEAT_OK t1 u1 s"
  let ?r = "miss_run [(t2, u2), (t3, u3), (t4, u4)] ?s"
  have "\<not> lockout_hard ?s" "heartbeat_misses ?s = 0" using assms by (simp_all add: state_event_def Let_def)
  then have "\<not> lockout_hard ?r" "current ?r = STATE_DEGRADED"
    using miss_run_spec [of ?s "[(t2, u2), (t3, u3), (t4, u4)]"] by simp_all
  then show ?thesis by (simp add: state_event_def Let_def state_allows_command_def)
qed

theorem failsafe_escape_witness:
  "state_allows_command (state_event EVT_HEARTBEAT_OK 0 0
     (miss_run [(0, 0), (0, 0), (0, 0)] (state_event EVT_HEARTBEAT_OK 0 0 (miss_run (replicate 6 (0, 0)) (state_init 0)))))"
  by (rule failsafe_escape) (code_simp, code_simp)

text \<open>a direct call ends the silence of a lockout. \<open>dark_deactivate\<close> does not look at the engine: called in lockout, it
  lets packets through until the next dark tick, which nothing in the two files makes happen.\<close>

theorem lockout_deactivate_ends:
  assumes "current s = STATE_LOCKOUT"
  shows "fst (dark_should_suppress (dark_deactivate (dark_tick t s d))) = 0 \<and>
    fst (dark_should_suppress (dark_tick u s (dark_deactivate (dark_tick t s d)))) = 1"
  using assms by (simp add: dark_should_suppress_def dark_tick_mode) (simp add: dark_deactivate_def)



end
