(* ===== verification/Shadow.thy ===== *)
theory Shadow
  imports Gate0_Prelude "HOL-Library.Multiset"
begin

text \<open>
  \<open>shadow.c\<close>, \<open>shadow.h\<close>: the table of attackers that are fed decoys. A pointer into the table is an
  index; clock readings are arguments. \<open>shadow_lookup\<close> is written with the braces the C source
  does not have: the \<open>return\<close> belongs to the loop body, not to the \<open>if\<close>.
\<close>

datatype AttackPattern =
    ATTACK_NONE | ATTACK_SIG_FLOOD | ATTACK_SEQ_PROBE | ATTACK_REPLAY | ATTACK_MALFORMED
  | ATTACK_RESOURCE_EXHAUST

record sockaddr_in =
  sin_family :: u16
  sin_port :: u16
  sin_addr :: u32

record ShadowEntry =
  attacker_addr :: sockaddr_in
  attempt_count :: u32
  first_seen_ns :: u64
  last_seen_ns :: u64
  pattern :: AttackPattern
  shadow_active :: bool
  geo_ip :: bytes
  shadow_envelope :: bytes
  decoy_seq :: u32
  decoy_issued_ns :: u64
  tarpit_fd :: int
  refcount :: u32

definition SHADOW_TABLE_MAX :: nat where "SHADOW_TABLE_MAX = 256"
definition TARPIT_DELAY_NS :: u64 where "TARPIT_DELAY_NS = 2000000000"

definition zero_shadow_entry :: ShadowEntry where
  "zero_shadow_entry = \<lparr>attacker_addr = \<lparr>sin_family = 0, sin_port = 0, sin_addr = 0\<rparr>, attempt_count = 0,
     first_seen_ns = 0, last_seen_ns = 0, pattern = ATTACK_NONE, shadow_active = False,
     geo_ip = replicate 64 0, shadow_envelope = replicate 374 0, decoy_seq = 0, decoy_issued_ns = 0,
     tarpit_fd = 0, refcount = 0\<rparr>"

record ShadowTable =
  sh_table :: "ShadowEntry list"
  table_count :: nat

definition shadow_init :: ShadowTable where
  "shadow_init = \<lparr>sh_table = replicate 256 zero_shadow_entry, table_count = 0\<rparr>"

definition update_entry :: "nat \<Rightarrow> (ShadowEntry \<Rightarrow> ShadowEntry) \<Rightarrow> ShadowTable \<Rightarrow> ShadowTable" where
  "update_entry i f t = t\<lparr>sh_table := (sh_table t)[i := f (sh_table t ! i)]\<rparr>"

definition shadow_entry_get :: "ShadowEntry \<Rightarrow> ShadowEntry" where
  "shadow_entry_get e = e\<lparr>refcount := refcount e + 1\<rparr>"

definition shadow_entry_put :: "ShadowEntry \<Rightarrow> ShadowEntry" where
  "shadow_entry_put e = e\<lparr>refcount := refcount e - 1\<rparr>"

definition shadow_lookup :: "sockaddr_in \<Rightarrow> ShadowTable \<Rightarrow> nat option \<times> ShadowTable" where
  "shadow_lookup addr t =
     (let i = 0 in
      if i < table_count t then
        (let t = (if sin_addr (attacker_addr (sh_table t ! i)) = sin_addr addr
                  then update_entry i shadow_entry_get t else t)
         in (Some i, t))
      else (None, t))"

definition shadow_register :: "sockaddr_in \<Rightarrow> AttackPattern \<Rightarrow> u64 \<Rightarrow> ShadowTable \<Rightarrow> nat option \<times> ShadowTable" where
  "shadow_register addr p now t =
     (if table_count t \<ge> SHADOW_TABLE_MAX then (None, t)
      else let i = table_count t;
               e = zero_shadow_entry\<lparr>attacker_addr := addr, pattern := p, shadow_active := True,
                     tarpit_fd := -1, first_seen_ns := now, last_seen_ns := now, attempt_count := 1\<rparr>
           in (Some i, t\<lparr>sh_table := (sh_table t)[i := e], table_count := i + 1\<rparr>))"

definition feed_entry :: "u64 \<Rightarrow> ShadowEntry \<Rightarrow> ShadowEntry" where
  "feed_entry now e =
     (if \<not> shadow_active e then e
      else e\<lparr>last_seen_ns := now, decoy_issued_ns := now, decoy_seq := decoy_seq e + 1,
             shadow_envelope := replicate 374 0xAA\<rparr>)"

definition shadow_feed_decoy :: "u64 \<Rightarrow> nat option \<Rightarrow> ShadowTable \<Rightarrow> ShadowTable" where
  "shadow_feed_decoy now p t = (case p of None \<Rightarrow> t | Some i \<Rightarrow> update_entry i (feed_entry now) t)"

definition shadow_expired :: "u64 \<Rightarrow> ShadowEntry \<Rightarrow> bool" where
  "shadow_expired now e \<longleftrightarrow> now - last_seen_ns e > TARPIT_DELAY_NS \<and> refcount e = 0"

function evict_loop :: "u64 \<Rightarrow> nat \<Rightarrow> ShadowTable \<Rightarrow> ShadowTable" where
  "evict_loop now i t =
     (if i < table_count t then
        (if shadow_expired now (sh_table t ! i) then
           evict_loop now i (t\<lparr>sh_table := (sh_table t)[i := sh_table t ! (table_count t - 1)],
                               table_count := table_count t - 1\<rparr>)
         else evict_loop now (i + 1) t)
      else t)"
  by pat_completeness auto
termination
  by (relation "measure (\<lambda>(now, i, t). table_count t - i)") auto

declare evict_loop.simps [simp del]

definition shadow_evict_expired :: "u64 \<Rightarrow> ShadowTable \<Rightarrow> ShadowTable" where
  "shadow_evict_expired now t = evict_loop now 0 t"

section \<open>The live entries\<close>

definition shadow_live :: "ShadowTable \<Rightarrow> ShadowEntry list" where
  "shadow_live t = take (table_count t) (sh_table t)"

definition shadow_ok :: "ShadowTable \<Rightarrow> bool" where
  "shadow_ok t \<longleftrightarrow> length (sh_table t) = 256 \<and> table_count t \<le> 256"

lemma shadow_init_ok: "shadow_ok shadow_init" "shadow_live shadow_init = []"
  by (simp_all add: shadow_ok_def shadow_live_def shadow_init_def)

lemma shadow_register_live:
  assumes "shadow_ok t" and "table_count t < 256"
  shows "shadow_live (snd (shadow_register addr p now t)) = shadow_live t @
      [zero_shadow_entry\<lparr>attacker_addr := addr, pattern := p, shadow_active := True,
         tarpit_fd := -1, first_seen_ns := now, last_seen_ns := now, attempt_count := 1\<rparr>]"
    and "fst (shadow_register addr p now t) = Some (table_count t)"
  using assms
  by (simp_all add: shadow_register_def Let_def shadow_live_def shadow_ok_def SHADOW_TABLE_MAX_def
      take_Suc_conv_app_nth)

lemma shadow_lookup_None_iff: "fst (shadow_lookup addr t) = None \<longleftrightarrow> table_count t = 0"
  by (simp add: shadow_lookup_def Let_def)

lemma update_entry_ok [simp]: "shadow_ok (update_entry i f t) = shadow_ok t"
  by (simp add: update_entry_def shadow_ok_def)

lemma update_entry_count [simp]: "table_count (update_entry i f t) = table_count t"
  by (simp add: update_entry_def)

text \<open>Overwriting position \<open>i\<close> with the last element and dropping the last removes element \<open>i\<close>.\<close>

lemma swap_remove_mset:
  assumes "i < n" and "n \<le> length xs"
  shows "add_mset (xs ! i) (mset (drop i (take (n - 1) (xs[i := xs ! (n - 1)])))) = mset (drop i (take n xs))"
proof -
  have full: "drop i (take n xs) = xs ! i # drop (Suc i) (take n xs)"
    using assms by (simp add: Cons_nth_drop_Suc [symmetric])
  show ?thesis
  proof (cases "i = n - 1")
    case True
    with assms show ?thesis using full by simp
  next
    case False
    with assms have i: "i < n - 1" "Suc (n - 1) = n" by simp_all
    let ?ys = "take (n - 1) (xs[i := xs ! (n - 1)])"
    have "take n xs = take (n - 1) xs @ [xs ! (n - 1)]"
      using assms i by (metis take_Suc_conv_app_nth Suc_le_lessD)
    then have a: "drop (Suc i) (take n xs) = drop (Suc i) (take (n - 1) xs) @ [xs ! (n - 1)]"
      using assms i by simp
    have "drop i ?ys = ?ys ! i # drop (Suc i) ?ys"
      using assms i by (simp add: Cons_nth_drop_Suc [symmetric])
    moreover have "?ys ! i = xs ! (n - 1)" using assms i by simp
    moreover have "drop (Suc i) ?ys = drop (Suc i) (take (n - 1) xs)"
      using assms i by (simp add: take_update_swap)
    ultimately show ?thesis using full a by simp
  qed
qed

lemma evict_loop_spec:
  assumes "i \<le> table_count t" and "table_count t \<le> length (sh_table t)"
  shows "mset (shadow_live (evict_loop now i t)) =
      mset (take i (sh_table t)) +
      filter_mset (\<lambda>e. \<not> shadow_expired now e) (mset (drop i (shadow_live t))) \<and>
    table_count (evict_loop now i t) \<le> table_count t \<and>
    length (sh_table (evict_loop now i t)) = length (sh_table t)"
  using assms
proof (induction now i t rule: evict_loop.induct)
  case (1 now i t)
  let ?e = "sh_table t ! i"
  let ?s = "t\<lparr>sh_table := (sh_table t)[i := sh_table t ! (table_count t - 1)], table_count := table_count t - 1\<rparr>"
  consider (stop) "i = table_count t" | (gone) "i < table_count t" "shadow_expired now ?e"
    | (keep) "i < table_count t" "\<not> shadow_expired now ?e"
    using "1.prems"(1) by linarith
  then show ?case
  proof cases
    case stop
    then show ?thesis by (simp add: evict_loop.simps [of now "table_count t" t] shadow_live_def)
  next
    case gone
    have "add_mset ?e (mset (drop i (shadow_live ?s))) = mset (drop i (shadow_live t))"
      using swap_remove_mset [of i "table_count t" "sh_table t"] gone "1.prems" by (simp add: shadow_live_def)
    then have "filter_mset (\<lambda>e. \<not> shadow_expired now e) (mset (drop i (shadow_live ?s))) =
        filter_mset (\<lambda>e. \<not> shadow_expired now e) (mset (drop i (shadow_live t)))"
      using gone by (metis (no_types, lifting) filter_mset_add_mset)
    moreover have "evict_loop now i t = evict_loop now i ?s" using gone by (simp add: evict_loop.simps [of now i t])
    moreover have "take i (sh_table ?s) = take i (sh_table t)" by simp
    ultimately show ?thesis using "1.IH"(1) [OF gone] gone "1.prems" by simp linarith
  next
    case keep
    have "drop i (shadow_live t) = ?e # drop (Suc i) (shadow_live t)"
      using keep "1.prems" by (simp add: shadow_live_def Cons_nth_drop_Suc [symmetric])
    moreover have "take (Suc i) (sh_table t) = take i (sh_table t) @ [?e]"
      using keep "1.prems" by (simp add: take_Suc_conv_app_nth)
    moreover have "evict_loop now i t = evict_loop now (Suc i) t"
      using keep by (simp add: evict_loop.simps [of now i t])
    ultimately show ?thesis using "1.IH"(2) [OF keep] keep "1.prems" by simp
  qed
qed

lemma evict_spec:
  assumes "shadow_ok t"
  shows "mset (shadow_live (shadow_evict_expired now t)) =
      filter_mset (\<lambda>e. \<not> shadow_expired now e) (mset (shadow_live t))"
    and "shadow_ok (shadow_evict_expired now t)"
    and "table_count (shadow_evict_expired now t) \<le> table_count t"
  using evict_loop_spec [of 0 t now] assms by (auto simp: shadow_evict_expired_def shadow_ok_def)


section \<open>Properties\<close>

definition demo_addr :: sockaddr_in where
  "demo_addr = \<lparr>sin_family = 2, sin_port = 1, sin_addr = 7\<rparr>"

text \<open>C20: eviction removes exactly the expired, unreferenced entries. The in-place loop that moves the
  last entry into the gap keeps every other entry, each as often as it was there.\<close>

theorem shadow_evict_exact:
  assumes "length (sh_table t) = 256" and "table_count t \<le> 256"
  shows "mset (shadow_live (shadow_evict_expired now t)) =
     filter_mset (\<lambda>e. \<not> shadow_expired now e) (mset (shadow_live t))"
  using assms by (intro evict_spec(1)) (simp add: shadow_ok_def)

theorem shadow_evict_exact_witness:
  "mset (shadow_live (shadow_evict_expired 5000000000
     (snd (shadow_register demo_addr ATTACK_REPLAY 1 shadow_init)))) = {#}"
proof -
  let ?t = "snd (shadow_register demo_addr ATTACK_REPLAY 1 shadow_init)"
  have "shadow_ok ?t" by (simp add: shadow_ok_def shadow_register_def shadow_init_def Let_def)
  then have "length (sh_table ?t) = 256" "table_count ?t \<le> 256" by (simp_all add: shadow_ok_def)
  note shadow_evict_exact [OF this, of 5000000000]
  also have "shadow_live ?t = [zero_shadow_entry\<lparr>attacker_addr := demo_addr,
      pattern := ATTACK_REPLAY, shadow_active := True, tarpit_fd := -1, first_seen_ns := 1, last_seen_ns := 1,
      attempt_count := 1\<rparr>]"
    using shadow_register_live(1) [OF shadow_init_ok(1)] by (simp add: shadow_init_ok) (simp add: shadow_init_def)
  finally show ?thesis by (simp add: shadow_expired_def zero_shadow_entry_def TARPIT_DELAY_NS_def)
qed

text \<open>a reference taken by a lookup is never returned, so an attacker that has been looked up is never
  evicted, however long ago it was seen.\<close>

theorem shadow_lookup_pins:
  assumes "length (sh_table t) = 256" and "0 < table_count t" and "table_count t \<le> 256"
    and "sin_addr (attacker_addr (sh_table t ! 0)) = sin_addr addr" and "refcount (sh_table t ! 0) \<noteq> -1"
  shows "shadow_entry_get (sh_table t ! 0) \<in> set (shadow_live (shadow_evict_expired now (snd (shadow_lookup addr t))))"
proof -
  let ?t = "snd (shadow_lookup addr t)" and ?e = "shadow_entry_get (sh_table t ! 0)"
  have t: "?t = update_entry 0 shadow_entry_get t" using assms by (simp add: shadow_lookup_def Let_def)
  have ok: "shadow_ok ?t" using assms by (simp add: t) (simp add: shadow_ok_def)
  have "refcount ?e \<noteq> 0" using assms(5) by (simp add: shadow_entry_get_def eq_neg_iff_add_eq_0)
  then have "\<not> shadow_expired now ?e" by (simp add: shadow_expired_def)
  moreover have "?e \<in> set (shadow_live ?t)"
  proof -
    have "shadow_live ?t ! 0 = ?e" and "0 < length (shadow_live ?t)"
      using assms(1-3) by (simp_all add: t shadow_live_def update_entry_def)
    then show ?thesis by (metis nth_mem)
  qed
  ultimately have "?e \<in># mset (shadow_live (shadow_evict_expired now ?t))"
    unfolding evict_spec(1) [OF ok] by simp
  then show ?thesis by simp
qed

theorem shadow_lookup_pins_witness:
  "shadow_entry_get (sh_table (snd (shadow_register demo_addr ATTACK_SIG_FLOOD 1 shadow_init)) ! 0) \<in>
     set (shadow_live (shadow_evict_expired (-1)
       (snd (shadow_lookup demo_addr (snd (shadow_register demo_addr ATTACK_SIG_FLOOD 1 shadow_init))))))"
  by (rule shadow_lookup_pins)
    (simp_all add: shadow_register_def shadow_init_def Let_def SHADOW_TABLE_MAX_def zero_shadow_entry_def)

lemma evict_loop_none:
  "\<forall>j. i \<le> j \<and> j < table_count t \<longrightarrow> \<not> shadow_expired now (sh_table t ! j) \<Longrightarrow> evict_loop now i t = t"
proof (induction now i t rule: evict_loop.induct)
  case (1 now i t)
  then show ?case by (subst evict_loop.simps) auto
qed

text \<open>a reference does not keep an entry in its place. When the first entry is evicted, the last one is moved to
  its cell although it is referenced; what its holder then gives back through the pointer it has goes to a dead cell, and
  the moved entry keeps its count.\<close>

theorem shadow_evict_moves_held:
  assumes "shadow_ok t" and "table_count t = Suc (Suc m)" and "shadow_expired now (sh_table t ! 0)"
    and "\<forall>j. 0 < j \<and> j < table_count t \<longrightarrow> refcount (sh_table t ! j) \<noteq> 0"
  shows "let t' = shadow_evict_expired now t in
    table_count t' = Suc m \<and> sh_table t' ! 0 = sh_table t ! Suc m \<and>
    shadow_live (update_entry (Suc m) shadow_entry_put t') = shadow_live t'"
proof -
  let ?u = "t\<lparr>sh_table := (sh_table t)[0 := sh_table t ! Suc m], table_count := Suc m\<rparr>"
  have len: "length (sh_table t) = 256" using assms(1) by (simp add: shadow_ok_def)
  have "\<not> shadow_expired now (sh_table ?u ! j)" if "j < Suc m" for j
    using that assms(2,4) len by (cases j) (simp_all add: shadow_expired_def)
  then have "evict_loop now 0 ?u = ?u" by (intro evict_loop_none) simp
  then have "shadow_evict_expired now t = ?u"
    unfolding shadow_evict_expired_def using assms(2,3) by (subst evict_loop.simps) simp
  then show ?thesis using len by (simp add: Let_def shadow_live_def update_entry_def)
qed

end
