(* ===== verification/Deception_Daemon.thy ===== *)
theory Deception_Daemon
  imports Core Shadow
begin

text \<open>
  \<open>gate0_daemon.c\<close>: the TCP front end that evaluates frames and feeds decoys to attackers. A client
  is the peer address, what \<open>recv\<close> delivered (\<open>None\<close> for an error), the indeterminate content of the 512-byte stack
  buffer before that, and the clock readings. \<open>evaluate_command\<close> is a parameter of the handler; \<open>daemon_evaluate\<close>
  is the call the daemon makes, with NULL for the sender and for the interlocks.
\<close>

section \<open>The handler\<close>

record TcpClient =
  peer :: sockaddr_in
  received :: "bytes option"
  buffer_before :: bytes
  t_eval :: u64
  t_register :: u64
  t_feed :: u64

type_synonym evaluator = "SignedCommand \<Rightarrow> u64 \<Rightarrow> fault + GateOResult"

definition daemon_evaluate :: "bool \<Rightarrow> sig_verify \<Rightarrow> evaluator" where
  "daemon_evaluate sim vf cmd now =
     (case evaluate_command_ptr sim vf cmd None None now of Inl f \<Rightarrow> Inl f | Inr r \<Rightarrow> Inr (fst r))"

text \<open>\<open>recv\<close> into \<open>buf\<close>, and \<open>n < (ssize_t)sizeof(SignedCommand)\<close>.\<close>

definition tcp_buffer :: "TcpClient \<Rightarrow> bytes" where
  "tcp_buffer c = (case received c of None \<Rightarrow> buffer_before c | Some bs \<Rightarrow> bs @ drop (length bs) (buffer_before c))"

definition short_frame :: "TcpClient \<Rightarrow> bool" where
  "short_frame c \<longleftrightarrow> (case received c of None \<Rightarrow> True | Some bs \<Rightarrow> length bs < sizeof_SignedCommand)"

text \<open>Look the peer up or register it, count the attempt, feed the decoy.\<close>

definition engage :: "AttackPattern \<Rightarrow> TcpClient \<Rightarrow> ShadowTable \<Rightarrow> nat option \<times> ShadowTable" where
  "engage p c t =
     (let (se, t) = shadow_lookup (peer c) t;
          (se, t) = (case se of
                       None \<Rightarrow> shadow_register (peer c) p (t_register c) t
                     | Some i \<Rightarrow> (Some i, update_entry i (\<lambda>e. e\<lparr>attempt_count := attempt_count e + 1\<rparr>) t))
      in (se, shadow_feed_decoy (t_feed c) se t))"

definition handle_tcp_client ::
  "evaluator \<Rightarrow> TcpClient \<Rightarrow> ShadowTable \<Rightarrow> fault + bytes \<times> ShadowTable" where
  "handle_tcp_client ev c t =
     (let buf = tcp_buffer c in
      if short_frame c then
        (let (se, t) = engage ATTACK_MALFORMED c t
         in Inr (case se of Some i \<Rightarrow> shadow_envelope (sh_table t ! i) | None \<Rightarrow> take 374 buf, t))
      else (case ev (command_of_bytes buf) (t_eval c) of
          Inl f \<Rightarrow> Inl f
        | Inr rc \<Rightarrow>
            if rc = GO_SEQUENCE_INVALID then
              (let (se, t) = engage ATTACK_REPLAY c t
               in case se of Some i \<Rightarrow> Inr (shadow_envelope (sh_table t ! i), t) | None \<Rightarrow> Inl NullDeref)
            else if rc = GO_SIGNATURE_INVALID then
              (let (se, t) = engage ATTACK_SIG_FLOOD c t
               in case se of Some i \<Rightarrow> Inr (shadow_envelope (sh_table t ! i), t) | None \<Rightarrow> Inl NullDeref)
            else Inr (le_bytes 1 (0 :: u8), t)))"

text \<open>The main loop: one wake-up of \<open>epoll_wait\<close>, at most one eviction, then the clients of the batch. Connections
  on the Unix socket are accepted and closed. The state is the table and \<open>last_evict\<close>.\<close>

datatype wake_event = Tcp TcpClient | Unix_connection

definition EVICT_INTERVAL_NS :: u64 where "EVICT_INTERVAL_NS = 2000000000"

primrec serve_events :: "evaluator \<Rightarrow> wake_event list \<Rightarrow> ShadowTable \<Rightarrow> fault + bytes list \<times> ShadowTable" where
  "serve_events ev [] t = Inr ([], t)"
| "serve_events ev (x # xs) t =
     (case x of
        Unix_connection \<Rightarrow> serve_events ev xs t
      | Tcp c \<Rightarrow>
          (case handle_tcp_client ev c t of
             Inl f \<Rightarrow> Inl f
           | Inr (out, t) \<Rightarrow>
               (case serve_events ev xs t of Inl f \<Rightarrow> Inl f | Inr (outs, t) \<Rightarrow> Inr (out # outs, t))))"

definition daemon_wake ::
  "evaluator \<Rightarrow> u64 \<times> wake_event list \<Rightarrow> ShadowTable \<times> u64 \<Rightarrow> fault + bytes list \<times> ShadowTable \<times> u64" where
  "daemon_wake ev w st =
     (let (now, events) = w;
          (t, last_evict) = st;
          (t, last_evict) = (if now - last_evict \<ge> EVICT_INTERVAL_NS then (shadow_evict_expired now t, now)
                             else (t, last_evict))
      in case serve_events ev events t of Inl f \<Rightarrow> Inl f | Inr (outs, t) \<Rightarrow> Inr (outs, t, last_evict))"

primrec daemon_loop ::
  "evaluator \<Rightarrow> (u64 \<times> wake_event list) list \<Rightarrow> ShadowTable \<times> u64 \<Rightarrow> fault + bytes list \<times> ShadowTable \<times> u64" where
  "daemon_loop ev [] st = Inr ([], st)"
| "daemon_loop ev (w # ws) st =
     (case daemon_wake ev w st of
        Inl f \<Rightarrow> Inl f
      | Inr (outs, st) \<Rightarrow>
          (case daemon_loop ev ws st of Inl f \<Rightarrow> Inl f | Inr (outs', st) \<Rightarrow> Inr (outs @ outs', st)))"

section \<open>At most one attacker\<close>

text \<open>The table never holds more than one live entry, and live entries are active.\<close>

definition one_attacker :: "ShadowTable \<Rightarrow> bool" where
  "one_attacker t \<longleftrightarrow> shadow_ok t \<and> table_count t \<le> 1 \<and> (\<forall>e \<in> set (shadow_live t). shadow_active e)"

lemma one_attacker_entry: "one_attacker t \<Longrightarrow> table_count t \<noteq> 0 \<Longrightarrow>
    table_count t = 1 \<and> shadow_live t = [sh_table t ! 0] \<and> shadow_active (sh_table t ! 0)"
  by (cases "sh_table t"; cases "table_count t = 1") (auto simp: one_attacker_def shadow_live_def shadow_ok_def)

lemma one_attacker_update:
  assumes "one_attacker t" and "\<And>e. shadow_active (f e) = shadow_active e" and "table_count t \<noteq> 0"
  shows "one_attacker (update_entry 0 f t)"
  using one_attacker_entry [OF assms(1,3)] assms(1,2)
  by (cases "sh_table t") (auto simp: one_attacker_def update_entry_def shadow_live_def shadow_ok_def)

lemma one_attacker_init: "one_attacker shadow_init"
  by (simp add: one_attacker_def shadow_init_ok) (simp add: shadow_init_def)

lemma one_attacker_evict:
  assumes "one_attacker t"
  shows "one_attacker (shadow_evict_expired now t)"
proof -
  have ok: "shadow_ok t" using assms by (simp add: one_attacker_def)
  have "set (shadow_live (shadow_evict_expired now t)) \<subseteq> set (shadow_live t)"
    using evict_spec(1) [OF ok, of now] by (metis filter_is_subset mset_filter set_mset_mset)
  then show ?thesis
    using evict_spec(2,3) [OF ok, of now] assms by (auto simp: one_attacker_def intro: le_trans)
qed

lemma feed_entry_active [simp]: "shadow_active (feed_entry now e) = shadow_active e"
  by (simp add: feed_entry_def)

lemma engage_spec:
  assumes "one_attacker t"
  shows "fst (engage p c t) = Some 0 \<and> one_attacker (snd (engage p c t)) \<and>
     table_count (snd (engage p c t)) = 1 \<and>
     shadow_envelope (sh_table (snd (engage p c t)) ! 0) = replicate 374 0xAA"
proof (cases "table_count t = 0")
  case True
  let ?r = "snd (shadow_register (peer c) p (t_register c) t)"
  have ok: "shadow_ok t" using assms by (simp add: one_attacker_def)
  have e: "engage p c t = (Some 0, update_entry 0 (feed_entry (t_feed c)) ?r)"
    using shadow_register_live(2) [OF ok, of "peer c" p "t_register c"] True
    by (simp add: engage_def shadow_lookup_def Let_def shadow_feed_decoy_def split_beta)
  have r: "shadow_ok ?r" "table_count ?r = 1" "shadow_active (sh_table ?r ! 0)"
    using True ok by (simp_all add: shadow_register_def Let_def shadow_ok_def SHADOW_TABLE_MAX_def)
  then have "one_attacker ?r"
    by (cases "sh_table ?r") (auto simp: one_attacker_def shadow_live_def)
  then have "one_attacker (update_entry 0 (feed_entry (t_feed c)) ?r)"
    using r(2) by (intro one_attacker_update) simp_all
  moreover have "shadow_envelope (sh_table (update_entry 0 (feed_entry (t_feed c)) ?r) ! 0) = replicate 374 0xAA"
    using r by (simp add: update_entry_def feed_entry_def shadow_ok_def)
  ultimately show ?thesis using e r(2) by simp
next
  case False
  let ?g = "\<lambda>e. e\<lparr>attempt_count := attempt_count e + 1\<rparr>"
  let ?l = "snd (shadow_lookup (peer c) t)"
  have l: "shadow_lookup (peer c) t = (Some 0, ?l)" using False by (simp add: shadow_lookup_def Let_def)
  have one: "one_attacker ?l" "table_count ?l = table_count t"
    using assms False one_attacker_update [OF assms, of shadow_entry_get]
    by (simp_all add: shadow_lookup_def Let_def shadow_entry_get_def)
  have e: "engage p c t = (Some 0, update_entry 0 (feed_entry (t_feed c)) (update_entry 0 ?g ?l))"
    unfolding engage_def by (subst l) (simp add: shadow_feed_decoy_def)
  have g: "one_attacker (update_entry 0 ?g ?l)" using one False by (intro one_attacker_update) simp_all
  then have "one_attacker (update_entry 0 (feed_entry (t_feed c)) (update_entry 0 ?g ?l))"
    using one(2) False by (intro one_attacker_update [OF g]) simp_all
  moreover have "length (sh_table ?l) = 256" "shadow_active (sh_table ?l ! 0)"
    using one False one_attacker_entry [OF one(1)] by (simp_all add: one_attacker_def shadow_ok_def)
  then have "shadow_envelope (sh_table (update_entry 0 (feed_entry (t_feed c)) (update_entry 0 ?g ?l)) ! 0) =
      replicate 374 0xAA"
    by (simp add: update_entry_def feed_entry_def)
  moreover have "table_count t = 1" using one_attacker_entry [OF assms False] by simp
  ultimately show ?thesis using e one(2) by simp
qed

lemma handle_one_attacker:
  assumes "one_attacker t" and "handle_tcp_client ev c t = Inr (out, t')"
  shows "one_attacker t' \<and> (out = [0] \<or> out = replicate 374 0xAA)"
proof -
  have e: "\<And>p. engage p c t = (Some 0, snd (engage p c t))"
    "\<And>p. one_attacker (snd (engage p c t))"
    "\<And>p. shadow_envelope (sh_table (snd (engage p c t)) ! 0) = replicate 374 0xAA"
    using engage_spec [OF assms(1)] by (metis prod.collapse)+
  show ?thesis
  proof (cases "short_frame c")
    case True
    then show ?thesis
      using assms(2) e [of ATTACK_MALFORMED] by (auto simp: handle_tcp_client_def Let_def split_beta)
  next
    case False
    then show ?thesis
      using assms e [of ATTACK_REPLAY] e [of ATTACK_SIG_FLOOD]
      by (auto simp: handle_tcp_client_def Let_def split_beta split: sum.splits if_splits option.splits)
  qed
qed

text \<open>Whatever else a handled client is answered, \<open>S\<close> holding all the answers, it runs through a whole batch, a wake-up and the loop.\<close>

lemma serve_one_attacker:
  assumes out: "\<And>c t out t'. one_attacker t \<Longrightarrow> handle_tcp_client ev c t = Inr (out, t') \<Longrightarrow> out \<in> S"
  shows "one_attacker t \<Longrightarrow> serve_events ev xs t = Inr (outs, t') \<Longrightarrow>
     one_attacker t' \<and> set outs \<subseteq> S"
proof (induction xs arbitrary: t outs)
  case (Cons x xs)
  show ?case
  proof (cases x)
    case (Tcp c)
    with Cons.prems obtain out t1 outs' where h: "handle_tcp_client ev c t = Inr (out, t1)"
      and s: "serve_events ev xs t1 = Inr (outs', t')" and o: "outs = out # outs'"
      by (auto split: sum.splits)
    from handle_one_attacker [OF Cons.prems(1) h] out [OF Cons.prems(1) h] Cons.IH [OF _ s] o show ?thesis by auto
  next
    case Unix_connection
    with Cons show ?thesis by simp
  qed
qed simp

lemma wake_one_attacker:
  assumes out: "\<And>c t out t'. one_attacker t \<Longrightarrow> handle_tcp_client ev c t = Inr (out, t') \<Longrightarrow> out \<in> S"
    and "one_attacker (fst st)" and "daemon_wake ev w st = Inr (outs, st')"
  shows "one_attacker (fst st') \<and> set outs \<subseteq> S"
proof -
  obtain now xs t l where w: "w = (now, xs)" and st: "st = (t, l)" by (cases w; cases st)
  let ?t = "if now - l \<ge> EVICT_INTERVAL_NS then shadow_evict_expired now t else t"
  have "one_attacker ?t" using assms(2) st by (simp add: one_attacker_evict)
  moreover obtain t' where "serve_events ev xs ?t = Inr (outs, t')" "fst st' = t'"
    using assms(3) by (auto simp: daemon_wake_def w st Let_def split: sum.splits if_splits)
  ultimately show ?thesis using serve_one_attacker [OF out, where t = ?t and xs = xs and outs = outs and t' = t'] by simp
qed

lemma loop_one_attacker:
  assumes out: "\<And>c t out t'. one_attacker t \<Longrightarrow> handle_tcp_client ev c t = Inr (out, t') \<Longrightarrow> out \<in> S"
  shows "one_attacker (fst st) \<Longrightarrow> daemon_loop ev ws st = Inr (outs, st') \<Longrightarrow>
     one_attacker (fst st') \<and> set outs \<subseteq> S"
proof (induction ws arbitrary: st outs)
  case (Cons w ws)
  from Cons.prems(2) obtain o1 st1 o2 where h: "daemon_wake ev w st = Inr (o1, st1)"
    and l: "daemon_loop ev ws st1 = Inr (o2, st')" and o: "outs = o1 @ o2"
    by (auto split: sum.splits)
  from wake_one_attacker [OF out Cons.prems(1) h] Cons.IH [OF _ l] o show ?case by auto
qed simp

section \<open>Properties\<close>

text \<open>the deception table holds at most one attacker. Whatever the evaluator answers, in any run of the
  daemon from its start every reply is either the byte 0 or one 374-byte decoy, and no more than one
  attacker is ever recorded: every later peer is taken for the first one.\<close>

theorem daemon_records_one_attacker:
  assumes "daemon_loop ev ws (shadow_init, now) = Inr (outs, t, last_evict)"
  shows "table_count t \<le> 1 \<and> set outs \<subseteq> {[0], replicate 374 0xAA}"
proof -
  have "one_attacker (fst (t, last_evict)) \<and> set outs \<subseteq> {[0], replicate 374 0xAA}"
    by (rule loop_one_attacker [OF _ _ assms]) (auto simp: one_attacker_init dest: handle_one_attacker)
  then show ?thesis by (simp add: one_attacker_def)
qed

definition demo_client :: "u32 \<Rightarrow> TcpClient" where
  "demo_client a = \<lparr>peer = \<lparr>sin_family = 2, sin_port = 1, sin_addr = a\<rparr>, received = Some [], buffer_before = replicate 512 0,
     t_eval = 0, t_register = 1, t_feed = 1\<rparr>"

theorem daemon_records_one_attacker_witness:
  "table_count (fst (snd (projr (daemon_loop (\<lambda>_ _. Inr GO_OK)
     [(1, [Tcp (demo_client 7), Tcp (demo_client 8)])] (shadow_init, 0))))) \<le> 1"
proof -
  let ?r = "daemon_loop (\<lambda>_ _. Inr GO_OK)
     [(1, [Tcp (demo_client 7), Tcp (demo_client 8)])] (shadow_init, 0)"
  have "isl ?r = False"
    by (simp add: daemon_wake_def EVICT_INTERVAL_NS_def handle_tcp_client_def short_frame_def demo_client_def
        sizeof_SignedCommand_def Let_def split_beta)
  then obtain outs t l where "?r = Inr (outs, t, l)" by (cases ?r) auto
  from daemon_records_one_attacker [OF this] this show ?thesis by simp
qed

text \<open>one full-size frame stops the daemon. It passes NULL for the sender and the interlocks, which the
  evaluator reads first, so a client that sends 390 bytes of anything makes the process dereference
  a null pointer; no result is ever computed.\<close>

theorem daemon_full_frame_faults:
  assumes "received c = Some bs" and "390 \<le> length bs"
  shows "handle_tcp_client (daemon_evaluate sim vf) c t = Inl NullDeref"
  using assms
  by (simp add: handle_tcp_client_def short_frame_def sizeof_SignedCommand_def daemon_evaluate_def
      evaluate_command_ptr_def Let_def)

theorem daemon_full_frame_faults_witness:
  "handle_tcp_client (daemon_evaluate False demo_verify) ((demo_client 7)\<lparr>received := Some (replicate 390 0)\<rparr>)
     shadow_init = Inl NullDeref"
  by (rule daemon_full_frame_faults [where bs = "replicate 390 0"]) simp_all

text \<open>refusals other than a bad sequence number or signature are answered with success. With any
  evaluator, a full frame that it refuses as expired, as coming from an unknown sender or because an interlock
  is tripped gets the byte of \<open>GO_OK\<close>.\<close>

theorem daemon_masks_refusals:
  assumes "received c = Some bs" and "390 \<le> length bs"
    and "ev (command_of_bytes (tcp_buffer c)) (t_eval c) = Inr rc"
    and "rc \<noteq> GO_SEQUENCE_INVALID" and "rc \<noteq> GO_SIGNATURE_INVALID"
  shows "handle_tcp_client ev c t = Inr ([0], t)"
  using assms by (simp add: handle_tcp_client_def short_frame_def sizeof_SignedCommand_def Let_def)

theorem daemon_masks_refusals_witness:
  "handle_tcp_client (\<lambda>_ _. Inr GO_EXPIRED) ((demo_client 7)\<lparr>received := Some (replicate 390 0)\<rparr>) shadow_init =
     Inr ([0], shadow_init)"
  by (rule daemon_masks_refusals [where bs = "replicate 390 0" and rc = GO_EXPIRED]) simp_all

end
