(* ===== verification/Attrib.thy ===== *)
theory Attrib
  imports Gate0_Prelude
begin

text \<open>
  \<open>attrib.c\<close>, \<open>attrib.h\<close>: attribution of hostile events to actors by fingerprint, their scores and threat
  tiers. The atomics are read and written by one thread; clock readings are arguments (the first is
  read only when an actor is created).
\<close>

section \<open>Data\<close>

datatype ThreatTier = TIER_UNKNOWN | TIER_PROBING | TIER_ACTIVE | TIER_PERSISTENT

primrec tier_code :: "ThreatTier \<Rightarrow> nat" where
  "tier_code TIER_UNKNOWN = 0"
| "tier_code TIER_PROBING = 1"
| "tier_code TIER_ACTIVE = 2"
| "tier_code TIER_PERSISTENT = 3"

instantiation ThreatTier :: linorder
begin

definition less_eq_ThreatTier :: "ThreatTier \<Rightarrow> ThreatTier \<Rightarrow> bool" where
  "less_eq_ThreatTier a b \<longleftrightarrow> tier_code a \<le> tier_code b"

definition less_ThreatTier :: "ThreatTier \<Rightarrow> ThreatTier \<Rightarrow> bool" where
  "less_ThreatTier a b \<longleftrightarrow> tier_code a < tier_code b"

instance
proof
  fix a b :: ThreatTier
  assume "a \<le> b" and "b \<le> a"
  then show "a = b" by (cases a; cases b) (simp_all add: less_eq_ThreatTier_def)
qed (auto simp: less_eq_ThreatTier_def less_ThreatTier_def)

end

datatype AttribEvent =
    EVT_REPLAY | EVT_SIG_FLOOD | EVT_TIMING_ANOMALY | EVT_SEQ_VIOLATION | EVT_AUTH_FAIL

record ActorRecord =
  fingerprint :: bytes
  score :: u32
  tier :: ThreatTier
  actor_first_seen_ns :: u64
  actor_last_seen_ns :: u64
  event_count :: u32
  event_log :: "(AttribEvent \<times> u64) list"
  active :: bool

record AttribTable =
  actors :: "ActorRecord list"
  actor_count :: nat

definition ATTRIB_MAX_ACTORS :: nat where "ATTRIB_MAX_ACTORS = 256"

text \<open>The other constants of \<open>attrib.h\<close> are abbreviations: they stand for their numerals in every proof.\<close>

abbreviation ATTRIB_EVENT_LOG_SIZE :: "'a::numeral" where "ATTRIB_EVENT_LOG_SIZE \<equiv> 16"
abbreviation ATTRIB_FP_LEN :: nat where "ATTRIB_FP_LEN \<equiv> 32"
abbreviation SCORE_REPLAY :: u32 where "SCORE_REPLAY \<equiv> 10"
abbreviation SCORE_SIG_FLOOD :: u32 where "SCORE_SIG_FLOOD \<equiv> 25"
abbreviation SCORE_TIMING_ANOMALY :: u32 where "SCORE_TIMING_ANOMALY \<equiv> 5"
abbreviation SCORE_SEQ_VIOLATION :: u32 where "SCORE_SEQ_VIOLATION \<equiv> 15"

definition zero_actor :: ActorRecord where
  "zero_actor = \<lparr>fingerprint = replicate ATTRIB_FP_LEN 0, score = 0, tier = TIER_UNKNOWN, actor_first_seen_ns = 0,
     actor_last_seen_ns = 0, event_count = 0, event_log = replicate ATTRIB_EVENT_LOG_SIZE (EVT_REPLAY, 0), active = False\<rparr>"

definition attrib_init :: AttribTable where
  "attrib_init = \<lparr>actors = replicate 256 zero_actor, actor_count = 0\<rparr>"

section \<open>Operations\<close>

definition find_actor :: "bytes \<Rightarrow> AttribTable \<Rightarrow> nat option" where
  "find_actor fp t = find_index (\<lambda>a. fingerprint a = fp) (take (actor_count t) (actors t))"

definition find_or_create :: "bytes \<Rightarrow> u64 \<Rightarrow> AttribTable \<Rightarrow> nat option \<times> AttribTable" where
  "find_or_create fp now t =
     (case find_actor fp t of
        Some i \<Rightarrow> (Some i, t)
      | None \<Rightarrow>
          let n = actor_count t in
          if n \<ge> ATTRIB_MAX_ACTORS then (None, t)
          else (Some n, t\<lparr>actors := (actors t)[n := (actors t ! n)\<lparr>fingerprint := fp,
                  actor_first_seen_ns := now, tier := TIER_UNKNOWN, active := True\<rparr>],
                actor_count := n + 1\<rparr>))"

fun score_for :: "AttribEvent \<Rightarrow> u32" where
  "score_for EVT_REPLAY = SCORE_REPLAY"
| "score_for EVT_SIG_FLOOD = SCORE_SIG_FLOOD"
| "score_for EVT_TIMING_ANOMALY = SCORE_TIMING_ANOMALY"
| "score_for EVT_SEQ_VIOLATION = SCORE_SEQ_VIOLATION"
| "score_for _ = 5"

definition record_on_actor :: "AttribEvent \<Rightarrow> u64 \<Rightarrow> ActorRecord \<Rightarrow> ActorRecord" where
  "record_on_actor evt now a =
     (let a = a\<lparr>score := score a + score_for evt\<rparr>;
          a = (if score a \<ge> 60 then a\<lparr>tier := TIER_PERSISTENT\<rparr>
               else if score a \<ge> 35 then a\<lparr>tier := TIER_ACTIVE\<rparr>
               else if score a \<ge> 15 then a\<lparr>tier := TIER_PROBING\<rparr>
               else a);
          slot = unat (event_count a mod ATTRIB_EVENT_LOG_SIZE)
      in a\<lparr>event_log := (event_log a)[slot := (evt, now)], actor_last_seen_ns := now,
           event_count := event_count a + 1\<rparr>)"

definition attrib_record_event :: "bytes \<Rightarrow> AttribEvent \<Rightarrow> u64 \<Rightarrow> u64 \<Rightarrow> AttribTable \<Rightarrow> int \<times> AttribTable" where
  "attrib_record_event fp evt t1 t2 t =
     (case find_or_create fp t1 t of
        (None, t) \<Rightarrow> (-1, t)
      | (Some i, t) \<Rightarrow> (0, t\<lparr>actors := (actors t)[i := record_on_actor evt t2 (actors t ! i)]\<rparr>))"

definition attrib_score :: "bytes \<Rightarrow> AttribTable \<Rightarrow> ThreatTier" where
  "attrib_score fp t = (case find_actor fp t of Some i \<Rightarrow> tier (actors t ! i) | None \<Rightarrow> TIER_UNKNOWN)"

definition attrib_compute_fp :: "bytes \<Rightarrow> u16 \<Rightarrow> bytes" where
  "attrib_compute_fp src_addr src_port =
     take 4 src_addr @ [ucast (src_port AND 0xFF), ucast (drop_bit 8 src_port AND 0xFF)] @ replicate 26 0"

section \<open>The specification: a score for every fingerprint\<close>

definition tier_of :: "nat \<Rightarrow> ThreatTier" where
  "tier_of s = (if s \<ge> 60 then TIER_PERSISTENT else if s \<ge> 35 then TIER_ACTIVE
     else if s \<ge> 15 then TIER_PROBING else TIER_UNKNOWN)"

type_synonym attrib_event = "bytes \<times> AttribEvent \<times> u64 \<times> u64"

definition attrib_run :: "attrib_event list \<Rightarrow> AttribTable \<Rightarrow> AttribTable" where
  "attrib_run es t = fold (\<lambda>(fp, evt, t1, t2) t. snd (attrib_record_event fp evt t1 t2 t)) es t"

definition total_score :: "bytes \<Rightarrow> attrib_event list \<Rightarrow> nat" where
  "total_score fp es = sum_list (map (\<lambda>(f, evt, _). unat (score_for evt)) (filter (\<lambda>e. fst e = fp) es))"

lemma tier_of_mono: "m \<le> n \<Longrightarrow> tier_of m \<le> tier_of n"
  by (simp add: tier_of_def less_eq_ThreatTier_def)

lemma score_for_bound: "unat (score_for evt) \<le> 25"
  by (cases evt) simp_all

lemma total_score_bound: "total_score fp es \<le> 25 * length es"
proof (induction es)
  case (Cons e es)
  obtain f evt r where "e = (f, evt, r)" by (cases e)
  with Cons score_for_bound [of evt] show ?case by (auto simp: total_score_def)
qed (simp add: total_score_def)

text \<open>The invariant of a run: one actor per fingerprint seen, with its total and the tier of that total; the cells
  beyond are untouched.\<close>

definition attrib_repr :: "attrib_event list \<Rightarrow> AttribTable \<Rightarrow> bool" where
  "attrib_repr es t \<longleftrightarrow> length (actors t) = 256 \<and> actor_count t \<le> 256 \<and>
     actor_count t = card (fst ` set es) \<and>
     set (map fingerprint (take (actor_count t) (actors t))) = fst ` set es \<and>
     (\<forall>a \<in> set (take (actor_count t) (actors t)). unat (score a) = total_score (fingerprint a) es \<and>
        tier a = tier_of (total_score (fingerprint a) es)) \<and>
     (\<forall>a \<in> set (drop (actor_count t) (actors t)). score a = 0)"

lemma attrib_repr_init: "attrib_repr [] attrib_init"
  by (simp add: attrib_repr_def attrib_init_def zero_actor_def)

lemma record_on_actor_spec:
  assumes "unat (score a) + unat (score_for evt) < 2 ^ 32" and "tier a = tier_of (unat (score a))"
  shows "unat (score (record_on_actor evt now a)) = unat (score a) + unat (score_for evt)"
    and "tier (record_on_actor evt now a) = tier_of (unat (score a) + unat (score_for evt))"
    and "fingerprint (record_on_actor evt now a) = fingerprint a"
proof -
  have s: "unat (score a + score_for evt) = unat (score a) + unat (score_for evt)"
    using assms(1) by (simp add: unat_word_ariths)
  then show "unat (score (record_on_actor evt now a)) = unat (score a) + unat (score_for evt)"
    and "fingerprint (record_on_actor evt now a) = fingerprint a"
    by (simp_all add: record_on_actor_def Let_def)
  have "score a + score_for evt \<ge> 60 \<longleftrightarrow> unat (score a) + unat (score_for evt) \<ge> 60"
    "score a + score_for evt \<ge> 35 \<longleftrightarrow> unat (score a) + unat (score_for evt) \<ge> 35"
    "score a + score_for evt \<ge> 15 \<longleftrightarrow> unat (score a) + unat (score_for evt) \<ge> 15"
    by (simp_all add: word_le_nat_alt s)
  then show "tier (record_on_actor evt now a) = tier_of (unat (score a) + unat (score_for evt))"
    using assms(2) by (auto simp: record_on_actor_def Let_def tier_of_def)
qed

lemma attrib_repr_score:
  assumes "attrib_repr es t"
  shows "attrib_score fp t = tier_of (total_score fp es)"
proof (cases "find_actor fp t")
  case None
  then have "fp \<notin> fst ` set es"
    using assms unfolding attrib_repr_def find_actor_def find_index_None
    by (metis (mono_tags, lifting) image_iff list.set_map)
  then have "filter (\<lambda>e. fst e = fp) es = []" by (auto simp: filter_empty_conv)
  with None show ?thesis by (simp add: attrib_score_def total_score_def tier_of_def)
next
  case (Some i)
  then have i: "i < length (take (actor_count t) (actors t))" "fingerprint (take (actor_count t) (actors t) ! i) = fp"
    unfolding find_actor_def by (blast dest: find_index_SomeD)+
  then have "tier (take (actor_count t) (actors t) ! i) = tier_of (total_score fp es)"
    using assms nth_mem [OF i(1)] by (auto simp: attrib_repr_def)
  with Some i show ?thesis by (simp add: attrib_score_def)
qed


lemma total_score_snoc:
  "total_score fp (es @ [(f, evt, t1, t2)]) =
     total_score fp es + (if f = fp then unat (score_for evt) else 0)"
  by (simp add: total_score_def)

lemma attrib_reprD:
  assumes "attrib_repr es t"
  shows "length (actors t) = 256" "actor_count t \<le> 256" "actor_count t = card (fst ` set es)"
    "set (map fingerprint (take (actor_count t) (actors t))) = fst ` set es"
    "\<And>a. a \<in> set (take (actor_count t) (actors t)) \<Longrightarrow>
       unat (score a) = total_score (fingerprint a) es \<and> tier a = tier_of (total_score (fingerprint a) es)"
    "\<And>a. a \<in> set (drop (actor_count t) (actors t)) \<Longrightarrow> score a = 0"
  using assms unfolding attrib_repr_def by blast+

lemma attrib_repr_distinct:
  assumes "attrib_repr es t"
  shows "distinct (map fingerprint (take (actor_count t) (actors t)))"
proof (rule card_distinct)
  note r = attrib_reprD [OF assms]
  show "card (set (map fingerprint (take (actor_count t) (actors t)))) =
      length (map fingerprint (take (actor_count t) (actors t)))"
    unfolding r(4) r(3) [symmetric] using r(1,2) by simp
qed

lemma attrib_repr_new:
  assumes rep: "attrib_repr es t" and new: "f \<notin> fst ` set es" and room: "actor_count t < 256"
    and small: "unat (score_for evt) < 2 ^ 32"
  shows "attrib_repr (es @ [(f, evt, t1, t2)]) (t\<lparr>actor_count := Suc (actor_count t), actors := (actors t)[actor_count t :=
     record_on_actor evt t2 ((actors t ! actor_count t)\<lparr>fingerprint := f, actor_first_seen_ns := t1,
       tier := TIER_UNKNOWN, active := True\<rparr>)]\<rparr>)"
    (is "attrib_repr ?es ?t")
proof -
  let ?n = "actor_count t"
  let ?b = "(actors t ! ?n)\<lparr>fingerprint := f, actor_first_seen_ns := t1, tier := TIER_UNKNOWN, active := True\<rparr>"
  let ?a = "record_on_actor evt t2 ?b"
  note r = attrib_reprD [OF rep]
  have split: "drop ?n (actors t) = actors t ! ?n # drop (Suc ?n) (actors t)"
    using room r(1) by (simp add: Cons_nth_drop_Suc)
  then have zero: "score ?b = 0" using r(6) [of "actors t ! ?n"] by simp
  have a: "unat (score ?a) = unat (score_for evt)" "tier ?a = tier_of (unat (score_for evt))" "fingerprint ?a = f"
    using record_on_actor_spec [of ?b evt t2] zero small by (simp_all add: tier_of_def)
  have "filter (\<lambda>e. fst e = f) es = []" using new by (auto simp: filter_empty_conv)
  then have none: "total_score f es = 0" by (simp add: total_score_def)
  have live: "take (actor_count ?t) (actors ?t) = take ?n (actors t) @ [?a]"
    using room r(1) by (simp add: take_Suc_conv_app_nth)
  have rest: "drop (actor_count ?t) (actors ?t) = drop (Suc ?n) (actors t)" by simp
  have other: "fingerprint x \<noteq> f" if "x \<in> set (take ?n (actors t))" for x
    using that r(4) new by (metis image_eqI list.set_map)
  have "Suc ?n = card (fst ` set ?es)" using new by (simp add: r(3))
  moreover have "set (map fingerprint (take (actor_count ?t) (actors ?t))) = fst ` set ?es"
    unfolding live using r(4) a(3) by simp
  moreover have "\<forall>x \<in> set (take (actor_count ?t) (actors ?t)). unat (score x) = total_score (fingerprint x) ?es \<and>
      tier x = tier_of (total_score (fingerprint x) ?es)"
    unfolding live using r(5) other a none by (auto simp: total_score_snoc)
  moreover have "\<forall>x \<in> set (drop (actor_count ?t) (actors ?t)). score x = 0"
    unfolding rest using r(6) split by (metis list.set_intros(2))
  ultimately show ?thesis unfolding attrib_repr_def using room r(1) by simp
qed

lemma attrib_repr_known:
  assumes rep: "attrib_repr es t" and find: "find_actor f t = Some i"
    and small: "total_score f es + unat (score_for evt) < 2 ^ 32"
  shows "attrib_repr (es @ [(f, evt, t1, t2)]) (t\<lparr>actors := (actors t)[i := record_on_actor evt t2 (actors t ! i)]\<rparr>)"
proof -
  let ?n = "actor_count t" and ?a = "record_on_actor evt t2 (actors t ! i)"
  let ?live = "take ?n (actors t)"
  have i: "i < length ?live" "fingerprint (?live ! i) = f"
    using find unfolding find_actor_def by (blast dest: find_index_SomeD)+
  then have mem: "actors t ! i \<in> set ?live" "fingerprint (actors t ! i) = f" using nth_mem [OF i(1)] by simp_all
  note r = attrib_reprD [OF rep]
  have old: "unat (score (actors t ! i)) = total_score f es" "tier (actors t ! i) = tier_of (total_score f es)"
    using r(5) [OF mem(1)] mem(2) by simp_all
  then have a: "unat (score ?a) = total_score f es + unat (score_for evt)"
    "tier ?a = tier_of (total_score f es + unat (score_for evt))" "fingerprint ?a = f"
    using record_on_actor_spec [of "actors t ! i" evt t2] small mem by simp_all
  have live: "take ?n ((actors t)[i := ?a]) = ?live[i := ?a]" by (simp add: take_update_swap)
  have names: "map fingerprint (?live[i := ?a]) = map fingerprint ?live"
    using i(2) a(3) unfolding map_update by (metis i(1) list_update_id nth_map)
  have others: "fingerprint (?live ! j) \<noteq> f" if "j < length ?live" "j \<noteq> i" for j
    using attrib_repr_distinct [OF rep] that i by (metis distinct_conv_nth length_map nth_map)
  have "\<forall>x \<in> set (?live[i := ?a]). unat (score x) = total_score (fingerprint x) (es @ [(f, evt, t1, t2)]) \<and>
      tier x = tier_of (total_score (fingerprint x) (es @ [(f, evt, t1, t2)]))"
  proof
    fix x assume "x \<in> set (?live[i := ?a])"
    then obtain j where j: "j < length ?live" "x = ?live[i := ?a] ! j" by (auto simp: in_set_conv_nth)
    show "unat (score x) = total_score (fingerprint x) (es @ [(f, evt, t1, t2)]) \<and>
      tier x = tier_of (total_score (fingerprint x) (es @ [(f, evt, t1, t2)]))"
    proof (cases "j = i")
      case True
      with j a show ?thesis by (simp add: total_score_snoc)
    next
      case False
      then have x: "x = ?live ! j" "fingerprint x \<noteq> f" using j others [OF j(1) False] by simp_all
      moreover have "x \<in> set ?live" unfolding x(1) using j(1) by (rule nth_mem)
      ultimately show ?thesis using r(5) by (simp add: total_score_snoc)
    qed
  qed
  moreover have "f \<in> fst ` set es" using r(4) mem by (metis image_eqI list.set_map)
  then have "fst ` set (es @ [(f, evt, t1, t2)]) = fst ` set es" by (simp add: insert_absorb)
  moreover have "drop ?n ((actors t)[i := ?a]) = drop ?n (actors t)" using i by simp
  moreover have "length ((actors t)[i := ?a]) = 256" using r(1) by simp
  moreover have tab: "actors (t\<lparr>actors := (actors t)[i := ?a]\<rparr>) = (actors t)[i := ?a]"
    "actor_count (t\<lparr>actors := (actors t)[i := ?a]\<rparr>) = ?n" by simp_all
  ultimately show ?thesis
    using r(2-4,6) unfolding attrib_repr_def tab live names by metis
qed

lemma attrib_repr_step:
  assumes rep: "attrib_repr es t" and room: "card (fst ` set (es @ [(f, evt, t1, t2)])) \<le> 256"
    and small: "25 * Suc (length es) < 2 ^ 32"
  shows "attrib_repr (es @ [(f, evt, t1, t2)]) (snd (attrib_record_event f evt t1 t2 t))"
proof (cases "find_actor f t")
  case None
  then have new: "f \<notin> fst ` set es"
    using rep unfolding attrib_repr_def find_actor_def find_index_None by (metis (mono_tags, lifting) image_iff list.set_map)
  then have "actor_count t < 256" using rep room by (simp add: attrib_repr_def)
  moreover have "unat (score_for evt) < 2 ^ 32" using score_for_bound [of evt] by simp
  moreover have "length (actors t) = 256" using rep by (simp add: attrib_repr_def)
  ultimately show ?thesis
    using attrib_repr_new [OF rep new, of evt t1 t2] None
    by (simp add: attrib_record_event_def find_or_create_def Let_def ATTRIB_MAX_ACTORS_def)
next
  case (Some i)
  have "total_score f es + unat (score_for evt) < 2 ^ 32"
    using total_score_bound [of f es] score_for_bound [of evt] small by simp
  with attrib_repr_known [OF rep Some] Some show ?thesis
    by (simp add: attrib_record_event_def find_or_create_def)
qed

lemma attrib_run_snoc:
  "attrib_run (es @ [(f, evt, t1, t2)]) t = snd (attrib_record_event f evt t1 t2 (attrib_run es t))"
  by (simp add: attrib_run_def)

lemma attrib_repr_run:
  "card (fst ` set es) \<le> 256 \<Longrightarrow> 25 * length es < 2 ^ 32 \<Longrightarrow> attrib_repr es (attrib_run es attrib_init)"
proof (induction es rule: rev_induct)
  case Nil
  show ?case using attrib_repr_init by (simp add: attrib_run_def)
next
  case (snoc e es)
  obtain f evt t1 t2 where e: "e = (f, evt, t1, t2)" by (cases e)
  have "card (fst ` set es) \<le> card (fst ` set (es @ [e]))" by (rule card_mono) auto
  with snoc have "attrib_repr es (attrib_run es attrib_init)" by simp
  from attrib_repr_step [OF this, of f evt t1 t2] snoc.prems show ?case
    by (simp add: e attrib_run_snoc)
qed

section \<open>Properties\<close>

text \<open>C22: attribution is exact while it fits. For up to 256 fingerprints and fewer than \<open>2 ^ 32 / 25\<close> events,
  the tier of every fingerprint is the tier of the sum of its own event scores, whatever else
  is recorded in between, and further events never lower it.\<close>

theorem attrib_tier_exact:
  assumes "card (fst ` set (es @ ds)) \<le> 256" and "25 * length (es @ ds) < 2 ^ 32"
  shows "attrib_score fp (attrib_run es attrib_init) = tier_of (total_score fp es) \<and>
     attrib_score fp (attrib_run es attrib_init) \<le> attrib_score fp (attrib_run (es @ ds) attrib_init)"
proof -
  have "card (fst ` set es) \<le> card (fst ` set (es @ ds))" by (rule card_mono) auto
  then have "attrib_repr es (attrib_run es attrib_init)" "attrib_repr (es @ ds) (attrib_run (es @ ds) attrib_init)"
    using assms by (auto intro!: attrib_repr_run)
  note s = this [THEN attrib_repr_score]
  have "total_score fp es \<le> total_score fp (es @ ds)" by (simp add: total_score_def)
  with s show ?thesis by (simp add: tier_of_mono)
qed

theorem attrib_tier_exact_witness:
  "attrib_score [1] (attrib_run [([1], EVT_SIG_FLOOD, 0, 0), ([2], EVT_REPLAY, 0, 0)] attrib_init) =
     tier_of (total_score [1] [([1], EVT_SIG_FLOOD, 0, 0), ([2], EVT_REPLAY, 0, 0)])"
  by (rule attrib_tier_exact [where ds = "[([1], EVT_REPLAY, 0, 0)]", THEN conjunct1])
    (simp_all add: card_insert_if)

end
