(* ===== verification/Rolling_Cage.thy ===== *)
theory Rolling_Cage
  imports Shadow
begin

text \<open>
  \<open>rolling_cage.c\<close>: the sessions in which attackers are held under rolling identities. A pointer to a
  session is an index; the clock, the random key and the hash \<open>H\<close> (32-byte digest) are arguments. \<open>ThreatAttrib\<close> is not
  defined anywhere in the repository: a pointer to one is an opaque value, and \<open>cage_open\<close> returns
  the pointer whose counter it increments.
\<close>

datatype CageState = CAGE_EMPTY | CAGE_ACTIVE | CAGE_ESCAPED | CAGE_RECAPTURED

record 'a CageSession =
  cage_id :: u64
  cage_round :: u8
  cage_state :: CageState
  cage_attacker :: sockaddr_in
  entered_ns :: u64
  last_action_ns :: u64
  escape_attempts :: u32
  session_key :: bytes
  tripwire_armed :: u8
  cage_attrib :: "'a option"

record 'a CageFarm =
  cages :: "'a CageSession list"
  cage_count :: nat

definition CAGE_MAX :: nat where "CAGE_MAX = 64"

definition zero_cage :: "'a CageSession" where
  "zero_cage = \<lparr>cage_id = 0, cage_round = 0, cage_state = CAGE_EMPTY,
     cage_attacker = \<lparr>sin_family = 0, sin_port = 0, sin_addr = 0\<rparr>, entered_ns = 0, last_action_ns = 0,
     escape_attempts = 0, session_key = replicate 32 0, tripwire_armed = 0, cage_attrib = None\<rparr>"

definition cage_init :: "'a CageFarm" where
  "cage_init = \<lparr>cages = replicate 64 zero_cage, cage_count = 0\<rparr>"

definition cage_lookup :: "u64 \<Rightarrow> 'a CageFarm \<Rightarrow> nat option" where
  "cage_lookup cid f = find_index (\<lambda>c. cage_id c = cid) (take (cage_count f) (cages f))"

text \<open>The identity: the first eight bytes of the hash of address, time and round.\<close>

definition cage_identity :: "hash_fun \<Rightarrow> u32 \<Rightarrow> u64 \<Rightarrow> u8 \<Rightarrow> u64" where
  "cage_identity H addr t round = le_word (take 8 (H (le_bytes 4 addr @ le_bytes 8 t @ [round])))"

definition cage_open ::
  "hash_fun \<Rightarrow> sockaddr_in \<Rightarrow> 'a option \<Rightarrow> u64 \<Rightarrow> bytes \<Rightarrow> 'a CageFarm \<Rightarrow> nat option \<times> 'a option \<times> 'a CageFarm" where
  "cage_open H addr a now key f =
     (if cage_count f \<ge> CAGE_MAX then (None, None, f)
      else let i = cage_count f;
               c = zero_cage\<lparr>cage_attacker := addr, cage_attrib := a, cage_state := CAGE_ACTIVE,
                     entered_ns := now, last_action_ns := now, cage_round := 0, session_key := key,
                     cage_id := cage_identity H (sin_addr addr) now 0, tripwire_armed := 1\<rparr>
           in (Some i, a, f\<lparr>cages := (cages f)[i := c], cage_count := i + 1\<rparr>))"

definition cage_roll :: "hash_fun \<Rightarrow> u64 \<Rightarrow> bytes \<Rightarrow> 'a CageSession \<Rightarrow> 'a CageSession" where
  "cage_roll H t key c =
     (let c = c\<lparr>cage_round := cage_round c + 1\<rparr>
      in c\<lparr>cage_id := cage_identity H (sin_addr (cage_attacker c)) t (cage_round c), session_key := key\<rparr>)"

definition cage_detect_escape :: "bytes option \<Rightarrow> u32 \<Rightarrow> 'a CageSession \<Rightarrow> int \<times> 'a CageSession" where
  "cage_detect_escape cmd len c =
     (case cmd of
        None \<Rightarrow> (0, c)
      | Some bs \<Rightarrow>
          if len < 4 then (0, c)
          else let sig = le_word (take 4 bs) :: u32
               in if sig = 0xDEADBEEF \<or> sig = 0xCAFEBABE
                  then (1, c\<lparr>escape_attempts := escape_attempts c + 1\<rparr>) else (0, c))"

definition cage_recapture :: "hash_fun \<Rightarrow> u64 \<Rightarrow> bytes \<Rightarrow> 'a CageSession \<Rightarrow> 'a CageSession" where
  "cage_recapture H t key c =
     (let c = c\<lparr>cage_state := CAGE_RECAPTURED, escape_attempts := escape_attempts c + 1\<rparr>;
          c = cage_roll H t key c
      in c\<lparr>cage_state := CAGE_ACTIVE, tripwire_armed := 1\<rparr>)"

definition cage_close :: "'a CageSession \<Rightarrow> 'a CageSession" where
  "cage_close c = c\<lparr>cage_state := CAGE_EMPTY\<rparr>"

section \<open>Histories\<close>

datatype 'a cage_op =
    Open sockaddr_in "'a option" u64 bytes
  | Roll nat u64 bytes
  | Detect nat "bytes option" u32
  | Recapture nat u64 bytes
  | Close nat

definition on_cage :: "nat \<Rightarrow> ('a CageSession \<Rightarrow> 'a CageSession) \<Rightarrow> 'a CageFarm \<Rightarrow> 'a CageFarm" where
  "on_cage i g f = f\<lparr>cages := (cages f)[i := g (cages f ! i)]\<rparr>"

text \<open>One call; an \<open>Open\<close> reports whether it got a session.\<close>

definition cage_step :: "hash_fun \<Rightarrow> 'a cage_op \<Rightarrow> 'a CageFarm \<Rightarrow> bool list \<times> 'a CageFarm" where
  "cage_step H x f =
     (case x of
        Open addr a now key \<Rightarrow> (let (r, _, f') = cage_open H addr a now key f in ([r \<noteq> None], f'))
      | Roll i t key \<Rightarrow> ([], on_cage i (cage_roll H t key) f)
      | Detect i cmd len \<Rightarrow> ([], on_cage i (\<lambda>c. snd (cage_detect_escape cmd len c)) f)
      | Recapture i t key \<Rightarrow> ([], on_cage i (cage_recapture H t key) f)
      | Close i \<Rightarrow> ([], on_cage i cage_close f))"

primrec cage_run :: "hash_fun \<Rightarrow> 'a cage_op list \<Rightarrow> 'a CageFarm \<Rightarrow> bool list \<times> 'a CageFarm" where
  "cage_run H [] f = ([], f)"
| "cage_run H (x # xs) f = (let (r, f) = cage_step H x f; (rs, f) = cage_run H xs f in (r @ rs, f))"

lemma on_cage_count [simp]: "cage_count (on_cage i g f) = cage_count f"
  by (simp add: on_cage_def)

lemma cage_run_opens:
  "cage_count f \<le> 64 \<Longrightarrow> fst (cage_run H xs f) = map (\<lambda>k. cage_count f + k < 64) [0..<length (fst (cage_run H xs f))]"
proof (induction xs arbitrary: f)
  case (Cons x xs)
  have shift: "map g [0..<Suc n] = g 0 # map (\<lambda>k. g (Suc k)) [0..<n]" for g :: "nat \<Rightarrow> bool" and n
    by (simp only: upt_conv_Cons zero_less_Suc list.map map_Suc_upt [symmetric] map_map comp_def)
  have on: "fst (cage_run H xs (on_cage i g f)) =
      map (\<lambda>k. cage_count f + k < 64) [0..<length (fst (cage_run H xs (on_cage i g f)))]" for i g
    using Cons.IH [of "on_cage i g f"] Cons.prems by simp
  show ?case
  proof (cases x)
    case (Open addr a now key)
    show ?thesis
    proof (cases "cage_count f < 64")
      case True
      then obtain g where g: "cage_step H x f = ([True], g)" "cage_count g = Suc (cage_count f)"
        by (simp add: Open cage_step_def cage_open_def CAGE_MAX_def Let_def)
      with True Cons.IH [of g] show ?thesis
        by (simp add: split_beta shift del: upt_Suc)
    next
      case False
      with Cons.prems have "cage_step H x f = ([False], f)"
        by (simp add: Open cage_step_def cage_open_def CAGE_MAX_def)
      with False Cons.IH [OF Cons.prems] show ?thesis
        by (simp add: split_beta shift del: upt_Suc)
    qed
  qed (simp_all add: cage_step_def split_beta, (rule on)+)
qed simp

section \<open>Properties\<close>

text \<open>sessions are never reused. In any history of calls exactly the first 64 attempts to open a session
  succeed; closing sessions does not make room, so after that every attacker stays uncaged.\<close>

theorem cage_opens_at_most_64:
  "fst (cage_run H xs cage_init) = map (\<lambda>k. k < 64) [0..<length (fst (cage_run H xs cage_init))]"
  using cage_run_opens [of cage_init H xs] by (simp add: cage_init_def)

text \<open>A recaptured session is active again, under the next round's identity, with one more attempt counted.\<close>

lemma cage_recapture_spec:
  "cage_state (cage_recapture H t key c) = CAGE_ACTIVE \<and> tripwire_armed (cage_recapture H t key c) = 1 \<and>
   cage_round (cage_recapture H t key c) = cage_round c + 1 \<and>
   escape_attempts (cage_recapture H t key c) = escape_attempts c + 1 \<and>
   cage_id (cage_recapture H t key c) = cage_identity H (sin_addr (cage_attacker c)) t (cage_round c + 1)"
  by (simp add: cage_recapture_def cage_roll_def Let_def)

end
