(* ===== verification/Phantom.thy ===== *)
theory Phantom
  imports Shadow
begin

text \<open>
  \<open>phantom.c\<close>: the farm of one hundred decoy controllers on consecutive ports. The random serials and the
  outcomes of \<open>socket\<close> and \<open>bind\<close> are arguments; a pointer into the farm is an index. \<open>captured_attrib\<close> points to a type the repository does not
  define and is an opaque value.
\<close>

datatype PhantomState = PHANTOM_IDLE | PHANTOM_ACTIVE | PHANTOM_TRIPPED | PHANTOM_CAGED

record 'a PhantomController =
  ph_device_id :: bytes
  ph_port :: u16
  ph_fd :: int
  ph_state :: PhantomState
  trip_time_ns :: u64
  hit_count :: u32
  decoy_serial :: bytes
  captured_attrib :: "'a option"

definition PHANTOM_COUNT :: nat where "PHANTOM_COUNT = 100"
definition PHANTOM_BASE_PORT :: nat where "PHANTOM_BASE_PORT = 5000"

definition phantom_fresh :: "(nat \<Rightarrow> bytes) \<Rightarrow> nat \<Rightarrow> 'a PhantomController" where
  "phantom_fresh serial i =
     \<lparr>ph_device_id = [0xDE, 0xC0, of_nat (i div 256), of_nat (i mod 256)],
      ph_port = of_nat (PHANTOM_BASE_PORT + i), ph_fd = -1, ph_state = PHANTOM_IDLE, trip_time_ns = 0,
      hit_count = 0, decoy_serial = serial i, captured_attrib = None\<rparr>"

definition phantom_init :: "(nat \<Rightarrow> bytes) \<Rightarrow> 'a PhantomController list" where
  "phantom_init serial = map (phantom_fresh serial) [0..<100]"

text \<open>The environment of \<open>phantom_bind_all\<close> for each phantom: what \<open>socket\<close> returns and whether \<open>bind\<close>
  succeeds.\<close>

definition phantom_bind :: "int \<times> bool \<Rightarrow> 'a PhantomController \<Rightarrow> bool \<times> 'a PhantomController" where
  "phantom_bind env p =
     (let (fd, bind_ok) = env;
          p = p\<lparr>ph_fd := fd\<rparr>
      in if fd < 0 then (False, p)
         else if \<not> bind_ok then (False, p\<lparr>ph_fd := -1\<rparr>)
         else (True, p\<lparr>ph_state := PHANTOM_ACTIVE\<rparr>))"

definition phantom_bind_all :: "(int \<times> bool) list \<Rightarrow> 'a PhantomController list \<Rightarrow> nat \<times> 'a PhantomController list" where
  "phantom_bind_all env farm =
     (let rs = map2 phantom_bind env farm in (length (filter fst rs), map snd rs))"

definition phantom_get :: "int \<Rightarrow> 'a PhantomController list \<Rightarrow> nat option" where
  "phantom_get fd farm = find_index (\<lambda>p. ph_fd p = fd) farm"

definition phantom_trip :: "u64 \<Rightarrow> 'a PhantomController \<Rightarrow> 'a PhantomController" where
  "phantom_trip now p = p\<lparr>ph_state := PHANTOM_TRIPPED, hit_count := hit_count p + 1, trip_time_ns := now\<rparr>"

definition phantom_reset :: "bytes \<Rightarrow> 'a PhantomController \<Rightarrow> 'a PhantomController" where
  "phantom_reset serial p = p\<lparr>ph_state := PHANTOM_ACTIVE, captured_attrib := None, decoy_serial := serial\<rparr>"

text \<open>The counts that \<open>phantom_status\<close> prints: active, tripped, caged.\<close>

definition phantom_status :: "'a PhantomController list \<Rightarrow> nat \<times> nat \<times> nat" where
  "phantom_status farm =
     (length (filter (\<lambda>p. ph_state p = PHANTOM_ACTIVE) farm),
      length (filter (\<lambda>p. ph_state p = PHANTOM_TRIPPED) farm),
      length (filter (\<lambda>p. ph_state p = PHANTOM_CAGED) farm))"

section \<open>Lemmas\<close>

lemma phantom_ports: "i < 100 \<Longrightarrow> unat (ph_port (phantom_init serial ! i)) = 5000 + i"
  by (simp add: phantom_init_def phantom_fresh_def PHANTOM_BASE_PORT_def unsigned_of_nat
      take_bit_nat_eq_self_iff del: of_nat_add)

lemma phantom_bound_fd:
  assumes "length env = 100" and "i < 100"
  shows "ph_fd (snd (phantom_bind_all env (phantom_init serial)) ! i) =
     (if 0 \<le> fst (env ! i) \<and> snd (env ! i) then fst (env ! i)
      else if fst (env ! i) < 0 then fst (env ! i) else -1)"
  using assms by (simp add: phantom_bind_all_def Let_def phantom_bind_def phantom_init_def split_beta)

section \<open>Properties\<close>

text \<open>finding the phantom of a connection. After the farm has been bound with distinct descriptors, looking up
  a descriptor that was bound gives exactly the phantom it was bound for.\<close>

theorem phantom_lookup_correct:
  assumes "length env = 100" and "i < 100" and "0 \<le> fst (env ! i)" and "snd (env ! i)"
    and "\<forall>j < 100. j \<noteq> i \<longrightarrow> fst (env ! j) \<noteq> fst (env ! i)"
  shows "phantom_get (fst (env ! i)) (snd (phantom_bind_all env (phantom_init serial)) :: 'a PhantomController list) = Some i"
proof -
  let ?farm = "snd (phantom_bind_all env (phantom_init serial)) :: 'a PhantomController list"
  have "length ?farm = 100" using assms(1) by (simp add: phantom_bind_all_def Let_def phantom_init_def)
  moreover have "ph_fd (?farm ! i) = fst (env ! i)" using phantom_bound_fd [OF assms(1,2)] assms(3,4) by simp
  moreover have "ph_fd (?farm ! j) \<noteq> fst (env ! i)" if "j < i" for j
    using that assms by (auto simp: phantom_bound_fd)
  ultimately show ?thesis using assms(2) by (simp add: phantom_get_def find_index_Some)
qed

theorem phantom_lookup_correct_witness:
  "phantom_get 57 (snd (phantom_bind_all (map (\<lambda>k. (int k + 50, True)) [0..<100]) (phantom_init (\<lambda>_. [])))) = Some 7"
  using phantom_lookup_correct [of "map (\<lambda>k. (int k + 50, True)) [0..<100]" 7 "\<lambda>_. []"] by simp

text \<open>A phantom whose socket could not be bound answers to descriptor -1, the value of a failed \<open>accept\<close>.\<close>

lemma phantom_get_unbound: "phantom_get (-1) (phantom_init serial) = Some 0"
  by (simp add: phantom_get_def phantom_init_def phantom_fresh_def find_index_Some)

lemma phantom_trip_reset:
  "ph_state (phantom_reset s (phantom_trip t p)) = PHANTOM_ACTIVE \<and> hit_count (phantom_reset s (phantom_trip t p)) = hit_count p + 1"
  by (simp add: phantom_reset_def phantom_trip_def)

end
