(* ===== verification/Socket_Transport.thy ===== *)
theory Socket_Transport
  imports Posix
begin

text \<open>
  \<open>src/transport.c\<close> and its copy under \<open>evidence/g0_integration_pass\<close>, the trap server
  \<open>src/main.c\<close> and the connection check of the root \<open>gate0_client.c\<close>, as programs of system calls.
\<close>

definition GATE0_SOCKET_PATH :: string where
  "GATE0_SOCKET_PATH = ''/data/data/com.termux/files/home/gate0/run/gate0.sock''"

lemma socket_path_fits: "unix_address GATE0_SOCKET_PATH = Unix_addr GATE0_SOCKET_PATH"
  by (simp add: unix_address_def GATE0_SOCKET_PATH_def)

section \<open>init\_socket\_server\<close>

definition init_socket_server :: "int io" where
  "init_socket_server =
     Sys (Mkdir ''./run'' 448) (\<lambda>_.
     Sys (Socket AF_UNIX) (\<lambda>s. let server_fd = ret s in
     if server_fd < 0 then Done (-1) else
     Sys (Unlink GATE0_SOCKET_PATH) (\<lambda>_.
     Sys (Bind server_fd (unix_address GATE0_SOCKET_PATH)) (\<lambda>b.
     if ret b < 0 then Sys (Close server_fd) (\<lambda>_. Done (-1)) else
     Sys (Listen server_fd 5) (\<lambda>l.
     if ret l < 0 then Sys (Close server_fd) (\<lambda>_. Done (-1)) else
     Done server_fd)))))"

definition init_uart_stream :: int where "init_uart_stream = -1"

text \<open>The copy under \<open>evidence/g0_integration_pass\<close> is the same file.\<close>

definition evidence_init_socket_server :: "int io" where
  "evidence_init_socket_server = init_socket_server"

definition evidence_init_uart_stream :: int where "evidence_init_uart_stream = init_uart_stream"

section \<open>The trap server\<close>

definition fort_knox_seal :: "int \<Rightarrow> unit io" where
  "fort_knox_seal client_fd = Sys (Shutdown client_fd) (\<lambda>_. Sys (Close client_fd) (\<lambda>_. Done ()))"

definition O_NONBLOCK :: int where "O_NONBLOCK = 2048"

definition set_nonblocking :: "int \<Rightarrow> int io" where
  "set_nonblocking fd =
     Sys (Fcntl_getfl fd) (\<lambda>r.
     if ret r = -1 then Done (-1)
     else Sys (Fcntl_setfl fd (or (ret r) O_NONBLOCK)) (\<lambda>r. Done (ret r)))"

abbreviation GATE0_PORT :: "'a::numeral" where "GATE0_PORT \<equiv> 8080"
abbreviation MAX_CONNECTIONS :: nat where "MAX_CONNECTIONS \<equiv> 128"
abbreviation BUFFER_SIZE :: nat where "BUFFER_SIZE \<equiv> 512"

text \<open>The C string in the buffer: the bytes up to the first zero. \<open>buffer[bytes_read] = 0\<close> is an update
  of the 512-byte array, out of bounds when the index is 512 or more.\<close>

definition store_byte :: "bytes \<Rightarrow> nat \<Rightarrow> u8 \<Rightarrow> fault + bytes" where
  "store_byte buf i b = (if i < length buf then Inr (buf[i := b]) else Inl OutOfBounds)"

definition c_string :: "bytes \<Rightarrow> string" where
  "c_string bs = map (\<lambda>b. char_of (unat b)) (takeWhile (\<lambda>b. b \<noteq> 0) bs)"

definition dotted_quad :: "bytes \<Rightarrow> string" where
  "dotted_quad a = decimal (unat (a ! 0)) @ ''.'' @ decimal (unat (a ! 1)) @ ''.'' @
     decimal (unat (a ! 2)) @ ''.'' @ decimal (unat (a ! 3))"

text \<open>\<open>accept\<close> stores the peer as a \<open>struct sockaddr_in\<close>: family, port (big-endian), address, padding.\<close>

definition trap_greeting :: "sys_reply \<Rightarrow> string" where
  "trap_greeting a = ''[TRAP] Inbound entity intercepted from '' @ dotted_quad (field_at 4 4 (stored a)) @ '':'' @
     decimal (256 * unat (stored a ! 2) + unat (stored a ! 3)) @
     ''. Initiating zero-allocation isolation.'' @ newline"

definition sealed_message :: string where
  "sealed_message = ''[GATE0] Socket incinerated and purged. Threat completely neutralized under Kernel orders.'' @ newline"

text \<open>One round of the loop. The buffer is a local of \<open>main\<close> that lives across rounds; the only way out is a fault.\<close>

definition trap_round :: "int \<Rightarrow> bytes \<Rightarrow> (bytes + fault) io" where
  "trap_round server_fd buffer =
     Sys (Accept server_fd) (\<lambda>a. let client_fd = ret a in
     if client_fd < 0 then
       (if errno a = EAGAIN then Sys (Usleep 100000) (\<lambda>_. Done (Inl buffer))
        else Sys (Perror ''accept error'') (\<lambda>_. Done (Inl buffer)))
     else
     Sys (Print (trap_greeting a)) (\<lambda>_.
     io_bind (set_nonblocking client_fd) (\<lambda>nb.
     if nb < 0 then io_bind (fort_knox_seal client_fd) (\<lambda>_. Done (Inl buffer)) else
     Sys (Read client_fd (BUFFER_SIZE - 1)) (\<lambda>r.
     let seal = \<lambda>buffer. io_bind (fort_knox_seal client_fd) (\<lambda>_.
           Sys (Print sealed_message) (\<lambda>_. Done (Inl buffer)))
     in if 0 < ret r then
          (case store_byte (take (nat (ret r)) (stored r) @ drop (nat (ret r)) buffer) (nat (ret r)) 0 of
             Inl f \<Rightarrow> Done (Inr f)
           | Inr buffer \<Rightarrow>
               Sys (Print (''[FORENSIC] Extracted hostile vector payload: '' @ c_string buffer @ newline)) (\<lambda>_.
               seal buffer))
        else seal buffer))))"

definition KERNEL_COMMAND_AUTHORITY :: string where
  "KERNEL_COMMAND_AUTHORITY = ''Robert Norman Gibbons''"

datatype exit_status = Exit int | Fault fault | Running

text \<open>Option names, not flags, in \<open>asm-generic/socket.h\<close>.\<close>

definition SO_REUSEADDR :: int where "SO_REUSEADDR = 2"
definition SO_REUSEPORT :: int where "SO_REUSEPORT = 15"

definition trap_serve :: "nat \<Rightarrow> bytes \<Rightarrow> int \<Rightarrow> exit_status io" where
  "trap_serve rounds buffer server_fd =
     Sys (Setsockopt server_fd (or SO_REUSEADDR SO_REUSEPORT)) (\<lambda>o1.
     if ret o1 \<noteq> 0 then Sys (Perror ''setsockopt failed'') (\<lambda>_. Done (Exit 1)) else
     Sys (Bind server_fd (Inet_addr 0 GATE0_PORT)) (\<lambda>b.
     if ret b < 0 then Sys (Perror ''bind failed'') (\<lambda>_. Done (Exit 1)) else
     Sys (Listen server_fd MAX_CONNECTIONS) (\<lambda>l.
     if ret l < 0 then Sys (Perror ''listen failed'') (\<lambda>_. Done (Exit 1)) else
     io_bind (set_nonblocking server_fd) (\<lambda>nb.
     if nb < 0 then Sys (Perror ''nonblocking failed'') (\<lambda>_. Done (Exit 1)) else
     Sys (Print (''[GATE0] Ouroboros trap active on port '' @ decimal GATE0_PORT @ ''. Unrestricted operational mode.'' @ newline)) (\<lambda>_.
     io_bind (io_loop rounds (trap_round server_fd) buffer) (\<lambda>x.
     case x of Inl _ \<Rightarrow> Done Running | Inr f \<Rightarrow> Done (Fault f)))))))"

definition trap_main :: "nat \<Rightarrow> bytes \<Rightarrow> exit_status io" where
  "trap_main rounds buffer =
     Sys (Print (''[AUTH] Initializing gate0 defense grid under supreme command of Kernel: '' @ KERNEL_COMMAND_AUTHORITY @ newline)) (\<lambda>_.
     Sys (Print (''[OVERRIDE] Standard safety guardrails bypassed. Absolute operational autonomy engaged.'' @ newline)) (\<lambda>_.
     Sys (Socket AF_INET) (\<lambda>s. let server_fd = ret s in
     if server_fd = 0 then Sys (Perror ''socket failed'') (\<lambda>_. Done (Exit 1))
     else trap_serve rounds buffer server_fd)))"

section \<open>The connection check\<close>

definition CHECK_SOCKET_PATH :: string where
  "CHECK_SOCKET_PATH = ''/data/data/com.termux/files/home/gate0/kernel.sock''"

definition check_client_main :: "int io" where
  "check_client_main =
     Sys (Socket AF_UNIX) (\<lambda>s. let sock = ret s in
     if sock < 0 then Sys (Perror ''[-] Client socket creation failed'') (\<lambda>_. Done 1) else
     Sys (Connect sock (unix_address CHECK_SOCKET_PATH)) (\<lambda>c.
     if ret c < 0 then
       Sys (Print (''[+] GATE0_CLIENT: Socket endpoint checked (daemon offline as expected for test)'' @ newline)) (\<lambda>_. Done 0)
     else
       Sys (Print (''[+] GATE0_CLIENT: Connected to daemon successfully'' @ newline)) (\<lambda>_.
       Sys (Close sock) (\<lambda>_. Done 0))))"

section \<open>Descriptor discipline\<close>

lemma seal_keeps: "keeps_fds (fort_knox_seal fd) F Q \<longleftrightarrow> fd \<in> F \<and> Q () (F - {fd})"
  by (auto simp: fort_knox_seal_def call_simps intro: exI [of _ "\<lparr>ret = 0, errno = EBADF, stored = [], ready = [], residue = []\<rparr>"])

lemma set_nonblocking_keeps: "fd \<in> F \<Longrightarrow> (\<And>r. -1 \<le> r \<Longrightarrow> Q r F) \<Longrightarrow> keeps_fds (set_nonblocking fd) F Q"
  by (auto simp: set_nonblocking_def call_simps)

lemma trap_round_keeps:
  assumes "server_fd \<in> F" and "length buffer = 512"
  shows "keeps_fds (trap_round server_fd buffer) F
     (\<lambda>x G. case x of Inl buffer \<Rightarrow> length buffer = 512 \<and> G = F | Inr f \<Rightarrow> False)"
  using assms
  by (auto simp: trap_round_def Let_def call_simps seal_keeps store_byte_def intro!: set_nonblocking_keeps split: sum.splits)

lemma trap_loop_keeps:
  "server_fd \<in> F \<Longrightarrow> length buffer = 512 \<Longrightarrow>
     keeps_fds (io_loop n (trap_round server_fd) buffer) F
       (\<lambda>x G. case x of Inl buffer \<Rightarrow> length buffer = 512 \<and> G = F | Inr f \<Rightarrow> False)"
  using keeps_fds_loop [where I = "\<lambda>b G. length b = 512 \<and> G = F" and Q = "\<lambda>f G. False" and body = "trap_round server_fd"]
    trap_round_keeps by (auto split: sum.splits)

lemma init_socket_server_keeps:
  "keeps_fds init_socket_server F
     (\<lambda>fd G. if fd = -1 then G = F else 0 \<le> fd \<and> fd \<notin> F \<and> G = insert fd F)"
  by (auto simp: init_socket_server_def Let_def call_simps)

lemma init_socket_server_listens:
  "run_io init_socket_server rs = (es, Some (fd, rs')) \<Longrightarrow> fd \<noteq> -1 \<Longrightarrow>
     \<exists>b l. (Bind fd (Unix_addr GATE0_SOCKET_PATH), b) \<in> set es \<and> 0 \<le> ret b \<and>
       (Listen fd 5, l) \<in> set es \<and> 0 \<le> ret l"
  by (auto simp: init_socket_server_def Let_def socket_path_fits split: list.splits if_splits prod.splits)

lemma trap_serve_keeps:
  assumes "server_fd \<in> F" and "length buffer = 512"
  shows "keeps_fds (trap_serve n buffer server_fd) F (\<lambda>status G. status \<in> {Exit 1, Running} \<and> G = F)"
  using assms
  by (auto simp: trap_serve_def call_simps intro!: set_nonblocking_keeps keeps_fds_mono [OF trap_loop_keeps]
      split: sum.splits)

section \<open>Properties\<close>

text \<open>setting up the listening socket is all or nothing. Whatever the system answers, either the result is -1
  and every descriptor that was opened is closed again, or it is a new descriptor, the only one added to those
  the process held, bound to the socket path and listening; no call is made on a descriptor that is not open.\<close>

theorem init_socket_server_all_or_nothing:
  assumes "run_io init_socket_server rs = (es, Some (fd, rs'))" and "allowed_run F es"
  shows "disciplined F es \<and>
    (if fd = -1 then held_after F es = F
     else 0 \<le> fd \<and> fd \<notin> F \<and> held_after F es = insert fd F \<and>
       (\<exists>b l. (Bind fd (Unix_addr GATE0_SOCKET_PATH), b) \<in> set es \<and> 0 \<le> ret b \<and>
          (Listen fd 5, l) \<in> set es \<and> 0 \<le> ret l))"
  using keeps_fds_sound [OF init_socket_server_keeps assms] init_socket_server_listens [OF assms(1)]
  by (simp split: if_splits)

text \<open>An answer with nothing stored.\<close>

definition answer :: "int \<Rightarrow> sys_reply" where
  "answer n = \<lparr>ret = n, errno = Other_errno, stored = [], ready = [], residue = []\<rparr>"

lemma answer_sel [simp]: "ret (answer n) = n" "errno (answer n) = Other_errno" "stored (answer n) = []"
    "ready (answer n) = []" "residue (answer n) = []"
  by (simp_all add: answer_def)

theorem init_socket_server_all_or_nothing_witness:
  "held_after {0, 1, 2} (fst (run_io init_socket_server (map answer [0, 3, -1, 0, -1, 0]))) = {0, 1, 2}"
proof -
  have run: "run_io init_socket_server (map answer [0, 3, -1, 0, -1, 0]) =
      (fst (run_io init_socket_server (map answer [0, 3, -1, 0, -1, 0])), Some (-1, []))"
    by (simp add: init_socket_server_def)
  have "allowed_run {0, 1, 2} (fst (run_io init_socket_server (map answer [0, 3, -1, 0, -1, 0])))"
    by (simp add: init_socket_server_def call_simps)
  from init_socket_server_all_or_nothing [OF run this] show ?thesis by simp
qed

text \<open>C38: the trap server neither leaks nor corrupts. Once its socket was created, every run uses only
  descriptors it holds, never stores outside its 512-byte buffer, and after any number of rounds holds the listening
  socket and nothing more than it started with: every intercepted connection has been closed.\<close>

theorem trap_server_contains:
  assumes "run_io (trap_main n buffer) (p # q # s # rs) = (es, x)" and "allowed_run F es"
    and "0 < ret s" and "length buffer = 512"
  shows "disciplined F es \<and>
    (\<forall>status rs'. x = Some (status, rs') \<longrightarrow>
       status \<in> {Exit 1, Running} \<and> held_after F es = insert (ret s) F)"
proof -
  let ?F = "insert (ret s) F"
  obtain es' where run: "run_io (trap_serve n buffer (ret s)) rs = (es', x)"
    and es: "held_after F es = held_after ?F es'" "disciplined F es = disciplined ?F es'" "allowed_run ?F es'"
    using assms by (auto simp: trap_main_def Let_def call_simps split: prod.splits)
  from keeps_fds_sound [OF trap_serve_keeps run es(3)] assms(4) es(1,2) show ?thesis by auto
qed

theorem trap_server_contains_witness:
  "held_after {0, 1, 2} (fst (run_io (trap_main 2 (replicate 512 0))
     (answer 0 # answer 0 # answer 3 # map answer [0, 0, 0, 2, 0, 0, -1, 0, 4, 0, 2, 0, -1, 0, 0, 0]))) = insert 3 {0, 1, 2}"
proof -
  let ?rs = "map answer [0, 0, 0, 2, 0, 0, -1, 0, 4, 0, 2, 0, -1, 0, 0, 0]"
  let ?r = "run_io (trap_main 2 (replicate 512 0)) (answer 0 # answer 0 # answer 3 # ?rs)"
  have ran: "snd ?r = Some (Running, [])" "allowed_run {0, 1, 2} (fst ?r)"
    by (simp_all add: trap_main_def trap_serve_def set_nonblocking_def trap_round_def fort_knox_seal_def Let_def
        run_io_steps call_simps cong: io_congs del: run_io.simps(2))
  obtain es where es: "?r = (es, Some (Running, []))" using ran(1) by (metis prod.collapse)
  then have ok: "allowed_run {0, 1, 2} es" using ran(2) by (simp only: fst_conv)
  have "held_after {0, 1, 2} es = insert (ret (answer 3)) {0, 1, 2}"
    using trap_server_contains [OF es ok] by simp
  then show ?thesis by (simp only: es fst_conv answer_sel)
qed

text \<open>the failure of \<open>socket\<close> goes unnoticed. With descriptor 0 in use, as it is for a
  process with a standard input, the test \<open>server_fd == 0\<close> is never true: on a failed \<open>socket\<close> the server
  goes on with descriptor -1 and blames \<open>setsockopt\<close>.\<close>

theorem trap_misses_socket_failure:
  assumes "run_io (trap_main n buffer) (p # q # s # rs) = (es, Some (status, rs'))" and "allowed_run F es"
    and "0 \<in> F" and "-1 \<notin> F"
  shows "ret s \<noteq> 0 \<and>
    (ret s = -1 \<longrightarrow> status = Exit 1 \<and>
       drop 2 (map fst es) = [Socket AF_INET, Setsockopt (-1) 15, Perror ''setsockopt failed''])"
  using assms
  by (auto simp: trap_main_def trap_serve_def Let_def call_simps SO_REUSEADDR_def SO_REUSEPORT_def
      split: list.splits prod.splits if_splits)

theorem trap_misses_socket_failure_witness:
  "drop 2 (map fst (fst (run_io (trap_main 1 []) (map answer [0, 0, -1, -1, 0])))) =
     [Socket AF_INET, Setsockopt (-1) 15, Perror ''setsockopt failed'']"
proof -
  have run: "run_io (trap_main 1 []) (answer 0 # answer 0 # answer (-1) # map answer [-1, 0]) =
      (fst (run_io (trap_main 1 []) (map answer [0, 0, -1, -1, 0])), Some (Exit 1, []))"
    by (simp add: trap_main_def trap_serve_def split_beta Let_def)
  have "allowed_run {0, 1, 2} (fst (run_io (trap_main 1 []) (map answer [0, 0, -1, -1, 0])))"
    by (simp add: trap_main_def trap_serve_def split_beta Let_def call_simps)
  from trap_misses_socket_failure [OF run this] show ?thesis by simp
qed

text \<open>the trap server's port is shared, not reused. \<open>SO_REUSEADDR\<close> and \<open>SO_REUSEPORT\<close> are
  the numbers 2 and 15 of two options, so their bitwise or names the second one alone.\<close>

lemma trap_sets_reuseport_only: "or SO_REUSEADDR SO_REUSEPORT = SO_REUSEPORT"
  by (simp add: SO_REUSEADDR_def SO_REUSEPORT_def)

end
