(* ===== verification/Phantom_Calls.thy ===== *)
theory Phantom_Calls
  imports Phantom Socket_Transport
begin

text \<open>
  \<open>phantom_bind_all\<close> of \<open>phantom.c\<close> as a program of system calls: one listening socket per phantom, on its
  port. The theory \<open>Phantom\<close> describes the same function by the outcomes of \<open>socket\<close> and \<open>bind\<close>.
\<close>

section \<open>The program\<close>

definition phantom_bind_io :: "'a PhantomController \<Rightarrow> (bool \<times> 'a PhantomController) io" where
  "phantom_bind_io p =
     Sys (Socket AF_INET) (\<lambda>s. let p = p\<lparr>ph_fd := ret s\<rparr> in
     if ph_fd p < 0 then Done (False, p) else
     Sys (Setsockopt (ph_fd p) SO_REUSEADDR) (\<lambda>_.
     Sys (Bind (ph_fd p) (Inet_addr 0 (ph_port p))) (\<lambda>b.
     if ret b < 0 then Sys (Close (ph_fd p)) (\<lambda>_. Done (False, p\<lparr>ph_fd := -1\<rparr>)) else
     Sys (Listen (ph_fd p) 4) (\<lambda>_. Done (True, p\<lparr>ph_state := PHANTOM_ACTIVE\<rparr>)))))"

primrec phantom_bind_all_io :: "'a PhantomController list \<Rightarrow> nat \<Rightarrow> (nat \<times> 'a PhantomController list) io" where
  "phantom_bind_all_io [] bound = Done (bound, [])"
| "phantom_bind_all_io (p # ps) bound =
     io_bind (phantom_bind_io p) (\<lambda>(ok, p).
     io_bind (phantom_bind_all_io ps (if ok then bound + 1 else bound)) (\<lambda>(bound, ps). Done (bound, p # ps)))"

section \<open>The calls refine the outcomes\<close>

lemma phantom_bind_io_run:
  assumes "run_io (phantom_bind_io p) rs = (es, Some (r, rs'))"
  shows "\<exists>env. phantom_bind env p = r"
proof -
  obtain s rs1 where rs: "rs = s # rs1" using assms by (cases rs) (auto simp: phantom_bind_io_def)
  show ?thesis
  proof (cases "ret s < 0")
    case True
    with assms rs show ?thesis
      by (intro exI [of _ "(ret s, True)"]) (auto simp: phantom_bind_io_def phantom_bind_def)
  next
    case False
    with assms rs obtain o1 b rs2 where rs1: "rs1 = o1 # b # rs2"
      by (auto simp: phantom_bind_io_def Let_def split: list.splits)
    with False assms rs show ?thesis
      by (intro exI [of _ "(ret s, 0 \<le> ret b)"])
        (auto simp: phantom_bind_io_def phantom_bind_def Let_def split: list.splits prod.splits if_splits)
  qed
qed

lemma run_io_bind_result:
  assumes "run_io (io_bind m f) rs = (es, Some (x, rs'))"
  obtains es1 a rs1 es2 where "run_io m rs = (es1, Some (a, rs1))" and "run_io (f a) rs1 = (es2, Some (x, rs'))"
    and "es = es1 @ es2"
  using assms by (auto simp: run_bind split: prod.splits option.splits)

lemma phantom_bind_all_io_run:
  "run_io (phantom_bind_all_io farm bound) rs = (es, Some ((n, farm'), rs')) \<Longrightarrow>
     \<exists>env. length env = length farm \<and> bound \<le> n \<and> phantom_bind_all env farm = (n - bound, farm')"
proof (induction farm arbitrary: bound rs es n farm')
  case Nil
  then show ?case by (simp add: phantom_bind_all_def)
next
  case (Cons p ps)
  obtain es1 ok p' rs1 es2 where b: "run_io (phantom_bind_io p) rs = (es1, Some ((ok, p'), rs1))"
    and l: "run_io (io_bind (phantom_bind_all_io ps (if ok then bound + 1 else bound)) (\<lambda>(bound, ps). Done (bound, p' # ps))) rs1 =
      (es2, Some ((n, farm'), rs'))"
    using Cons.prems unfolding phantom_bind_all_io.simps
    by (elim run_io_bind_result) (auto simp: split_beta)
  obtain es3 ps' where "run_io (phantom_bind_all_io ps (if ok then bound + 1 else bound)) rs1 = (es3, Some ((n, ps'), rs'))"
    and farm: "farm' = p' # ps'"
    using l by (elim run_io_bind_result) (auto simp: split_beta)
  from Cons.IH [OF this(1)] obtain env where env: "length env = length ps"
    "phantom_bind_all env ps = (n - (if ok then bound + 1 else bound), ps')" "(if ok then bound + 1 else bound) \<le> n" by auto
  obtain e where "phantom_bind e p = (ok, p')" using phantom_bind_io_run [OF b] by blast
  with env farm show ?case
    by (intro exI [of _ "e # env"]) (auto simp: phantom_bind_all_def Let_def)
qed

section \<open>Descriptors\<close>

definition bound_fds :: "'a PhantomController list \<Rightarrow> int list" where
  "bound_fds farm = filter (\<lambda>fd. 0 \<le> fd) (map ph_fd farm)"

lemma distinct_filter_nth:
  "distinct (filter P xs) \<Longrightarrow> j < i \<Longrightarrow> i < length xs \<Longrightarrow> P (xs ! i) \<Longrightarrow> xs ! j \<noteq> xs ! i"
proof (induction xs arbitrary: i j)
  case (Cons x xs)
  then obtain k where "i = Suc k" by (cases i) auto
  with Cons show ?case by (cases j) (auto split: if_splits)
qed simp

text \<open>What the farm and the process hold after binding, from descriptors \<open>F\<close>.\<close>

definition farm_holds :: "int set \<Rightarrow> nat \<Rightarrow> nat \<Rightarrow> nat \<times> 'a PhantomController list \<Rightarrow> int set \<Rightarrow> bool" where
  "farm_holds F k bound r G \<longleftrightarrow>
     length (snd r) = k \<and> fst r = bound + length (bound_fds (snd r)) \<and> distinct (bound_fds (snd r)) \<and>
     set (bound_fds (snd r)) \<inter> F = {} \<and> G = F \<union> set (bound_fds (snd r)) \<and> (\<forall>p \<in> set (snd r). -1 \<le> ph_fd p)"

lemma phantom_bind_io_keeps:
  "keeps_fds (phantom_bind_io p) F (\<lambda>(ok, p') G.
     if ok then 0 \<le> ph_fd p' \<and> ph_fd p' \<notin> F \<and> G = insert (ph_fd p') F else ph_fd p' = -1 \<and> G = F)"
  by (auto simp: phantom_bind_io_def Let_def call_simps)

lemma phantom_bind_all_io_keeps:
  "keeps_fds (phantom_bind_all_io farm bound) F (farm_holds F (length farm) bound)"
proof (induction farm arbitrary: bound F)
  case Nil
  show ?case by (simp add: farm_holds_def bound_fds_def)
next
  case (Cons p ps)
  have rest: "keeps_fds (phantom_bind_all_io ps b) G (\<lambda>(n, ps'). farm_holds F (Suc (length ps)) bound (n, p' # ps'))"
    if "b = (if ok then bound + 1 else bound)"
      and "if ok then 0 \<le> ph_fd p' \<and> ph_fd p' \<notin> F \<and> G = insert (ph_fd p') F else ph_fd p' = -1 \<and> G = F"
    for ok p' b G
    using that by (intro keeps_fds_mono [OF Cons.IH]) (auto simp: farm_holds_def bound_fds_def split: if_splits)
  show ?case
    unfolding phantom_bind_all_io.simps keeps_fds_bind
    by (rule keeps_fds_mono [OF phantom_bind_io_keeps]) (auto simp: split_beta intro: rest [unfolded split_beta])
qed

section \<open>Properties\<close>

text \<open>binding the farm. After \<open>phantom_bind_all\<close> on a fresh farm, whatever the system answers, the process holds what it
  held before and one descriptor for each phantom that could be bound, which are as many as it reports; a phantom is
  found by its descriptor and no other phantom has it.\<close>

theorem phantom_farm_bound:
  assumes "run_io (phantom_bind_all_io (phantom_init serial) 0) rs = (es, Some ((n, farm), rs'))" and "allowed_run F es"
  shows "disciplined F es \<and> held_after F es = F \<union> set (bound_fds farm) \<and> n = length (bound_fds farm) \<and>
    (\<forall>i < 100. 0 \<le> ph_fd (farm ! i) \<longrightarrow> phantom_get (ph_fd (farm ! i)) farm = Some i)"
proof -
  have d: "disciplined F es" and h: "farm_holds F 100 0 (n, farm) (held_after F es)"
    using keeps_fds_sound [OF phantom_bind_all_io_keeps assms] by (simp_all add: phantom_init_def)
  then have len: "length farm = 100" and dist: "distinct (bound_fds farm)" by (simp_all add: farm_holds_def)
  have "phantom_get (ph_fd (farm ! i)) farm = Some i" if "i < 100" "0 \<le> ph_fd (farm ! i)" for i
  proof -
    have "ph_fd (farm ! j) \<noteq> ph_fd (farm ! i)" if "j < i" for j
      using distinct_filter_nth [OF dist [unfolded bound_fds_def], of j i] that \<open>i < 100\<close> \<open>0 \<le> _\<close> len by auto
    then show ?thesis using that len by (simp add: phantom_get_def find_index_Some)
  qed
  with d h show ?thesis by (simp add: farm_holds_def)
qed

text \<open>binding it again. A second call overwrites the descriptors that the phantoms have without closing them: whatever the
  process held before stays open, and no phantom has any of it.\<close>

theorem phantom_rebind_loses:
  assumes "run_io (phantom_bind_all_io farm 0) rs = (es, Some ((n, farm'), rs'))" and "allowed_run F es"
    and "F \<subseteq> {0..}"
  shows "F \<subseteq> held_after F es \<and> (\<forall>p \<in> set farm'. ph_fd p \<notin> F)"
  using keeps_fds_sound [OF phantom_bind_all_io_keeps assms(1,2)] assms(3)
  by (force simp: farm_holds_def bound_fds_def)

theorem phantom_rebind_loses_witness:
  "5 \<in> held_after {0, 1, 2, 5} (fst (run_io (phantom_bind_all_io [(phantom_fresh (\<lambda>_. []) 0 :: unit PhantomController)\<lparr>ph_fd := 5\<rparr>] 0) (map answer [6, 0, -1, 0])))"
proof -
  let ?r = "run_io (phantom_bind_all_io [(phantom_fresh (\<lambda>_. []) 0 :: unit PhantomController)\<lparr>ph_fd := 5\<rparr>] 0) (map answer [6, 0, -1, 0])"
  have ran: "\<exists>n farm. snd ?r = Some ((n, farm), [])" "allowed_run {0, 1, 2, 5} (fst ?r)"
    by (simp_all add: phantom_bind_io_def Let_def call_simps)
  obtain n farm where "snd ?r = Some ((n, farm), [])" using ran(1) by blast
  then have "?r = (fst ?r, Some ((n, farm), []))" by (simp only: prod_eq_iff fst_conv snd_conv)
  from phantom_rebind_loses [OF this ran(2)] show ?thesis by auto
qed

text \<open>When no socket can be had, the farm stays unbound.\<close>

lemma phantom_no_sockets:
  "run_io (phantom_bind_all_io farm b) (replicate (length farm) (answer (-1))) =
     (replicate (length farm) (Socket AF_INET, answer (-1)), Some ((b, map (\<lambda>p. p\<lparr>ph_fd := -1\<rparr>) farm), []))"
  by (induction farm) (simp_all add: phantom_bind_io_def run_bind)

theorem phantom_farm_bound_witness:
  "held_after {0, 1, 2} (fst (run_io (phantom_bind_all_io (phantom_init (\<lambda>_. []) :: unit PhantomController list) 0) (replicate 100 (answer (-1))))) = {0, 1, 2}"
proof -
  let ?farm = "phantom_init (\<lambda>_. []) :: unit PhantomController list"
  have "length ?farm = 100" by (simp add: phantom_init_def)
  note run = phantom_no_sockets [of ?farm 0, unfolded this]
  have ok: "allowed_run {0, 1, 2} (replicate k (Socket AF_INET, answer (-1)))" for k
    by (induction k) (simp_all add: call_simps)
  from phantom_farm_bound [OF run ok] show ?thesis
    unfolding run by (simp add: bound_fds_def comp_def)
qed

end
