(* ===== verification/Mtk.thy ===== *)
theory Mtk
  imports Gate0_Prelude
begin

text \<open>
  \<open>mtk.c\<close>, \<open>mtk.h\<close>: the moving-target key, a key derived from a seed and a counter that advances with every
  use. The hash \<open>H\<close> is \<open>crypto_generichash\<close> with a 32-byte digest. The hazard slots belong to the readers;
  within one call they do not change, so a call that finds one taken spins forever: \<open>None\<close>.
\<close>

record MTKState =
  mtk_seed :: bytes
  mtk_current_key :: bytes
  mtk_counter :: u64
  mtk_last_rotation_ns :: u64
  mtk_access_attempts :: u32
  mtk_legitimate_accesses :: u32
  mtk_hazard :: "u64 list"

abbreviation MTK_KEY_LEN :: nat where "MTK_KEY_LEN \<equiv> 32"
abbreviation MTK_SEED_LEN :: nat where "MTK_SEED_LEN \<equiv> 32"

definition MTK_MAX_READERS :: nat where "MTK_MAX_READERS = 8"

definition mtk_hazard_acquire :: "nat \<Rightarrow> u64 \<Rightarrow> MTKState \<Rightarrow> MTKState" where
  "mtk_hazard_acquire slot ptr m = m\<lparr>mtk_hazard := (mtk_hazard m)[slot := ptr]\<rparr>"

definition mtk_hazard_release :: "nat \<Rightarrow> MTKState \<Rightarrow> MTKState" where
  "mtk_hazard_release slot m = m\<lparr>mtk_hazard := (mtk_hazard m)[slot := 0]\<rparr>"

definition mtk_derive :: "hash_fun \<Rightarrow> MTKState \<Rightarrow> bytes" where
  "mtk_derive H m = H (mtk_seed m @ le_bytes 8 (mtk_counter m))"

text \<open>The spin loops over the hazard slots return when every slot is clear.\<close>

definition hazards_clear :: "MTKState \<Rightarrow> bool" where
  "hazards_clear m \<longleftrightarrow> list_all (\<lambda>h. h = 0) (mtk_hazard m)"

definition mtk_init :: "hash_fun \<Rightarrow> bytes \<Rightarrow> u64 \<Rightarrow> MTKState option" where
  "mtk_init H seed now =
     (let m = \<lparr>mtk_seed = take MTK_SEED_LEN seed, mtk_current_key = replicate MTK_KEY_LEN 0, mtk_counter = 0,
            mtk_last_rotation_ns = now, mtk_access_attempts = 0, mtk_legitimate_accesses = 0,
            mtk_hazard = replicate MTK_MAX_READERS 0\<rparr>
      in if hazards_clear m then Some (m\<lparr>mtk_current_key := mtk_derive H m\<rparr>) else None)"

definition mtk_rotate :: "hash_fun \<Rightarrow> u64 \<Rightarrow> MTKState \<Rightarrow> MTKState option" where
  "mtk_rotate H now m =
     (let m = m\<lparr>mtk_counter := mtk_counter m + 1, mtk_access_attempts := mtk_access_attempts m + 1,
               mtk_last_rotation_ns := now\<rparr>
      in if hazards_clear m then Some (m\<lparr>mtk_current_key := mtk_derive H m\<rparr>) else None)"

definition mtk_verify :: "hash_fun \<Rightarrow> bytes \<Rightarrow> u64 \<Rightarrow> MTKState \<Rightarrow> (bool \<times> MTKState) option" where
  "mtk_verify H key now m =
     (let m = m\<lparr>mtk_access_attempts := mtk_access_attempts m + 1\<rparr>;
          valid = (take MTK_KEY_LEN key = mtk_derive H m)
      in case mtk_rotate H now m of
           None \<Rightarrow> None
         | Some m \<Rightarrow> Some (valid, if valid then m\<lparr>mtk_legitimate_accesses := mtk_legitimate_accesses m + 1\<rparr> else m))"

primrec mtk_run :: "hash_fun \<Rightarrow> (bytes \<times> u64) list \<Rightarrow> MTKState \<Rightarrow> (bool list \<times> MTKState) option" where
  "mtk_run H [] m = Some ([], m)"
| "mtk_run H (a # as) m =
     (case mtk_verify H (fst a) (snd a) m of
        None \<Rightarrow> None
      | Some (v, m) \<Rightarrow> (case mtk_run H as m of None \<Rightarrow> None | Some (vs, m) \<Rightarrow> Some (v # vs, m)))"

text \<open>The key of the \<open>i\<close>-th period.\<close>

definition period_key :: "hash_fun \<Rightarrow> bytes \<Rightarrow> u64 \<Rightarrow> bytes" where
  "period_key H seed n = H (seed @ le_bytes 8 n)"

lemma mtk_verify_clear:
  assumes "hazards_clear m"
  shows "\<exists>m'. mtk_verify H key now m = Some (take 32 key = period_key H (mtk_seed m) (mtk_counter m), m') \<and>
     hazards_clear m' \<and> mtk_seed m' = mtk_seed m \<and> mtk_counter m' = mtk_counter m + 1 \<and>
     mtk_access_attempts m' = mtk_access_attempts m + 2 \<and>
     mtk_current_key m' = period_key H (mtk_seed m) (mtk_counter m + 1)"
  using assms by (simp add: mtk_verify_def mtk_rotate_def mtk_derive_def hazards_clear_def period_key_def Let_def)

lemma mtk_run_clear:
  "hazards_clear m \<Longrightarrow> \<exists>m'. mtk_run H as m =
     Some (map (\<lambda>i. take 32 (fst (as ! i)) = period_key H (mtk_seed m) (mtk_counter m + of_nat i)) [0..<length as], m') \<and>
     hazards_clear m' \<and> mtk_seed m' = mtk_seed m \<and> mtk_counter m' = mtk_counter m + of_nat (length as) \<and>
     mtk_access_attempts m' = mtk_access_attempts m + 2 * of_nat (length as)"
proof (induction as arbitrary: m)
  case (Cons a as)
  from mtk_verify_clear [OF Cons.prems, of H "fst a" "snd a"] obtain m1 where
    v: "mtk_verify H (fst a) (snd a) m = Some (take 32 (fst a) = period_key H (mtk_seed m) (mtk_counter m), m1)"
    and m1: "hazards_clear m1" "mtk_seed m1 = mtk_seed m" "mtk_counter m1 = mtk_counter m + 1"
      "mtk_access_attempts m1 = mtk_access_attempts m + 2" by blast
  have shift: "map f [0..<length (a # as)] = f 0 # map (\<lambda>i. f (Suc i)) [0..<length as]" for f :: "nat \<Rightarrow> bool"
    by (simp only: length_Cons upt_conv_Cons zero_less_Suc list.map map_Suc_upt [symmetric] map_map comp_def)
  from Cons.IH [OF m1(1)] v m1 show ?case unfolding shift by (auto simp: algebra_simps)
qed simp

section \<open>Properties\<close>

text \<open>C24: one key per attempt. While no reader holds a hazard slot every verification returns, and in any run of
  attempts the \<open>i\<close>-th one succeeds exactly when it presents the key of period \<open>i\<close>: a key is good for one
  attempt, and a wrong guess uses up the period as well. Each attempt is counted twice.\<close>

theorem mtk_run_periods:
  assumes "mtk_init H seed now = Some m"
  shows "\<exists>m'. mtk_run H as m =
     Some (map (\<lambda>i. take 32 (fst (as ! i)) = period_key H (take 32 seed) (of_nat i)) [0..<length as], m') \<and>
     mtk_access_attempts m' = 2 * of_nat (length as)"
proof -
  have m: "hazards_clear m" "mtk_seed m = take 32 seed" "mtk_counter m = 0" "mtk_access_attempts m = 0"
    using assms by (auto simp: mtk_init_def Let_def hazards_clear_def split: if_splits)
  from mtk_run_clear [OF m(1), of H as] show ?thesis by (auto simp: m(2-4))
qed

theorem mtk_run_periods_witness:
  "\<exists>m'. mtk_run demo_hash [(replicate 32 1, 5 :: u64)] (the (mtk_init demo_hash (replicate 32 1) 0)) =
     Some (map (\<lambda>i. take 32 (fst ([(replicate 32 1, 5 :: u64)] ! i)) = period_key demo_hash (take 32 (replicate 32 1)) (of_nat i))
       [0..<length [(replicate 32 (1 :: u8), 5 :: u64)]], m') \<and>
     mtk_access_attempts m' = 2 * of_nat (length [(replicate 32 (1 :: u8), 5 :: u64)])"
  by (rule mtk_run_periods [where now = 0]) (simp add: mtk_init_def Let_def hazards_clear_def list_all_length)

text \<open>A verification while a hazard slot is taken, the caller's own included, never returns.\<close>

lemma mtk_hazard_spins:
  "slot < length (mtk_hazard m) \<Longrightarrow> ptr \<noteq> 0 \<Longrightarrow> mtk_verify H key now (mtk_hazard_acquire slot ptr m) = None"
  by (auto simp: mtk_verify_def mtk_rotate_def hazards_clear_def mtk_hazard_acquire_def Let_def list_all_length
      intro: exI [of _ slot])

end
