(* ===== verification/Pending_State.thy ===== *)
theory Pending_State
  imports Gate0_Prelude
begin

text \<open>
  \<open>pending_state.c\<close>: the single outstanding command that waits for its confirmation. Readings of
  the monotonic clock are arguments, one for each call of \<open>now_ns\<close> in order.
\<close>

datatype PendingStatus = PS_IDLE | PS_PENDING | PS_CONFIRMED | PS_EXPIRED

record PendingState =
  ps_sequence :: u64
  ps_issued_ns :: u64
  ps_expiry_ns :: u64
  ps_status :: PendingStatus
  ps_device_id :: bytes

definition ps_init :: PendingState where
  "ps_init = \<lparr>ps_sequence = 0, ps_issued_ns = 0, ps_expiry_ns = 0, ps_status = PS_IDLE,
     ps_device_id = replicate 32 0\<rparr>"

definition ps_expire_check :: "u64 \<Rightarrow> PendingState \<Rightarrow> PendingState" where
  "ps_expire_check now ps =
     (if ps_status ps \<noteq> PS_PENDING then ps
      else if now > ps_expiry_ns ps then ps\<lparr>ps_status := PS_EXPIRED\<rparr>
      else ps)"

definition ps_set_pending :: "u64 \<Rightarrow> u64 \<Rightarrow> bytes \<Rightarrow> u64 \<Rightarrow> u64 \<Rightarrow> PendingState \<Rightarrow> int \<times> PendingState" where
  "ps_set_pending seq expiry_ns dev_id t1 t2 ps =
     (let ps = ps_expire_check t1 ps in
      if ps_status ps = PS_PENDING then (-1, ps)
      else (0, ps\<lparr>ps_sequence := seq, ps_issued_ns := t2, ps_expiry_ns := expiry_ns,
                 ps_status := PS_PENDING, ps_device_id := take 32 dev_id\<rparr>))"

definition ps_confirm :: "u64 \<Rightarrow> PendingState \<Rightarrow> int \<times> PendingState" where
  "ps_confirm seq ps =
     (if ps_status ps \<noteq> PS_PENDING then (-1, ps)
      else if ps_sequence ps \<noteq> seq then (-1, ps)
      else (0, ps\<lparr>ps_status := PS_CONFIRMED\<rparr>))"

text \<open>\<open>new_seq\<close> is unused.\<close>

definition ps_check_safe :: "u64 \<Rightarrow> u64 \<Rightarrow> PendingState \<Rightarrow> int \<times> PendingState" where
  "ps_check_safe new_seq now ps =
     (let ps = ps_expire_check now ps in
      if ps_status ps = PS_PENDING then (-1, ps) else (0, ps))"

section \<open>Histories\<close>

datatype ps_op = Set_pending u64 u64 bytes u64 u64 | Confirm u64 | Check_safe u64 u64 | Expire_check u64

datatype ps_success = Pended u64 | Confirmed u64

text \<open>One call, with what it achieved.\<close>

definition ps_step :: "ps_op \<Rightarrow> PendingState \<Rightarrow> ps_success list \<times> PendingState" where
  "ps_step a ps =
     (case a of
        Set_pending seq e d t1 t2 \<Rightarrow>
          (let (r, ps') = ps_set_pending seq e d t1 t2 ps in (if r = 0 then [Pended seq] else [], ps'))
      | Confirm seq \<Rightarrow> (let (r, ps') = ps_confirm seq ps in (if r = 0 then [Confirmed seq] else [], ps'))
      | Check_safe n t \<Rightarrow> ([], snd (ps_check_safe n t ps))
      | Expire_check t \<Rightarrow> ([], ps_expire_check t ps))"

primrec ps_run :: "ps_op list \<Rightarrow> PendingState \<Rightarrow> ps_success list \<times> PendingState" where
  "ps_run [] ps = ([], ps)"
| "ps_run (a # as) ps = (let (x, ps) = ps_step a ps; (xs, ps) = ps_run as ps in (x @ xs, ps))"

lemma ps_run_snoc:
  "ps_run (as @ [a]) ps = (fst (ps_run as ps) @ fst (ps_step a (snd (ps_run as ps))), snd (ps_step a (snd (ps_run as ps))))"
  by (induction as arbitrary: ps) (simp_all add: split_beta Let_def)

text \<open>A pending command is the latest success of the history; each confirmation follows its own command.\<close>

definition ps_log_ok :: "ps_success list \<Rightarrow> bool" where
  "ps_log_ok xs \<longleftrightarrow> (\<forall>i n. i < length xs \<longrightarrow> xs ! i = Confirmed n \<longrightarrow> 0 < i \<and> xs ! (i - 1) = Pended n)"

lemma ps_log_snoc:
  "ps_log_ok xs \<Longrightarrow> (\<And>n. x = Confirmed n \<Longrightarrow> xs \<noteq> [] \<and> last xs = Pended n) \<Longrightarrow> ps_log_ok (xs @ [x])"
  by (auto simp: ps_log_ok_def nth_append less_Suc_eq last_conv_nth)

lemma ps_run_log:
  "ps_log_ok (fst (ps_run as ps_init)) \<and>
   (ps_status (snd (ps_run as ps_init)) = PS_PENDING \<longrightarrow>
      fst (ps_run as ps_init) \<noteq> [] \<and> last (fst (ps_run as ps_init)) = Pended (ps_sequence (snd (ps_run as ps_init))))"
proof (induction as rule: rev_induct)
  case Nil
  show ?case by (simp add: ps_log_ok_def ps_init_def)
next
  case (snoc a as)
  let ?x = "fst (ps_run as ps_init)" and ?s = "snd (ps_run as ps_init)"
  have "ps_log_ok (?x @ fst (ps_step a ?s)) \<and>
      (ps_status (snd (ps_step a ?s)) = PS_PENDING \<longrightarrow> ?x @ fst (ps_step a ?s) \<noteq> [] \<and>
        last (?x @ fst (ps_step a ?s)) = Pended (ps_sequence (snd (ps_step a ?s))))"
    using snoc
    by (cases a) (auto simp: ps_step_def ps_set_pending_def ps_confirm_def ps_check_safe_def
        ps_expire_check_def Let_def intro!: ps_log_snoc split: if_splits)
  then show ?case by (simp add: ps_run_snoc)
qed

section \<open>Properties\<close>

text \<open>C25: confirmations answer commands one to one. In any history of calls from the initial state every
  successful confirmation of a number comes directly after the successful command with that number,
  among the successful calls: nothing is confirmed twice, out of order or unasked.\<close>

theorem ps_confirms_match:
  assumes "fst (ps_run as ps_init) = xs @ Confirmed n # ys"
  shows "xs \<noteq> [] \<and> last xs = Pended n"
  using ps_run_log [of as, THEN conjunct1] assms
  by (auto simp: ps_log_ok_def last_conv_nth nth_append dest!: spec [of _ "length xs"])

theorem ps_confirms_match_witness:
  "[Pended 5] \<noteq> [] \<and> last [Pended 5] = Pended 5"
  by (rule ps_confirms_match [where as = "[Set_pending 5 100 [] 1 1, Confirm 5]" and ys = "[]"])
    (simp add: ps_step_def ps_set_pending_def ps_confirm_def ps_expire_check_def ps_init_def)

text \<open>A confirmation does not look at the clock: it succeeds after the expiry time has passed, as long as no
  other call has noticed.\<close>

lemma ps_late_confirm:
  "fst (ps_set_pending seq e d t1 t2 ps) = 0 \<Longrightarrow>
     fst (ps_confirm seq (snd (ps_set_pending seq e d t1 t2 ps))) = 0"
  by (auto simp: ps_set_pending_def ps_confirm_def Let_def split: if_splits)

end
