(* ===== verification/Consequence.thy ===== *)
theory Consequence
  imports Posix
begin

text \<open>
  \<open>consequence_state.c\<close> and \<open>gate0_signer.c\<close>: the plant limits that are consulted before a token is signed, the
  reader of the textual log, and the signing program that uses both. A \<open>double\<close> is its IEEE 754
  bit pattern, on which the comparisons of C are defined exactly; strings are byte arrays that end at the first zero byte.
\<close>

section \<open>Doubles and strings\<close>

definition is_nan :: "u64 \<Rightarrow> bool" where
  "is_nan d \<longleftrightarrow> take_bit 63 d > 0x7FF0000000000000"

definition double_key :: "u64 \<Rightarrow> int" where
  "double_key d = (if bit d 63 then - uint (take_bit 63 d) else uint (take_bit 63 d))"

definition double_less :: "u64 \<Rightarrow> u64 \<Rightarrow> bool" where
  "double_less a b \<longleftrightarrow> \<not> is_nan a \<and> \<not> is_nan b \<and> double_key a < double_key b"

definition c_string :: "bytes \<Rightarrow> bytes" where
  "c_string bs = takeWhile (\<lambda>b. b \<noteq> 0) bs"

text \<open>\<open>strncpy(dst, src, n)\<close>: the string, cut at \<open>n\<close> and padded with zeros to \<open>n\<close>.\<close>

definition strncpy :: "nat \<Rightarrow> bytes \<Rightarrow> bytes" where
  "strncpy n src = take n (c_string src @ replicate n 0)"

text \<open>\<open>strtoull(s, NULL, 10)\<close>: white space, a sign, digits; saturating, negated modulo \<open>2 ^ 64\<close>.\<close>

definition is_space :: "u8 \<Rightarrow> bool" where
  "is_space b \<longleftrightarrow> b = 32 \<or> (9 \<le> b \<and> b \<le> 13)"

definition is_digit :: "u8 \<Rightarrow> bool" where
  "is_digit b \<longleftrightarrow> 48 \<le> b \<and> b \<le> 57"

definition digits_number :: "bytes \<Rightarrow> nat" where
  "digits_number ds = foldl (\<lambda>n d. 10 * n + unat (d - 48)) 0 ds"

definition strtoull :: "bytes \<Rightarrow> u64" where
  "strtoull s =
     (let s = dropWhile is_space s;
          neg = (s \<noteq> [] \<and> hd s = 45);
          s = (if s \<noteq> [] \<and> (hd s = 45 \<or> hd s = 43) then tl s else s);
          n = digits_number (takeWhile is_digit s)
      in if n \<ge> 2 ^ 64 then - 1 else if neg then - of_nat n else of_nat n)"

text \<open>The pieces that \<open>fgets\<close> into a buffer of \<open>n + 1\<close> bytes returns.\<close>

function fgets_lines :: "nat \<Rightarrow> bytes \<Rightarrow> bytes list" where
  "fgets_lines n bs =
     (if bs = [] \<or> n = 0 then []
      else let k = min n (Suc (length (takeWhile (\<lambda>b. b \<noteq> 10) bs)))
           in take k bs # fgets_lines n (drop k bs))"
  by pat_completeness auto
termination
  by (relation "measure (\<lambda>(n, bs). length bs)") auto

declare fgets_lines.simps [simp del]

section \<open>The consequence state\<close>

record ProcessVar =
  pv_name :: bytes
  pv_value :: u64
  pv_min_safe :: u64
  pv_max_safe :: u64
  pv_in_violation :: u8

record ConsequenceState =
  cs_last_sequence :: u64
  cs_commands_executed :: u64
  cs_last_update :: "u64 \<times> u64"
  cs_vars :: "ProcessVar list"   \<comment> \<open>the first \<open>var_count\<close> entries of the array\<close>
  cs_authority_suspended :: bool
  cs_suspension_reason :: bytes

datatype cs_result = CS_AUTHORIZED | CS_DENIED_UNSAFE | CS_DENIED_SUSPEND | CS_WAL_READ_ERR

fun cs_code :: "cs_result \<Rightarrow> int" where
  "cs_code CS_AUTHORIZED = 0"
| "cs_code CS_DENIED_UNSAFE = 1"
| "cs_code CS_DENIED_SUSPEND = 2"
| "cs_code CS_WAL_READ_ERR = 3"

definition cs_init :: "u64 \<times> u64 \<Rightarrow> ConsequenceState" where
  "cs_init clock = \<lparr>cs_last_sequence = 0, cs_commands_executed = 0, cs_last_update = clock, cs_vars = [],
     cs_authority_suspended = False, cs_suspension_reason = replicate 128 0\<rparr>"

definition seq_tag :: bytes where
  "seq_tag = [83, 69, 81, 58]"

definition cs_read_line :: "bytes \<Rightarrow> ConsequenceState \<Rightarrow> ConsequenceState" where
  "cs_read_line line cs =
     (if take 4 line = seq_tag
      then cs\<lparr>cs_last_sequence := strtoull (drop 4 line), cs_commands_executed := cs_commands_executed cs + 1\<rparr>
      else cs)"

definition cs_update_from_wal :: "bytes option \<Rightarrow> u64 \<times> u64 \<Rightarrow> ConsequenceState \<Rightarrow> cs_result \<times> ConsequenceState" where
  "cs_update_from_wal content clock cs =
     (case content of
        None \<Rightarrow> (CS_WAL_READ_ERR, cs)
      | Some bs \<Rightarrow> (CS_AUTHORIZED, (fold cs_read_line (fgets_lines 511 bs) cs)\<lparr>cs_last_update := clock\<rparr>))"

primrec cs_check_vars :: "bytes \<Rightarrow> u64 \<Rightarrow> ProcessVar list \<Rightarrow> cs_result" where
  "cs_check_vars var val [] = CS_AUTHORIZED"
| "cs_check_vars var val (v # vs) =
     (if c_string (pv_name v) = c_string var \<and> (double_less val (pv_min_safe v) \<or> double_less (pv_max_safe v) val)
      then CS_DENIED_UNSAFE else cs_check_vars var val vs)"

definition cs_evaluate_token_request :: "ConsequenceState option \<Rightarrow> bytes \<Rightarrow> bytes \<Rightarrow> u64 \<Rightarrow> cs_result" where
  "cs_evaluate_token_request cs cap var val =
     (case cs of
        None \<Rightarrow> CS_WAL_READ_ERR
      | Some cs \<Rightarrow> if cs_authority_suspended cs then CS_DENIED_SUSPEND else cs_check_vars var val (cs_vars cs))"

definition cs_suspend_authority :: "bytes \<Rightarrow> ConsequenceState \<Rightarrow> ConsequenceState" where
  "cs_suspend_authority reason cs =
     cs\<lparr>cs_authority_suspended := True, cs_suspension_reason := strncpy 127 reason @ [0]\<rparr>"

section \<open>The signer\<close>

text \<open>\<open>main\<close> of \<open>gate0_signer.c\<close>: exit code and what is printed (on standard error when it fails). The message is
  the first argument of the command line, if there is one. The key pair and \<open>sign\<close> are libsodium's.\<close>

definition default_message :: bytes where
  "default_message = chars_bytes ''default_gate0_authorization_payload''"

definition prefix_hex :: "bytes \<Rightarrow> string" where
  "prefix_hex bs = concat (map (\<lambda>b. hex 2 (unat b)) (take 8 bs))"

definition signer_report :: "bytes \<Rightarrow> bytes \<Rightarrow> bytes \<Rightarrow> string" where
  "signer_report message pk sg =
     ''[+] GATE0_SIGNER: Success'' @ newline @ ''    Target Message: '' @ bytes_chars message @ newline @
     ''    Signature Length: '' @ decimal (length sg) @ '' bytes'' @ newline @
     ''    PublicKey (prefix): '' @ prefix_hex pk @ newline @ ''    Signature (prefix): '' @ prefix_hex sg @ newline"

definition signer_main ::
  "bool \<Rightarrow> bytes option \<Rightarrow> u64 \<times> u64 \<Rightarrow> u64 \<times> u64 \<Rightarrow> bytes \<times> bytes \<Rightarrow> (bytes \<Rightarrow> bytes \<Rightarrow> bytes) \<Rightarrow> bytes option \<Rightarrow>
     int \<times> string" where
  "signer_main sodium_ok wal t1 t2 keys sign argv1 =
     (if \<not> sodium_ok then (1, ''[-] Failed to initialize libsodium'' @ newline)
      else let message = (case argv1 of Some m \<Rightarrow> c_string m | None \<Rightarrow> default_message);
               cs = cs_init t1;
               cs = snd (cs_update_from_wal wal t2 cs);
               csr = cs_evaluate_token_request (Some cs) (chars_bytes ''sign'') (chars_bytes ''default'') 0
           in if csr \<noteq> CS_AUTHORIZED then (cs_code csr, ''[-] denied'' @ newline)
              else (0, signer_report message (fst keys) (sign (snd keys) message)))"

section \<open>Lemmas\<close>

lemma cs_check_vars_iff:
  "cs_check_vars var val vs = CS_AUTHORIZED \<longleftrightarrow>
     (\<forall>v \<in> set vs. c_string (pv_name v) = c_string var \<longrightarrow>
        \<not> double_less val (pv_min_safe v) \<and> \<not> double_less (pv_max_safe v) val)"
  by (induction vs) auto

lemma cs_read_line_keeps [simp]:
  "cs_vars (cs_read_line line cs) = cs_vars cs"
  "cs_authority_suspended (cs_read_line line cs) = cs_authority_suspended cs"
  by (simp_all add: cs_read_line_def)

lemma cs_read_lines_keep:
  "cs_vars (fold cs_read_line lines cs) = cs_vars cs \<and>
   cs_authority_suspended (fold cs_read_line lines cs) = cs_authority_suspended cs"
  by (induction lines arbitrary: cs) simp_all

lemma cs_read_lines_count:
  "cs_commands_executed (fold cs_read_line lines cs) =
     cs_commands_executed cs + of_nat (length (filter (\<lambda>l. take 4 l = seq_tag) lines))"
  by (induction lines arbitrary: cs) (simp_all add: cs_read_line_def)

lemma cs_read_lines_last:
  "cs_last_sequence (fold cs_read_line lines cs) =
     last (cs_last_sequence cs # map (\<lambda>l. strtoull (drop 4 l)) (filter (\<lambda>l. take 4 l = seq_tag) lines))"
  by (induction lines arbitrary: cs) (simp_all add: cs_read_line_def)

lemma cs_update_keeps:
  "cs_vars (snd (cs_update_from_wal w t cs)) = cs_vars cs \<and>
   cs_authority_suspended (snd (cs_update_from_wal w t cs)) = cs_authority_suspended cs"
  using cs_read_lines_keep by (auto simp: cs_update_from_wal_def split: option.split)

lemma concat_fgets_lines: "0 < n \<Longrightarrow> concat (fgets_lines n bs) = bs"
proof (induction n bs rule: fgets_lines.induct)
  case (1 n bs)
  show ?case
  proof (cases "bs = []")
    case True
    then show ?thesis by (simp add: fgets_lines.simps)
  next
    case False
    with 1 show ?thesis by (subst fgets_lines.simps) (simp add: Let_def)
  qed
qed

section \<open>Properties\<close>

text \<open>what the limit check decides, with the comparisons of IEEE 754. A request is authorised exactly when
  authority is not suspended and the value is not below the minimum nor above the maximum of any variable
  of that name; a NaN is authorised whatever the limits are.\<close>

theorem cs_request_decision:
  "(cs_evaluate_token_request (Some cs) cap var val = CS_AUTHORIZED \<longleftrightarrow>
      \<not> cs_authority_suspended cs \<and>
      \<not> (\<exists>v \<in> set (cs_vars cs). c_string (pv_name v) = c_string var \<and>
           (double_less val (pv_min_safe v) \<or> double_less (pv_max_safe v) val))) \<and>
   (cs_evaluate_token_request (Some (cs_suspend_authority why cs)) cap var val = CS_DENIED_SUSPEND) \<and>
   (is_nan val \<and> \<not> cs_authority_suspended cs \<longrightarrow>
      cs_evaluate_token_request (Some cs) cap var val = CS_AUTHORIZED)"
  by (auto simp: cs_evaluate_token_request_def cs_check_vars_iff cs_suspend_authority_def double_less_def)

theorem cs_request_decision_witness:
  "cs_evaluate_token_request (Some ((cs_init (0, 0))\<lparr>cs_vars := [\<lparr>pv_name = [112], pv_value = 0, pv_min_safe = 0,
     pv_max_safe = 1, pv_in_violation = 0\<rparr>]\<rparr>)) [] [112] 0x7FF8000000000000 = CS_AUTHORIZED"
  by (rule cs_request_decision [THEN conjunct2, THEN conjunct2, rule_format])
    (simp add: is_nan_def cs_init_def take_bit_eq_mask mask_eq_exp_minus_1)

text \<open>the signer's check can deny nothing. The state it consults has no variables and is never suspended,
  whatever the log holds or whether it can be read, so once libsodium has started every message is signed.\<close>

theorem signer_never_denies:
  "signer_main True wal t1 t2 keys sign argv1 =
     (let message = case argv1 of Some m \<Rightarrow> c_string m | None \<Rightarrow> default_message
      in (0, signer_report message (fst keys) (sign (snd keys) message)))"
  using cs_update_keeps [of wal t2 "cs_init t1"]
  by (simp add: signer_main_def cs_evaluate_token_request_def Let_def) (simp add: cs_init_def)

text \<open>Reading the log counts its \<open>SEQ:\<close> lines and keeps the last of their numbers.\<close>

lemma cs_update_reads_log:
  "cs_commands_executed (snd (cs_update_from_wal (Some bs) t cs)) =
     cs_commands_executed cs + of_nat (length (filter (\<lambda>l. take 4 l = seq_tag) (fgets_lines 511 bs)))"
  "cs_last_sequence (snd (cs_update_from_wal (Some bs) t cs)) =
     last (cs_last_sequence cs # map (\<lambda>l. strtoull (drop 4 l)) (filter (\<lambda>l. take 4 l = seq_tag) (fgets_lines 511 bs)))"
  by (simp_all add: cs_update_from_wal_def cs_read_lines_count cs_read_lines_last)

end
