(* ===== verification/Mesh.thy ===== *)
theory Mesh
  imports Gate0_Prelude
begin

text \<open>
  \<open>src/mesh.c\<close>, \<open>src/mesh.h\<close>: votes on proposals. Proposals are signed as the bytes of the struct in memory,
  with its four padding bytes \<open>pad\<close> as they happen to be; \<open>sign\<close> and \<open>vf\<close> are libsodium's.
\<close>

record ConsensusProposal =
  prop_sequence :: u64
  command_hash :: bytes
  merkle_root_before :: bytes
  merkle_root_after :: bytes
  prop_timestamp :: u64
  sender_node_id :: u32

record ConsensusVote =
  voter_node_id :: u32
  proposal_hash :: bytes
  vote_signature :: bytes
  decision :: u8

record PeerNode =
  peer_node_id :: u32
  peer_public_key :: bytes
  peer_active :: int

record MeshCluster =
  peers :: "PeerNode list"
  peer_count :: u32
  threshold :: u32

definition mesh_init_cluster :: "u32 \<Rightarrow> u32 \<Rightarrow> MeshCluster" where
  "mesh_init_cluster local_id thr =
     \<lparr>peers = replicate 4 \<lparr>peer_node_id = 0, peer_public_key = replicate 32 0, peer_active = 0\<rparr>,
      peer_count = 0, threshold = thr\<rparr>"

definition proposal_bytes :: "bytes \<Rightarrow> ConsensusProposal \<Rightarrow> bytes" where
  "proposal_bytes pad p =
     le_bytes 8 (prop_sequence p) @ command_hash p @ merkle_root_before p @ merkle_root_after p @
     le_bytes 8 (prop_timestamp p) @ le_bytes 4 (sender_node_id p) @ pad"

definition mesh_sign_proposal ::
  "(bytes \<Rightarrow> bytes \<Rightarrow> int \<times> bytes) \<Rightarrow> bytes \<Rightarrow> ConsensusProposal \<Rightarrow> bytes \<Rightarrow> int \<times> bytes" where
  "mesh_sign_proposal sign pad p sk = sign (proposal_bytes pad p) sk"

definition mesh_verify_vote :: "sig_verify \<Rightarrow> ConsensusVote \<Rightarrow> bytes \<Rightarrow> bytes \<Rightarrow> int" where
  "mesh_verify_vote vf vote public_key expected_hash =
     (if take 32 (proposal_hash vote) \<noteq> take 32 expected_hash then -1
      else vf (vote_signature vote) (take 32 (proposal_hash vote)) public_key)"

text \<open>A proposal's bytes determine it.\<close>

definition wf_proposal :: "ConsensusProposal \<Rightarrow> bool" where
  "wf_proposal p \<longleftrightarrow> length (command_hash p) = 32 \<and> length (merkle_root_before p) = 32 \<and> length (merkle_root_after p) = 32"

lemma length_proposal_bytes [byte_len]:
  "wf_proposal p \<Longrightarrow> length pad = 4 \<Longrightarrow> length (proposal_bytes pad p) = 120"
  by (simp add: proposal_bytes_def wf_proposal_def)

lemma proposal_bytes_inject:
  "wf_proposal p \<Longrightarrow> wf_proposal q \<Longrightarrow> proposal_bytes x p = proposal_bytes y q \<Longrightarrow> p = q"
  by (cases p; cases q) (simp add: proposal_bytes_def wf_proposal_def le_bytes_inject)

section \<open>Properties\<close>

text \<open>what a vote's signature covers. A vote verifies exactly when it names the expected proposal hash and the
  signature over that hash verifies under the voter's key; neither the decision nor the voter's
  identity is covered, so a signed vote can be turned from one decision into any other.\<close>

theorem mesh_vote_verifies_iff:
  "(mesh_verify_vote vf v pk h = 0 \<longleftrightarrow>
      take 32 (proposal_hash v) = take 32 h \<and> vf (vote_signature v) (take 32 h) pk = 0) \<and>
   mesh_verify_vote vf (v\<lparr>decision := d, voter_node_id := n\<rparr>) pk h = mesh_verify_vote vf v pk h"
  by (simp add: mesh_verify_vote_def)

end
