(* ===== verification/Executive_Calls.thy ===== *)
theory Executive_Calls
  imports Executive Socket_Transport
begin

text \<open>
  \<open>src/executive.c\<close> and its predecessor under \<open>evidence/g0_integration_pass\<close> as programs of system
  calls: the set-up of the socket, the loop with every call it makes, and the clean-up. The theory \<open>Executive\<close>
  describes the same loop by its connections; the runs of the program here are shown to be that loop.
\<close>

section \<open>Set-up and clean-up, shared by both programs\<close>

definition mlock_warning :: string where
  "mlock_warning = ''[!] CRITICAL: mlockall failed - running without page pinning''"

definition online_message :: string where
  "online_message = ''[+] Unix socket server online at '' @ GATE0_SOCKET_PATH @ newline"

definition exec_setup :: "(int \<Rightarrow> exit_status io) \<Rightarrow> exit_status io" where
  "exec_setup serve =
     Sys Mlockall (\<lambda>m.
     io_bind (if ret m \<noteq> 0 then Sys (Perror mlock_warning) (\<lambda>_. Done ()) else Done ()) (\<lambda>_.
     Sys (Unlink GATE0_SOCKET_PATH) (\<lambda>_.
     Sys (Socket AF_UNIX) (\<lambda>s. let server_fd = ret s in
     if server_fd < 0 then Sys (Perror ''socket'') (\<lambda>_. Done (Exit 1)) else
     Sys (Bind server_fd (unix_address GATE0_SOCKET_PATH)) (\<lambda>b.
     if ret b < 0 then Sys (Perror ''bind'') (\<lambda>_. Sys (Close server_fd) (\<lambda>_. Done (Exit 1))) else
     Sys (Chmod GATE0_SOCKET_PATH 384) (\<lambda>_.
     Sys (Print online_message) (\<lambda>_.
     Sys (Listen server_fd 5) (\<lambda>l.
     if ret l < 0 then Sys (Perror ''listen'') (\<lambda>_. Sys (Close server_fd) (\<lambda>_. Done (Exit 1))) else
     serve server_fd))))))))"

definition exec_cleanup :: "int \<Rightarrow> exit_status io" where
  "exec_cleanup server_fd =
     Sys (Close server_fd) (\<lambda>_. Sys (Unlink GATE0_SOCKET_PATH) (\<lambda>_. Done (Exit 0)))"

definition received_message :: "int \<Rightarrow> string" where
  "received_message n = ''[+] Received '' @ show_int n @ '' bytes from client.'' @ newline"

definition read_failed_message :: "int \<Rightarrow> string" where
  "read_failed_message n = ''[-] Read failed or 0 bytes: '' @ show_int n @ newline"

section \<open>The executive\<close>

definition exec_round ::
  "bool \<Rightarrow> sig_verify \<Rightarrow> int \<Rightarrow> exec_state \<Rightarrow> (exec_state + unit) io" where
  "exec_round sim vf server_fd st =
     (let (sender, interlocks) = st in
     Sys (Accept server_fd) (\<lambda>a. let client_fd = ret a in
     if client_fd < 0 then
       (if errno a = EINTR then Done (Inl (sender, interlocks))
        else Sys (Perror ''accept'') (\<lambda>_. Done (Inr ())))
     else
     Sys (Print (''[+] Client connected.'' @ newline)) (\<lambda>_.
     Sys (Read client_fd 512) (\<lambda>r.
     if 0 < ret r then
       Sys (Print (received_message (ret r))) (\<lambda>_.
       Sys Clock_gettime (\<lambda>t.
       let (res, sender, interlocks) =
             evaluate_command sim vf (command_of_bytes (exec_buffer (stored r) (residue r))) sender interlocks (clock_ns t)
       in Sys (Write client_fd (le_bytes 4 (result_code res))) (\<lambda>_.
       Sys (Print (''[+] Evaluated command -> Result code: '' @ decimal (unat (result_code res)) @ newline)) (\<lambda>_.
       Sys (Close client_fd) (\<lambda>_. Done (Inl (sender, interlocks)))))))
     else
       Sys (Print (read_failed_message (ret r))) (\<lambda>_.
       Sys (Close client_fd) (\<lambda>_. Done (Inl (sender, interlocks))))))))"

definition executive_main :: "nat \<Rightarrow> bool \<Rightarrow> sig_verify \<Rightarrow> exit_status io" where
  "executive_main rounds sim vf =
     exec_setup (\<lambda>server_fd.
       io_bind (io_loop rounds (exec_round sim vf server_fd) (zero_sender, zero_interlocks)) (\<lambda>x.
       case x of Inl _ \<Rightarrow> Done Running | Inr _ \<Rightarrow> exec_cleanup server_fd))"

section \<open>The predecessor\<close>

definition evidence_round :: "int \<Rightarrow> unit \<Rightarrow> (unit + unit) io" where
  "evidence_round server_fd st =
     Sys (Accept server_fd) (\<lambda>a. let client_fd = ret a in
     if client_fd < 0 then
       (if errno a = EINTR then Done (Inl ()) else Sys (Perror ''accept'') (\<lambda>_. Done (Inr ())))
     else
     Sys (Print (''[+] Client connected.'' @ newline)) (\<lambda>_.
     Sys (Read client_fd 512) (\<lambda>r.
     if 0 < ret r then
       Sys (Print (received_message (ret r))) (\<lambda>_.
       Sys (Write client_fd (le_bytes 4 (0 :: u32))) (\<lambda>_.
       Sys (Print (''[+] Sent 4-byte response.'' @ newline)) (\<lambda>_.
       Sys (Close client_fd) (\<lambda>_. Done (Inl ())))))
     else
       Sys (Print (read_failed_message (ret r))) (\<lambda>_.
       Sys (Close client_fd) (\<lambda>_. Done (Inl ()))))))"

definition evidence_main :: "nat \<Rightarrow> exit_status io" where
  "evidence_main rounds =
     exec_setup (\<lambda>server_fd.
       io_bind (io_loop rounds (evidence_round server_fd) ()) (\<lambda>x.
       case x of Inl _ \<Rightarrow> Done Running | Inr _ \<Rightarrow> exec_cleanup server_fd))"

section \<open>Descriptor discipline\<close>

text \<open>What every server of this shape promises: out of the loop it holds what it held before.\<close>

definition server_exit :: "int set \<Rightarrow> exit_status \<Rightarrow> int set \<Rightarrow> bool" where
  "server_exit F status G \<longleftrightarrow>
     (case status of Exit _ \<Rightarrow> G = F | Running \<Rightarrow> (\<exists>fd. fd \<notin> F \<and> G = insert fd F) | Fault _ \<Rightarrow> False)"

lemma exec_setup_keeps:
  assumes "\<And>fd. 0 \<le> fd \<Longrightarrow> fd \<notin> F \<Longrightarrow> keeps_fds (serve fd) (insert fd F) (server_exit F)"
  shows "keeps_fds (exec_setup serve) F (server_exit F)"
  using assms by (auto simp: exec_setup_def Let_def call_simps server_exit_def)

lemma exec_round_keeps:
  "fd \<in> F \<Longrightarrow> keeps_fds (exec_round sim vf fd st) F (\<lambda>x G. G = F)"
  by (auto simp: exec_round_def Let_def split_beta call_simps)

lemma evidence_round_keeps:
  "fd \<in> F \<Longrightarrow> keeps_fds (evidence_round fd st) F (\<lambda>x G. G = F)"
  by (auto simp: evidence_round_def Let_def split_beta call_simps)

lemma loop_keeps_set:
  assumes "\<And>s. keeps_fds (body s) F (\<lambda>x G. G = F)"
  shows "keeps_fds (io_loop n body s) F (\<lambda>x G. G = F)"
  using keeps_fds_loop [where I = "\<lambda>s G. G = F" and Q = "\<lambda>a G. G = F" and body = body and s = s and F = F and n = n]
    assms by (auto split: sum.splits)

lemma server_loop_keeps:
  assumes "\<And>s. keeps_fds (body s) (insert fd F) (\<lambda>x G. G = insert fd F)" and "fd \<notin> F"
  shows "keeps_fds (io_bind (io_loop n body s) (\<lambda>x. case x of Inl _ \<Rightarrow> Done Running | Inr _ \<Rightarrow> exec_cleanup fd))
     (insert fd F) (server_exit F)"
  unfolding keeps_fds_bind
  by (rule keeps_fds_mono [OF loop_keeps_set [OF assms(1)]])
    (use assms(2) in \<open>auto simp: exec_cleanup_def call_simps server_exit_def split: sum.split\<close>)

lemma executive_main_keeps: "keeps_fds (executive_main n sim vf) F (server_exit F)"
  unfolding executive_main_def
  by (intro exec_setup_keeps server_loop_keeps exec_round_keeps) simp_all

lemma evidence_main_keeps: "keeps_fds (evidence_main n) F (server_exit F)"
  unfolding evidence_main_def
  by (intro exec_setup_keeps server_loop_keeps evidence_round_keeps) simp_all

section \<open>The calls refine the connection loop\<close>

definition writes :: "event list \<Rightarrow> bytes list" where
  "writes es = [bs. (Write fd bs, r) \<leftarrow> es]"

definition is_accept :: "event \<Rightarrow> bool" where
  "is_accept e \<longleftrightarrow> (case fst e of Accept _ \<Rightarrow> True | _ \<Rightarrow> False)"

text \<open>The connections that the calls of the loop amount to.\<close>

function exec_connections :: "event list \<Rightarrow> connection list" where
  "exec_connections es =
     (case es of
        (Accept _, a) # es \<Rightarrow>
          (if ret a < 0 then
             (if errno a = EINTR then Accept_interrupted # exec_connections es else [Accept_failed])
           else (case es of
               _ # (_, r) # es \<Rightarrow>
                 (if 0 < ret r then
                    (case es of
                       _ # (_, t) # _ # _ # _ # es \<Rightarrow>
                         Client (Some (stored r)) (residue r) (clock_ns t) # exec_connections es
                     | _ \<Rightarrow> [])
                  else (case es of
                       _ # _ # es \<Rightarrow>
                         Client (if ret r < 0 then None else Some []) (residue r) 0 # exec_connections es
                     | _ \<Rightarrow> []))
             | _ \<Rightarrow> []))
      | _ \<Rightarrow> [])"
  by pat_completeness auto
termination
  by (relation "measure length") auto

declare exec_connections.simps [simp del]

text \<open>Its value on the calls of one round.\<close>

lemma exec_connections_rounds:
  "exec_connections [] = []"
  "ret a < 0 \<Longrightarrow> errno a = EINTR \<Longrightarrow> exec_connections ((Accept fd, a) # es) = Accept_interrupted # exec_connections es"
  "ret a < 0 \<Longrightarrow> errno a \<noteq> EINTR \<Longrightarrow> exec_connections ((Accept fd, a) # es) = [Accept_failed]"
  "0 \<le> ret a \<Longrightarrow> ret r \<le> 0 \<Longrightarrow> exec_connections ((Accept fd, a) # e1 # (c, r) # e2 # e3 # es) =
     Client (if ret r < 0 then None else Some []) (residue r) 0 # exec_connections es"
  "0 \<le> ret a \<Longrightarrow> 0 < ret r \<Longrightarrow> exec_connections ((Accept fd, a) # e1 # (c, r) # e2 # (c', t) # e3 # e4 # e5 # es) =
     Client (Some (stored r)) (residue r) (clock_ns t) # exec_connections es"
  by (subst exec_connections.simps, simp add: split_beta)+

lemma writes_simps [simp]:
  "writes [] = []"
  "writes (e # es) = (case fst e of Write _ bs \<Rightarrow> [bs] | _ \<Rightarrow> []) @ writes es"
  "writes (es @ es') = writes es @ writes es'"
  by (auto simp: writes_def split: prod.split sys_call.split)

definition reads_ok :: "event list \<Rightarrow> bool" where
  "reads_ok es \<longleftrightarrow> (\<forall>fd n r. (Read fd n, r) \<in> set es \<longrightarrow> 0 < ret r \<longrightarrow> stored r \<noteq> [])"

lemma allowed_reads_ok: "allowed_run F es \<Longrightarrow> reads_ok es"
  by (induction es arbitrary: F) (fastforce simp: reads_ok_def allowed_def)+

text \<open>The four ways a round can go.\<close>

lemma exec_round_cases:
  assumes "run_io (exec_round sim vf fd st) rs = (es, Some (x, rs'))"
  obtains
    (interrupted) a where "es = [(Accept fd, a)]" "ret a < 0" "errno a = EINTR" "x = Inl st"
  | (failed) a p where "es = [(Accept fd, a), (Perror ''accept'', p)]" "ret a < 0" "errno a \<noteq> EINTR" "x = Inr ()"
  | (skipped) a p msg r q m c where "es = [(Accept fd, a), (Print msg, p), (Read (ret a) 512, r), (Print m, q), (Close (ret a), c)]"
      "0 \<le> ret a" "ret r \<le> 0" "x = Inl st"
  | (served) a msg p r m q t res w m' q' c s' il' where
      "es = [(Accept fd, a), (Print msg, p), (Read (ret a) 512, r), (Print m, q), (Clock_gettime, t),
         (Write (ret a) (le_bytes 4 (result_code res)), w), (Print m', q'), (Close (ret a), c)]"
      "0 \<le> ret a" "0 < ret r" "x = Inl (s', il')"
      "evaluate_command sim vf (command_of_bytes (exec_buffer (stored r) (residue r))) (fst st) (snd st) (clock_ns t) =
         (res, s', il')"
proof -
  obtain s0 il0 where st: "st = (s0, il0)" by (cases st)
  from assms obtain a rs1 where rs: "rs = a # rs1"
    by (cases rs) (auto simp: exec_round_def split_beta)
  show thesis
  proof (cases "ret a < 0")
    case True
    with assms rs st show thesis
      by (auto simp: exec_round_def Let_def split: list.splits if_splits intro: interrupted failed)
  next
    case False
    with assms rs st obtain p r rs2 where rs1: "rs1 = p # r # rs2"
      by (auto simp: exec_round_def Let_def split: list.splits)
    show thesis
    proof (cases "0 < ret r")
      case True
      with assms rs rs1 st False obtain q t w q' c rs3 where rs2: "rs2 = q # t # w # q' # c # rs3"
        by (auto simp: exec_round_def Let_def split_beta split: list.splits)
      obtain res s' il' where ev:
        "evaluate_command sim vf (command_of_bytes (exec_buffer (stored r) (residue r))) s0 il0 (clock_ns t) = (res, s', il')"
        by (metis prod.collapse)
      with True assms rs rs1 rs2 st False show thesis
        by (intro served) (auto simp: exec_round_def Let_def)
    next
      case skip: False
      with assms rs rs1 st False obtain q c rs3 where rs2: "rs2 = q # c # rs3"
        by (auto simp: exec_round_def Let_def split: list.splits)
      with skip assms rs rs1 st False show thesis
        by (intro skipped) (auto simp: exec_round_def Let_def)
    qed
  qed
qed

lemma exec_round_connection:
  assumes "run_io (exec_round sim vf fd st) rs = (es, Some (x, rs'))" and "reads_ok es"
  shows "\<exists>c. (\<forall>es'. exec_connections (es @ es') =
         c # (case x of Inl _ \<Rightarrow> exec_connections es' | Inr _ \<Rightarrow> [])) \<and>
     (case x of
        Inl st' \<Rightarrow>
          (\<forall>cs. exec_loop sim vf (c # cs) st =
             (writes es @ fst (exec_loop sim vf cs st'), snd (exec_loop sim vf cs st')))
      | Inr _ \<Rightarrow> writes es = [] \<and> (\<forall>cs. exec_loop sim vf (c # cs) st = ([], st)))"
  using assms(1)
proof (cases rule: exec_round_cases)
  case (served a msg p r m q t res w m' q' c s' il')
  then have "stored r \<noteq> []" using assms(2) by (auto simp: reads_ok_def)
  with served show ?thesis
    by (intro exI [of _ "Client (Some (stored r)) (residue r) (clock_ns t)"])
      (simp add: exec_connections_rounds serve_client_def split_beta)
next
  case (skipped a p msg r q m c)
  then show ?thesis
    by (intro exI [of _ "Client (if ret r < 0 then None else Some []) (residue r) 0"])
      (simp add: exec_connections_rounds serve_client_def split_beta)
qed (simp_all add: exec_connections_rounds)

lemma exec_loop_connections:
  "run_io (io_loop n (exec_round sim vf fd) st) rs = (es, Some (x, rs')) \<Longrightarrow> reads_ok es \<Longrightarrow>
     x = Inr () \<or> es' = [] \<Longrightarrow>
     fst (exec_loop sim vf (exec_connections (es @ es')) st) = writes es \<and>
     (\<forall>st'. x = Inl st' \<longrightarrow> st' = snd (exec_loop sim vf (exec_connections (es @ es')) st))"
proof (induction n arbitrary: st rs es)
  case 0
  then have "es = []" "es' = []" "x = Inl st" by auto
  then show ?case by (simp add: exec_connections_rounds)
next
  case (Suc n)
  obtain es1 z rs1 where b: "run_io (exec_round sim vf fd st) rs = (es1, Some (z, rs1))"
    using Suc.prems(1) by (auto simp: run_bind split: prod.splits option.splits)
  have ok: "reads_ok es1" using Suc.prems(1,2) b
    by (auto simp: run_bind reads_ok_def split: sum.splits prod.splits)
  show ?case
  proof (cases z)
    case (Inr u)
    then have "es = es1" "x = Inr ()" using Suc.prems(1) b by (auto simp: run_bind)
    with exec_round_connection [OF b ok] Inr show ?thesis by auto
  next
    case (Inl st1)
    obtain es2 where l: "run_io (io_loop n (exec_round sim vf fd) st1) rs1 = (es2, Some (x, rs'))"
      and es: "es = es1 @ es2"
      using Suc.prems(1) b Inl by (auto simp: run_bind split: prod.splits)
    have "reads_ok es2" using Suc.prems(2) es by (auto simp: reads_ok_def)
    with Suc.IH [OF l this Suc.prems(3)] exec_round_connection [OF b ok] Inl es show ?thesis
      by (auto simp del: exec_loop.simps)
  qed
qed

text \<open>The set-up makes no \<open>accept\<close> and writes nothing: a program that starts with quiet calls either gives up
  or goes on as \<open>serve\<close>.\<close>

definition quiet :: "sys_call \<Rightarrow> bool" where
  "quiet c \<longleftrightarrow> (case c of Accept _ \<Rightarrow> False | Read _ _ \<Rightarrow> False | Write _ _ \<Rightarrow> False | _ \<Rightarrow> True)"

definition quiet_events :: "event list \<Rightarrow> bool" where
  "quiet_events es \<longleftrightarrow> list_all (quiet \<circ> fst) es"

definition quiet_start :: "(int \<Rightarrow> exit_status io) \<Rightarrow> exit_status io \<Rightarrow> bool" where
  "quiet_start serve m \<longleftrightarrow> (\<forall>rs es status rs'. run_io m rs = (es, Some (status, rs')) \<longrightarrow>
     quiet_events es \<and> status = Exit 1 \<or>
     (\<exists>fd es1 es2 rs1. es = es1 @ es2 \<and> quiet_events es1 \<and> run_io (serve fd) rs1 = (es2, Some (status, rs'))))"

lemma quiet_start_intros:
  "quiet_start serve (Done (Exit 1))"
  "quiet_start serve (serve fd)"
  "quiet c \<Longrightarrow> (\<And>r. quiet_start serve (k r)) \<Longrightarrow> quiet_start serve (Sys c k)"
proof -
  show "quiet_start serve (serve fd)"
    unfolding quiet_start_def by (metis append_Nil list.pred_inject(1) quiet_events_def)
  assume c: "quiet c" and k: "\<And>r. quiet_start serve (k r)"
  show "quiet_start serve (Sys c k)"
    unfolding quiet_start_def
  proof (intro allI impI)
    fix rs es status rs'
    assume "run_io (Sys c k) rs = (es, Some (status, rs'))"
    then obtain r rs0 es0 where es: "es = (c, r) # es0" and run: "run_io (k r) rs0 = (es0, Some (status, rs'))"
      by (auto split: list.splits prod.splits)
    from k [of r, unfolded quiet_start_def, rule_format, OF run]
    show "quiet_events es \<and> status = Exit 1 \<or>
       (\<exists>fd es1 es2 rs1. es = es1 @ es2 \<and> quiet_events es1 \<and> run_io (serve fd) rs1 = (es2, Some (status, rs')))"
    proof (elim disjE exE conjE)
      fix fd es1 es2 rs1
      assume "es0 = es1 @ es2" "quiet_events es1" "run_io (serve fd) rs1 = (es2, Some (status, rs'))"
      with c es have "es = ((c, r) # es1) @ es2" "quiet_events ((c, r) # es1)"
        by (simp_all add: quiet_events_def)
      with \<open>run_io (serve fd) rs1 = _\<close> show ?thesis by blast
    qed (use c es in \<open>simp add: quiet_events_def\<close>)
  qed
qed (simp add: quiet_start_def quiet_events_def)

lemma exec_setup_quiet: "quiet_start serve (exec_setup serve)"
  by (auto simp: exec_setup_def Let_def quiet_def intro!: quiet_start_intros)

lemma quiet_events_simps:
  assumes "quiet_events es"
  shows "writes es = []" and "dropWhile (\<lambda>e. \<not> is_accept e) (es @ es') = dropWhile (\<lambda>e. \<not> is_accept e) es'"
  using assms by (induction es) (auto simp: quiet_events_def quiet_def is_accept_def split: sys_call.splits)

lemma quiet_no_accept: "quiet_events es \<Longrightarrow> dropWhile (\<lambda>e. \<not> is_accept e) es = []"
  using quiet_events_simps(2) [of es "[]"] by simp

lemma exec_cleanup_quiet: "run_io (exec_cleanup fd) rs = (es, Some (status, rs')) \<Longrightarrow> quiet_events es"
  by (auto simp: exec_cleanup_def quiet_events_def quiet_def split: list.splits)

lemma exec_connections_dropWhile:
  assumes "run_io (io_loop n (exec_round sim vf fd) st) rs = (es, x)"
  shows "dropWhile (\<lambda>e. \<not> is_accept e) (es @ es') = (if es = [] then dropWhile (\<lambda>e. \<not> is_accept e) es' else es @ es')"
proof -
  have "es = [] \<or> (\<exists>a es0. es = (Accept fd, a) # es0)"
    using assms by (cases n; cases rs) (auto simp: exec_round_def split_beta Let_def)
  then show ?thesis by (auto simp: is_accept_def)
qed

section \<open>Runs of the program as runs of the loop\<close>

text \<open>A returning run is a failed set-up, or a set-up, the rounds and the clean-up, of which only the rounds
  accept, read and write.\<close>

lemma executive_main_serving:
  assumes "run_io (executive_main n sim vf) rs = (es, Some (status, rs'))"
  obtains (gave_up) "quiet_events es"
  | (served) fd es1 es3 es4 x rs1 rs2 where
      "run_io (io_loop n (exec_round sim vf fd) (zero_sender, zero_interlocks)) rs1 = (es3, Some (x, rs2))"
      "es = es1 @ es3 @ es4" "quiet_events es1" "quiet_events es4" "x = Inr () \<or> es4 = []"
      "dropWhile (\<lambda>e. \<not> is_accept e) es = es3 @ es4"
proof -
  let ?drop = "dropWhile (\<lambda>e. \<not> is_accept e)"
  let ?loop = "\<lambda>fd. io_loop n (exec_round sim vf fd) (zero_sender, zero_interlocks)"
  from exec_setup_quiet [unfolded quiet_start_def, rule_format, OF assms [unfolded executive_main_def]]
  show thesis
  proof (elim disjE exE conjE)
    fix fd es1 es2 rs1
    assume es: "es = es1 @ es2" and q: "quiet_events es1"
      and run: "run_io (io_bind (?loop fd) (\<lambda>x. case x of Inl _ \<Rightarrow> Done Running | Inr _ \<Rightarrow> exec_cleanup fd)) rs1 =
        (es2, Some (status, rs'))"
    obtain es3 x rs2 where l: "run_io (?loop fd) rs1 = (es3, Some (x, rs2))"
      using run by (auto simp: run_bind split: prod.splits option.splits)
    obtain es4 where es2: "es2 = es3 @ es4" and es4: "quiet_events es4" "x = Inr () \<or> es4 = []"
      using run l by (cases x) (auto simp: run_bind quiet_events_def split: prod.splits dest: exec_cleanup_quiet [unfolded quiet_events_def])
    have "es3 = [] \<Longrightarrow> n = 0"
      using l by (cases n; cases rs1) (auto simp: exec_round_def split_beta run_bind Let_def split: prod.splits option.splits)
    moreover have "n = 0 \<Longrightarrow> es3 = [] \<and> es4 = []" using l es4(2) by auto
    ultimately have "?drop es = es3 @ es4"
      using quiet_events_simps(2) [OF q, of es2] exec_connections_dropWhile [OF l, of es4] es es2 by auto
    then show thesis using served [OF l _ q es4] es es2 by simp
  qed (rule gave_up)
qed

text \<open>the program of system calls refines the connection loop. Whatever the system answers, the replies that
  a returning run of the executive writes, in order, are those of \<open>exec_main\<close> on the connections the
  answers amount to, so every theorem about that loop holds of the calls.\<close>

theorem executive_calls_refine_loop:
  assumes "run_io (executive_main n sim vf) rs = (es, Some (status, rs'))" and "allowed_run F es"
  shows "writes es = fst (exec_main sim vf (exec_connections (dropWhile (\<lambda>e. \<not> is_accept e) es)))"
  using assms(1)
proof (cases rule: executive_main_serving)
  case gave_up
  then show ?thesis
    by (subst quiet_no_accept [OF gave_up]) (simp add: exec_connections_rounds(1) exec_main_def quiet_events_simps(1))
next
  case (served fd es1 es3 es4 x rs1 rs2)
  have "reads_ok es3" using allowed_reads_ok [OF assms(2)] served(2) by (auto simp: reads_ok_def)
  from exec_loop_connections [OF served(1) this served(5)] served show ?thesis
    by (simp add: exec_main_def quiet_events_simps(1))
qed

section \<open>Properties\<close>

lemmas exec_main_defs = executive_main_def exec_setup_def exec_round_def exec_cleanup_def evidence_main_def evidence_round_def

text \<open>One client sends the byte 7, then \<open>accept\<close> fails and the program ends.\<close>

definition demo_answers :: "sys_reply list" where
  "demo_answers = map answer [0, 0, 3, 0, 0, 0, 0, 4, 0] @
     [(answer 1)\<lparr>stored := [7], residue := replicate 512 0\<rparr>, answer 0, (answer 0)\<lparr>stored := replicate 16 0\<rparr>, answer 4, answer 0, answer 0] @
     map answer [-1, 0, 0, 0]"

lemma demo_run:
  "snd (run_io (executive_main 2 False demo_verify ) demo_answers) = Some (Exit 0, [])"
  "allowed_run {0, 1, 2} (fst (run_io (executive_main 2 False demo_verify ) demo_answers))"
  by (simp_all add: demo_answers_def exec_main_defs Let_def split_beta run_io_steps call_simps
      cong: io_congs del: run_io.simps(2))

theorem executive_calls_refine_loop_witness:
  "writes (fst (run_io (executive_main 2 False demo_verify ) demo_answers)) =
     fst (exec_main False demo_verify (exec_connections (dropWhile (\<lambda>e. \<not> is_accept e)
       (fst (run_io (executive_main 2 False demo_verify ) demo_answers)))))"
proof -
  let ?r = "run_io (executive_main 2 False demo_verify ) demo_answers"
  have "?r = (fst ?r, Some (Exit 0, []))" using demo_run(1) by (metis prod.collapse)
  from executive_calls_refine_loop [OF this demo_run(2)] show ?thesis .
qed

text \<open>C29: the executive keeps its descriptors in order. In every run each call is made on a descriptor that is
  open, a descriptor is closed once, and whenever the program has returned, after a failed set-up as well as
  out of the loop, the process holds exactly what it held before; between rounds it holds the listening socket besides.\<close>

theorem executive_descriptors:
  assumes "run_io (executive_main n sim vf) rs = (es, x)" and "allowed_run F es"
  shows "disciplined F es \<and>
    (\<forall>status rs'. x = Some (status, rs') \<longrightarrow>
       (case status of Exit _ \<Rightarrow> held_after F es = F
        | Running \<Rightarrow> (\<exists>fd. fd \<notin> F \<and> held_after F es = insert fd F) | Fault _ \<Rightarrow> False))"
  using keeps_fds_sound [OF executive_main_keeps assms] by (simp add: server_exit_def)

text \<open>the predecessor keeps its descriptors in the same way.\<close>

theorem evidence_descriptors:
  assumes "run_io (evidence_main n) rs = (es, x)" and "allowed_run F es"
  shows "disciplined F es \<and>
    (\<forall>status rs'. x = Some (status, rs') \<longrightarrow>
       (case status of Exit _ \<Rightarrow> held_after F es = F
        | Running \<Rightarrow> (\<exists>fd. fd \<notin> F \<and> held_after F es = insert fd F) | Fault _ \<Rightarrow> False))"
  using keeps_fds_sound [OF evidence_main_keeps assms] by (simp add: server_exit_def)

theorem executive_descriptors_witness:
  "held_after {0, 1, 2} (fst (run_io (executive_main 2 False demo_verify ) demo_answers)) = {0, 1, 2}"
proof -
  obtain es where es: "run_io (executive_main 2 False demo_verify ) demo_answers = (es, Some (Exit 0, []))"
    using demo_run(1) by (metis prod.collapse)
  from executive_descriptors [OF this] demo_run(2) show ?thesis by (simp add: es)
qed

theorem evidence_descriptors_witness:
  "held_after {0, 1, 2} (fst (run_io (evidence_main 1) (map answer [0, 0, 3, 0, 0, 0, -1, 0, 0]))) = {0, 1, 2}"
proof -
  let ?r = "run_io (evidence_main 1) (map answer [0, 0, 3, 0, 0, 0, -1, 0, 0])"
  have ran: "snd ?r = Some (Exit 1, [])" "allowed_run {0, 1, 2} (fst ?r)"
    by (simp_all add: exec_main_defs Let_def split_beta run_io_steps call_simps cong: io_congs del: run_io.simps(2))
  obtain es where es: "?r = (es, Some (Exit 1, []))" using ran(1) by (metis prod.collapse)
  then have "allowed_run {0, 1, 2} es" using ran(2) by (simp only: fst_conv)
  with evidence_descriptors [OF es] show ?thesis unfolding es by simp
qed

lemma exec_setup_cong:
  "(\<And>fd rs1. length rs1 \<le> length rs \<Longrightarrow> run_io (serve fd) rs1 = run_io (serve' fd) rs1) \<Longrightarrow>
     run_io (exec_setup serve) rs = run_io (exec_setup serve') rs"
  by (auto simp: exec_setup_def Let_def split: list.split)

lemma exec_setup_not_running:
  "(\<And>fd rs1. length rs1 \<le> length rs \<Longrightarrow> snd (run_io (serve fd) rs1) \<noteq> Some (Running, rs')) \<Longrightarrow>
     snd (run_io (exec_setup serve) rs) \<noteq> Some (Running, rs')"
  by (auto simp: exec_setup_def Let_def split_beta split: list.split)

text \<open>the bound on the rounds is not a bound on the server. With more rounds than the system gives answers a run
  never stops between two rounds: it ends by itself or is blocked in a call, and a larger bound gives
  the same run, so \<open>executive_main\<close> with that bound is the unbounded \<open>while (1)\<close>.\<close>

theorem executive_rounds_enough:
  assumes "length rs < n"
  shows "snd (run_io (executive_main n sim vf) rs) \<noteq> Some (Running, rs') \<and>
    run_io (executive_main (n + k) sim vf) rs = run_io (executive_main n sim vf) rs"
proof
  have body: "\<And>fd st. makes_call (exec_round sim vf fd st)" by (simp add: exec_round_def split_beta)
  have "run_io (io_loop (n + k) (exec_round sim vf fd) st) rs1 = run_io (io_loop n (exec_round sim vf fd) st) rs1"
    if "length rs1 \<le> length rs" for fd st rs1
    using that assms by (intro io_loop_more_rounds [OF body]) simp_all
  then show "run_io (executive_main (n + k) sim vf) rs = run_io (executive_main n sim vf) rs"
    unfolding executive_main_def by (intro exec_setup_cong) (simp add: run_bind)
  show "snd (run_io (executive_main n sim vf) rs) \<noteq> Some (Running, rs')"
    unfolding executive_main_def
  proof (rule exec_setup_not_running)
    fix fd and rs1 :: "sys_reply list" assume "length rs1 \<le> length rs"
    then have "length rs1 < n" using assms by simp
    from io_loop_enough [where body = "exec_round sim vf fd" and s = "(zero_sender, zero_interlocks)",
        OF body this]
    show "snd (run_io (io_bind (io_loop n (exec_round sim vf fd) (zero_sender, zero_interlocks))
        (\<lambda>x. case x of Inl _ \<Rightarrow> Done Running | Inr _ \<Rightarrow> exec_cleanup fd)) rs1) \<noteq> Some (Running, rs')"
      by (fastforce simp: run_bind exec_cleanup_def split: prod.splits option.splits list.splits)
  qed
qed

theorem executive_rounds_enough_witness:
  "snd (run_io (executive_main 20 False demo_verify ) demo_answers) \<noteq> Some (Running, [])"
  by (rule executive_rounds_enough [THEN conjunct1]) (simp add: demo_answers_def)

end
