(* ===== verification/Read_Exact.thy ===== *)
theory Read_Exact
  imports Executive_Calls
begin

text \<open>
  \<open>read_exact\<close> of \<open>src/executive.c\<close> (and of its predecessor, the same function) as a program of
  \<open>read\<close> calls: it goes on after a partial read and after \<open>EINTR\<close>, and stops when the length is reached, at the end of the
  stream, or on an error. The loop has no bound of its own; it is shown to return.
\<close>

section \<open>The program\<close>

definition read_exact_round :: "int \<Rightarrow> nat \<Rightarrow> bytes \<Rightarrow> (bytes + int \<times> bytes) io" where
  "read_exact_round fd len acc =
     (if len \<le> length acc then Done (Inr (int (length acc), acc))
      else Sys (Read fd (len - length acc)) (\<lambda>r.
        if ret r = 0 then Done (Inr (int (length acc), acc))
        else if ret r < 0 then
          (if errno r = EINTR then Done (Inl acc) else Done (Inr (-1, acc)))
        else Done (Inl (acc @ take (nat (ret r)) (stored r)))))"

definition read_exact_io :: "nat \<Rightarrow> int \<Rightarrow> nat \<Rightarrow> (bytes + int \<times> bytes) io" where
  "read_exact_io rounds fd len = io_loop rounds (read_exact_round fd len) []"

definition evidence_read_exact :: "nat \<Rightarrow> int \<Rightarrow> nat \<Rightarrow> (bytes + int \<times> bytes) io" where
  "evidence_read_exact = read_exact_io"

section \<open>Runs\<close>

definition interrupted :: "event \<Rightarrow> bool" where
  "interrupted e \<longleftrightarrow> ret (snd e) < 0 \<and> errno (snd e) = EINTR"

definition interrupts :: "event list \<Rightarrow> nat" where
  "interrupts es = length (filter interrupted es)"

text \<open>The bytes of the successful reads, in order.\<close>

definition read_data :: "event list \<Rightarrow> bytes" where
  "read_data es = concat (map (\<lambda>e. stored (snd e)) (filter (\<lambda>e. 0 < ret (snd e)) es))"

lemma run_counts_simps [simp]:
  "interrupts [] = 0" "interrupts (e # es) = (if interrupted e then Suc (interrupts es) else interrupts es)"
  "read_data [] = []" "read_data (e # es) = (if 0 < ret (snd e) then stored (snd e) else []) @ read_data es"
  by (simp_all add: interrupts_def read_data_def)

text \<open>Each round that goes on is a partial read or an interruption.\<close>

lemma read_exact_round_cases:
  assumes "run_io (read_exact_round fd len acc) rs = (es, x)" and "allowed_run F es" and "length acc \<le> len"
  obtains (complete) "es = []" "x = Some (Inr (int (length acc), acc), rs)"
  | (blocked) "es = []" "x = None"
  | (stop) r rs' n where "es = [(Read fd (len - length acc), r)]" "ret r \<le> 0" "\<not> interrupted (Read fd (len - length acc), r)"
      "x = Some (Inr (n, acc), rs')" "n = int (length acc) \<or> n = -1"
  | (again) r rs' where "es = [(Read fd (len - length acc), r)]" "ret r < 0" "interrupted (Read fd (len - length acc), r)"
      "x = Some (Inl acc, rs')"
  | (data) r rs' where "es = [(Read fd (len - length acc), r)]" "0 < ret r" "\<not> interrupted (Read fd (len - length acc), r)"
      "stored r \<noteq> []" "length acc + length (stored r) \<le> len" "x = Some (Inl (acc @ stored r), rs')"
proof (cases "len \<le> length acc \<or> rs = []")
  case True
  with assms(1) complete blocked show thesis by (auto simp: read_exact_round_def split: if_splits)
next
  case False
  then obtain r rs' where rs: "rs = r # rs'" by (cases rs) auto
  with assms(1) False have es: "es = [(Read fd (len - length acc), r)]"
    by (auto simp: read_exact_round_def split: if_splits)
  then have ok: "0 < ret r \<Longrightarrow> length (stored r) = nat (ret r) \<and> ret r \<le> int (len - length acc)"
    using assms(2) by (auto simp: allowed_def)
  consider (no) "ret r = 0 \<or> ret r < 0 \<and> errno r \<noteq> EINTR" | (intr) "ret r < 0" "errno r = EINTR" | (got) "0 < ret r"
    by linarith
  then show thesis
  proof cases
    case got
    then have "stored r \<noteq> []" "length acc + length (stored r) \<le> len" using ok False by auto
    with got assms(1) False rs es ok show thesis
      by (intro data [of r rs']) (auto simp: read_exact_round_def interrupted_def)
  qed (use assms(1) False rs es stop again in \<open>auto simp: read_exact_round_def interrupted_def split: if_splits\<close>)
qed

lemma read_exact_loop:
  assumes "run_io (io_loop k (read_exact_round fd len) acc) rs = (es, x)" and "allowed_run F es"
    and "length acc \<le> len"
  shows "length es \<le> len - length acc + 1 + interrupts es \<and>
    (\<forall>acc' rs'. x = Some (Inl acc', rs') \<longrightarrow> k \<le> len - length acc + interrupts es) \<and>
    (\<forall>n out rs'. x = Some (Inr (n, out), rs') \<longrightarrow> out = acc @ read_data es \<and> length out \<le> len \<and> (n = int (length out) \<or> n = -1))"
  using assms
proof (induction k arbitrary: acc rs es x F)
  case (Suc k)
  obtain es1 y where b: "run_io (read_exact_round fd len acc) rs = (es1, y)" by (cases "run_io (read_exact_round fd len acc) rs")
  have step: "\<exists>es2. es = es1 @ es2 \<and> (case y of None \<Rightarrow> es2 = [] \<and> x = None
      | Some (Inl s, rs1) \<Rightarrow> run_io (io_loop k (read_exact_round fd len) s) rs1 = (es2, x)
      | Some (Inr a, rs1) \<Rightarrow> es2 = [] \<and> x = Some (Inr a, rs1))"
    using Suc.prems(1) b by (auto simp: run_bind split: option.splits prod.splits sum.splits)
  then have ok: "allowed_run F es1" using Suc.prems(2) by auto
  from b ok Suc.prems(3) show ?case
  proof (cases rule: read_exact_round_cases)
    case (again r rs1)
    with step obtain es2 where "es = es1 @ es2" "run_io (io_loop k (read_exact_round fd len) acc) rs1 = (es2, x)" by auto
    moreover from this have "allowed_run (held_after F es1) es2" using Suc.prems(2) by simp
    ultimately show ?thesis using Suc.IH [of acc rs1 es2 x "held_after F es1"] Suc.prems(3) again by auto
  next
    case (data r rs1)
    with step obtain es2 where es: "es = es1 @ es2"
      and l: "run_io (io_loop k (read_exact_round fd len) (acc @ stored r)) rs1 = (es2, x)" by auto
    have "allowed_run (held_after F es1) es2" using Suc.prems(2) es by simp
    note ih = Suc.IH [OF l this]
    have counts: "length es = Suc (length es2)" "interrupts es = interrupts es2" "read_data es = stored r @ read_data es2"
      using data(1-3) es by simp_all
    obtain j where j: "length (stored r) = Suc j" using data(4) by (cases "stored r") auto
    then show ?thesis unfolding counts using ih data(5) by auto
  qed (use step Suc.prems(3) in auto)
qed auto

section \<open>Properties\<close>

text \<open>C39: \<open>read_exact\<close> returns. Whatever the descriptor delivers, it makes at most one call per requested byte, one per interruption
  and one more; with that many rounds it is never stopped by the bound; and what it returns is -1 or the number of
  bytes it has stored, never more than were asked for, which are the bytes of the successful reads in order.\<close>

theorem read_exact_returns:
  assumes "run_io (read_exact_io k fd len) rs = (es, x)" and "allowed_run F es"
  shows "length es \<le> len + 1 + interrupts es \<and>
    (len + interrupts es < k \<longrightarrow> (\<forall>acc rs'. x \<noteq> Some (Inl acc, rs'))) \<and>
    (\<forall>n out rs'. x = Some (Inr (n, out), rs') \<longrightarrow>
       out = read_data es \<and> length out \<le> len \<and> (n = int (length out) \<or> n = -1))"
  using read_exact_loop [OF assms [unfolded read_exact_io_def]] by fastforce

theorem read_exact_returns_witness:
  "length (fst (run_io (read_exact_io 9 4 3)
     [(answer 2)\<lparr>stored := [7, 8]\<rparr>, (answer (-1))\<lparr>errno := EINTR\<rparr>, (answer 1)\<lparr>stored := [9]\<rparr>])) \<le> 5"
proof -
  let ?r = "run_io (read_exact_io 9 4 3)
     [(answer 2)\<lparr>stored := [7, 8]\<rparr>, (answer (-1))\<lparr>errno := EINTR\<rparr>, (answer 1)\<lparr>stored := [9]\<rparr>]"
  have ok: "allowed_run {4} (fst ?r)" "interrupts (fst ?r) = 1"
    by (simp_all add: read_exact_io_def read_exact_round_def call_simps interrupted_def)
  have "?r = (fst ?r, snd ?r)" by simp
  from read_exact_returns [OF this ok(1)] ok(2) show ?thesis by simp
qed

end
