(* ===== verification/Auth_Calls.thy ===== *)
theory Auth_Calls
  imports Pure_Core Executive_Calls
begin

text \<open>
  \<open>src/gate0_client.c\<close> and \<open>src/gate0_daemon.c\<close> as programs of system calls, and the two of them
  joined by a connection. The numbers of the result codes are in a header that is not in the tree, so they are
  a parameter \<open>code\<close>; the key pair and the signature come from libsodium and are parameters too.
\<close>

section \<open>The daemon\<close>

definition active_message :: string where
  "active_message = ''[+] GATE0_DAEMON: Active and listening'' @ newline"

definition one_shot_serve :: "(Gate0Result \<Rightarrow> u32) \<Rightarrow> sig_verify \<Rightarrow> int \<Rightarrow> unit io" where
  "one_shot_serve code vf client_fd =
     Sys (Read client_fd sizeof_AuthCommand) (\<lambda>r.
     io_bind
       (if ret r = int sizeof_AuthCommand then
          (let (res, sender) =
             gate0_core_evaluate_command vf (auth_command_of_bytes (stored r)) zero_auth_sender zero_bool_interlocks
               1750000000000000
           in Sys (Write client_fd (le_bytes 4 (code res))) (\<lambda>_. Done ()))
        else Done ()) (\<lambda>_.
     Sys (Close client_fd) (\<lambda>_. Done ())))"

definition one_shot_main :: "(Gate0Result \<Rightarrow> u32) \<Rightarrow> sig_verify \<Rightarrow> int io" where
  "one_shot_main code vf =
     Sys (Unlink GATE0_SOCKET_PATH) (\<lambda>_.
     Sys (Socket AF_UNIX) (\<lambda>s. let server_fd = ret s in
     if server_fd < 0 then Done 1 else
     Sys (Bind server_fd (unix_address GATE0_SOCKET_PATH)) (\<lambda>b.
     if ret b < 0 then Sys (Close server_fd) (\<lambda>_. Done 1) else
     Sys (Listen server_fd 5) (\<lambda>l.
     if ret l < 0 then Sys (Close server_fd) (\<lambda>_. Done 1) else
     Sys (Print active_message) (\<lambda>_.
     Sys (Accept server_fd) (\<lambda>a. let client_fd = ret a in
     io_bind (if 0 \<le> client_fd then one_shot_serve code vf client_fd else Done ()) (\<lambda>_.
     Sys (Close server_fd) (\<lambda>_.
     Sys (Unlink GATE0_SOCKET_PATH) (\<lambda>_. Done 0)))))))))"

section \<open>The client\<close>

definition response_message :: "int \<Rightarrow> string" where
  "response_message n = ''[+] GATE0_CLIENT: Received kernel response code: '' @ show_int n @ '' (0 = OK)'' @ newline"

definition client_main ::
  "int \<Rightarrow> (bytes \<Rightarrow> bytes \<Rightarrow> bytes) \<Rightarrow> bytes \<Rightarrow> bytes \<Rightarrow> int io" where
  "client_main sodium sign sk pk =
     (if sodium < 0 then Done 1 else
     Sys (Socket AF_UNIX) (\<lambda>s. let sock = ret s in
     if sock < 0 then Sys (Perror ''[-] Client socket creation failed'') (\<lambda>_. Done 1) else
     Sys (Connect sock (unix_address GATE0_SOCKET_PATH)) (\<lambda>c.
     if ret c < 0 then
       Sys (Perror ''[-] Client connect failed (is gate0_daemon running?)'') (\<lambda>_. Sys (Close sock) (\<lambda>_. Done 1))
     else
     Sys (Write sock (auth_command_bytes (client_command sign sk pk))) (\<lambda>_.
     Sys (Read sock 4) (\<lambda>r.
     Sys (if ret r = 4 then Print (response_message (sint (le_word (stored r) :: u32)))
          else Perror ''[-] Failed to read response from daemon'') (\<lambda>_.
     Sys (Close sock) (\<lambda>_. Done 0)))))))"

section \<open>Descriptors\<close>

lemma one_shot_keeps: "keeps_fds (one_shot_main code vf) F (\<lambda>status G. G = F)"
  by (auto simp: one_shot_main_def one_shot_serve_def Let_def split_beta call_simps)

lemma client_keeps: "keeps_fds (client_main sodium sign sk pk) F (\<lambda>status G. G = F)"
  by (auto simp: client_main_def Let_def call_simps)

section \<open>The two programs joined\<close>

text \<open>What a run receives; two runs are joined when each receives what the other wrote.\<close>

definition receives :: "event list \<Rightarrow> bytes list" where
  "receives es = [stored r. (Read fd n, r) \<leftarrow> es, 0 < ret r]"

lemma receives_simps [simp]:
  "receives [] = []"
  "receives (e # es) = (case fst e of Read _ _ \<Rightarrow> if 0 < ret (snd e) then [stored (snd e)] else [] | _ \<Rightarrow> []) @ receives es"
  "receives (es @ es') = receives es @ receives es'"
  by (auto simp: receives_def split: prod.split sys_call.split)

definition joined :: "event list \<Rightarrow> event list \<Rightarrow> bool" where
  "joined es es' \<longleftrightarrow> receives es = writes es' \<and> receives es' = writes es"

lemma one_shot_run:
  assumes "run_io (one_shot_main code vf) rs = (es, Some (status, rs'))" and "allowed_run F es"
    and "receives es = [bs]" and "length bs = sizeof_AuthCommand"
  shows "writes es = [le_bytes 4 (code (fst (gate0_core_evaluate_command vf (auth_command_of_bytes bs)
     zero_auth_sender zero_bool_interlocks 1750000000000000)))]"
  using assms
  by (auto simp: one_shot_main_def one_shot_serve_def Let_def split_beta allowed_def run_bind
      split: list.splits if_splits prod.splits)

lemma client_run:
  assumes "run_io (client_main sodium sign sk pk) rs = (es, Some (status, rs'))" and "allowed_run F es"
  shows "writes es = [] \<or>
    writes es = [auth_command_bytes (client_command sign sk pk)] \<and> status = 0 \<and>
    (\<forall>bs. receives es = [bs] \<longrightarrow> length bs = 4 \<longrightarrow>
       (\<exists>r. (Print (response_message (sint (le_word bs :: u32))), r) \<in> set es))"
  using assms
  by (auto simp: client_main_def Let_def allowed_def split: list.splits if_splits prod.splits)

text \<open>The outcomes of a run of the daemon, as the connection model of \<open>Pure_Core\<close> takes them.\<close>

definition call_ok :: "(sys_call \<Rightarrow> bool) \<Rightarrow> event list \<Rightarrow> bool" where
  "call_ok P es \<longleftrightarrow> list_ex (\<lambda>(c, r). P c \<and> 0 \<le> ret r) es"

definition one_shot_env :: "event list \<Rightarrow> OneShotEnv" where
  "one_shot_env es =
     \<lparr>socket_ok = call_ok (\<lambda>c. case c of Socket _ \<Rightarrow> True | _ \<Rightarrow> False) es,
      bind_ok = call_ok (\<lambda>c. case c of Bind _ _ \<Rightarrow> True | _ \<Rightarrow> False) es,
      listen_ok = call_ok (\<lambda>c. case c of Listen _ _ \<Rightarrow> True | _ \<Rightarrow> False) es,
      accept_ok = call_ok (\<lambda>c. case c of Accept _ \<Rightarrow> True | _ \<Rightarrow> False) es,
      received = concat (receives es)\<rparr>"

lemma call_ok_simps [simp]:
  "\<not> call_ok P []" "call_ok P (e # es) \<longleftrightarrow> P (fst e) \<and> 0 \<le> ret (snd e) \<or> call_ok P es"
  by (auto simp: call_ok_def)

lemma one_shot_refines:
  assumes "run_io (one_shot_main code vf) rs = (es, Some (status, rs'))" and "allowed_run F es"
  shows "status = int (fst (one_shot_daemon vf (one_shot_env es))) \<and>
    writes es = (case snd (one_shot_daemon vf (one_shot_env es)) of None \<Rightarrow> [] | Some res \<Rightarrow> [le_bytes 4 (code res)])"
  using assms
  by (auto simp: one_shot_main_def one_shot_serve_def one_shot_daemon_def one_shot_env_def sizeof_AuthCommand_def
      Let_def split_beta allowed_def run_bind split: list.splits if_splits prod.splits)

lemma client_frame_ok:
  assumes "\<And>m. vf (sign sk m) m pk = 0" and "\<And>m. length (sign sk m) = 64" and "length pk = 32"
  shows "length (auth_command_bytes (client_command sign sk pk)) = sizeof_AuthCommand"
    and "fst (gate0_core_evaluate_command vf (auth_command_of_bytes (auth_command_bytes (client_command sign sk pk)))
      zero_auth_sender zero_bool_interlocks 1750000000000000) = G0_OK"
proof -
  have "wf_auth (client_command sign sk pk)"
    by (simp add: wf_auth_def client_command_def client_envelope_def assms)
  then show len: "length (auth_command_bytes (client_command sign sk pk)) = sizeof_AuthCommand"
    by (simp add: length_auth_command_bytes sizeof_AuthCommand_def)
  show "fst (gate0_core_evaluate_command vf (auth_command_of_bytes (auth_command_bytes (client_command sign sk pk)))
      zero_auth_sender zero_bool_interlocks 1750000000000000) = G0_OK"
    using client_frame_accepted [where vf = vf and sign = sign and sk = sk and pk = pk, OF assms] len by (simp add: one_shot_daemon_def)
qed

section \<open>Properties\<close>

text \<open>C31: the exchange of one command, call by call. When the client and the daemon run joined by a connection and
  the client gets as far as sending, then, with a signature scheme that verifies what it signs, the
  daemon answers with the number of \<open>G0_OK\<close>, the client prints it as response code 0 and returns 0,
  and both processes have closed every descriptor they opened.\<close>

theorem client_daemon_exchange:
  assumes "run_io (client_main sodium sign sk pk) rc = (ec, Some (status, rc'))" and "allowed_run F ec"
    and "run_io (one_shot_main code vf) rd = (ed, Some (status', rd'))" and "allowed_run G ed"
    and "joined ec ed" and "writes ec \<noteq> []"
    and "\<And>m. vf (sign sk m) m pk = 0" and "\<And>m. length (sign sk m) = 64" and "length pk = 32"
    and "code G0_OK = 0"
  shows "(\<exists>r. (Print (response_message 0), r) \<in> set ec) \<and> status = 0 \<and>
    writes ed = [le_bytes 4 (code G0_OK)] \<and> held_after F ec = F \<and> held_after G ed = G"
proof -
  let ?c = "client_command sign sk pk"
  note frame = client_frame_ok [where vf = vf and sign = sign and sk = sk and pk = pk, OF assms(7-9)]
  note client = client_run [OF assms(1,2)]
  have sent: "writes ec = [auth_command_bytes ?c]" using client assms(6) by auto
  then have "receives ed = [auth_command_bytes ?c]" using assms(5) by (simp add: joined_def)
  from one_shot_run [OF assms(3,4) this frame(1)]
  have answer: "writes ed = [le_bytes 4 (code G0_OK)]" by (simp only: frame(2))
  then have "receives ec = [le_bytes 4 (0 :: u32)]" using assms(5,10) by (simp add: joined_def)
  moreover have "le_word (le_bytes 4 (0 :: u32)) = (0 :: u32)" by (rule le_word_le_bytes) simp
  ultimately have "\<exists>r. (Print (response_message 0), r) \<in> set ec" "status = 0"
    using client sent by auto
  with answer keeps_fds_sound [OF client_keeps assms(1,2)] keeps_fds_sound [OF one_shot_keeps assms(3,4)]
  show ?thesis by simp
qed

definition demo_sign :: "bytes \<Rightarrow> bytes \<Rightarrow> bytes" where
  "demo_sign sk m = sk @ sk"

definition demo_code :: "Gate0Result \<Rightarrow> u32" where
  "demo_code r = (if r = G0_OK then 0 else 1)"

definition delivers :: "bytes \<Rightarrow> sys_reply" where
  "delivers bs = (answer (int (length bs)))\<lparr>stored := bs\<rparr>"

theorem client_daemon_exchange_witness:
  "\<exists>r. (Print (response_message 0), r) \<in> set (fst (run_io
     (client_main 0 demo_sign (replicate 32 9) (replicate 32 9))
     (map answer [3, 0, 405] @ [delivers (le_bytes 4 (0 :: u32)), answer 0, answer 0])))"
proof -
  let ?k = "replicate 32 (9 :: u8)"
  let ?cmd = "auth_command_bytes (client_command demo_sign ?k ?k)"
  let ?client = "client_main 0 demo_sign ?k ?k"
  let ?rc = "map answer [3, 0, 405] @ [delivers (le_bytes 4 (0 :: u32)), answer 0, answer 0]"
  let ?daemon = "one_shot_main demo_code demo_verify"
  let ?rd = "map answer [0, 3, 0, 0, 0, 4] @ [delivers ?cmd] @ map answer [4, 0, 0, 0]"
  have sig: "\<And>m. demo_verify (demo_sign ?k m) m ?k = 0" "\<And>m. length (demo_sign ?k m) = 64" "length ?k = 32"
    by (simp_all add: demo_verify_def demo_sign_def)
  note frame = client_frame_ok [where vf = demo_verify and sign = demo_sign and sk = ?k and pk = ?k, OF sig]
  have len: "length ?cmd = 405" using frame(1) by (simp add: sizeof_AuthCommand_def)
  note run = run_io_steps Let_def call_simps len delivers_def
  have c: "snd (run_io ?client ?rc) = Some (0, [])" "allowed_run {0, 1, 2} (fst (run_io ?client ?rc))"
    "writes (fst (run_io ?client ?rc)) = [?cmd]" "receives (fst (run_io ?client ?rc)) = [le_bytes 4 (0 :: u32)]"
    by (simp_all add: client_main_def run cong: io_congs del: run_io.simps(2))
  have d: "snd (run_io ?daemon ?rd) = Some (0, [])" "allowed_run {0, 1, 2} (fst (run_io ?daemon ?rd))"
    "receives (fst (run_io ?daemon ?rd)) = [?cmd]"
    by (simp_all add: one_shot_main_def one_shot_serve_def split_beta sizeof_AuthCommand_def run
        cong: io_congs del: run_io.simps(2))
  obtain ec where ec: "run_io ?client ?rc = (ec, Some (0, []))" using c(1) by (metis prod.collapse)
  obtain ed where ed: "run_io ?daemon ?rd = (ed, Some (0, []))" using d(1) by (metis prod.collapse)
  note c = c [unfolded ec fst_conv] and d = d [unfolded ed fst_conv]
  have "writes ed = [le_bytes 4 (0 :: u32)]"
    using one_shot_run [OF ed d(2,3) frame(1)] by (simp only: frame(2)) (simp add: demo_code_def)
  then have "joined ec ed" by (simp only: joined_def c d simp_thms)
  from client_daemon_exchange [where vf = demo_verify and sign = demo_sign and sk = ?k and pk = ?k,
      OF ec c(2) ed d(2) this _ sig] c(3)
  show ?thesis unfolding ec by (simp add: demo_code_def)
qed

end
