(* ===== verification/Daemon_Calls.thy ===== *)
theory Daemon_Calls
  imports Deception_Daemon Executive_Calls
begin

text \<open>
  \<open>gate0_daemon.c\<close> as a program of system calls: the two listening sockets, \<open>epoll\<close>, the handler with its clock
  readings and the timer. The evaluator is a parameter as in \<open>Deception_Daemon\<close>; the static descriptors are
  passed along. A run is read back as wake-ups, clients and clock readings, and shown to be the run of the loop of that theory on them.
\<close>

section \<open>The sockets\<close>

definition DAEMON_SOCKET_PATH :: string where
  "DAEMON_SOCKET_PATH = ''/data/data/com.termux/files/home/gate0/gate0.sock''"

text \<open>The result and the descriptor left in \<open>unix_fd\<close> or \<open>tcp_fd\<close>.\<close>

definition init_unix_socket :: "(int \<times> int) io" where
  "init_unix_socket =
     Sys (Unlink DAEMON_SOCKET_PATH) (\<lambda>_.
     Sys (Socket AF_UNIX) (\<lambda>s. let unix_fd = ret s in
     if unix_fd < 0 then Done (-1, unix_fd) else
     Sys (Bind unix_fd (unix_address DAEMON_SOCKET_PATH)) (\<lambda>b.
     if ret b < 0 then Done (-1, unix_fd) else
     Sys (Listen unix_fd 8) (\<lambda>l.
     if ret l < 0 then Done (-1, unix_fd) else Done (0, unix_fd)))))"

abbreviation TCP_PORT :: "'a::numeral" where "TCP_PORT \<equiv> 4200"
abbreviation MAX_EVENTS :: nat where "MAX_EVENTS \<equiv> 64"
abbreviation CMD_BUF_LEN :: nat where "CMD_BUF_LEN \<equiv> 512"

definition init_tcp_socket :: "(int \<times> int) io" where
  "init_tcp_socket =
     Sys (Socket AF_INET) (\<lambda>s. let tcp_fd = ret s in
     if tcp_fd < 0 then Done (-1, tcp_fd) else
     Sys (Setsockopt tcp_fd SO_REUSEADDR) (\<lambda>_.
     Sys (Bind tcp_fd (Inet_addr 0 TCP_PORT)) (\<lambda>b.
     if ret b < 0 then Done (-1, tcp_fd) else
     Sys (Listen tcp_fd 8) (\<lambda>l.
     if ret l < 0 then Done (-1, tcp_fd) else Done (0, tcp_fd)))))"

section \<open>The handler\<close>

definition sockaddr_of_bytes :: "bytes \<Rightarrow> sockaddr_in" where
  "sockaddr_of_bytes bs = \<lparr>sin_family = le_word (field_at 0 2 bs), sin_port = le_word (field_at 2 2 bs),
     sin_addr = le_word (field_at 4 4 bs)\<rparr>"

definition register_io :: "sockaddr_in \<Rightarrow> AttackPattern \<Rightarrow> ShadowTable \<Rightarrow> (nat option \<times> ShadowTable) io" where
  "register_io addr p t =
     (if table_count t \<ge> SHADOW_TABLE_MAX then Done (None, t)
      else Sys Clock_gettime (\<lambda>c. Done (shadow_register addr p (clock_ns c) t)))"

definition feed_io :: "nat option \<Rightarrow> ShadowTable \<Rightarrow> ShadowTable io" where
  "feed_io se t =
     (case se of
        None \<Rightarrow> Done t
      | Some i \<Rightarrow>
          if \<not> shadow_active (sh_table t ! i) then Done t
          else Sys Clock_gettime (\<lambda>c. Done (shadow_feed_decoy (clock_ns c) se t)))"

definition engage_io :: "AttackPattern \<Rightarrow> sockaddr_in \<Rightarrow> ShadowTable \<Rightarrow> (nat option \<times> ShadowTable) io" where
  "engage_io p addr t =
     (let (se, t) = shadow_lookup addr t in
      io_bind
        (case se of
           None \<Rightarrow> register_io addr p t
         | Some i \<Rightarrow> Done (Some i, update_entry i (\<lambda>e. e\<lparr>attempt_count := attempt_count e + 1\<rparr>) t))
        (\<lambda>(se, t). io_bind (feed_io se t) (\<lambda>t. Done (se, t))))"

text \<open>Feed a decoy, send it and close; \<open>fallback\<close> is what is sent when there is no entry, if anything can be.\<close>

definition reply_decoy ::
  "AttackPattern \<Rightarrow> sockaddr_in \<Rightarrow> (fault + bytes) \<Rightarrow> int \<Rightarrow> ShadowTable \<Rightarrow> (fault + ShadowTable) io" where
  "reply_decoy p addr fallback cfd t =
     io_bind (engage_io p addr t) (\<lambda>(se, t).
     case (case se of Some i \<Rightarrow> Inr (shadow_envelope (sh_table t ! i)) | None \<Rightarrow> fallback) of
       Inl f \<Rightarrow> Done (Inl f)
     | Inr out \<Rightarrow> Sys (Send cfd out) (\<lambda>_. Sys (Close cfd) (\<lambda>_. Done (Inr t))))"

definition handle_tcp_client_io :: "evaluator \<Rightarrow> int \<Rightarrow> ShadowTable \<Rightarrow> (fault + ShadowTable) io" where
  "handle_tcp_client_io ev tcp_fd t =
     Sys (Accept tcp_fd) (\<lambda>a. let cfd = ret a; addr = sockaddr_of_bytes (stored a) in
     if cfd < 0 then Done (Inr t) else
     Sys (Recv cfd CMD_BUF_LEN) (\<lambda>r.
     let buf = (if ret r < 0 then residue r else stored r @ drop (length (stored r)) (residue r)) in
     if ret r < int sizeof_SignedCommand then
       reply_decoy ATTACK_MALFORMED addr (Inr (take 374 buf)) cfd t
     else
       Sys Clock_gettime (\<lambda>c.
       case ev (command_of_bytes buf) (clock_ns c) of
         Inl f \<Rightarrow> Done (Inl f)
       | Inr rc \<Rightarrow>
           if rc = GO_SEQUENCE_INVALID then reply_decoy ATTACK_REPLAY addr (Inl NullDeref) cfd t
           else if rc = GO_SIGNATURE_INVALID then reply_decoy ATTACK_SIG_FLOOD addr (Inl NullDeref) cfd t
           else Sys (Send cfd (le_bytes 1 (0 :: u8))) (\<lambda>_. Sys (Close cfd) (\<lambda>_. Done (Inr t))))))"

section \<open>The main loop\<close>

primrec serve_ready :: "evaluator \<Rightarrow> int \<Rightarrow> int \<Rightarrow> int list \<Rightarrow> ShadowTable \<Rightarrow> (fault + ShadowTable) io" where
  "serve_ready ev unix_fd tcp_fd [] t = Done (Inr t)"
| "serve_ready ev unix_fd tcp_fd (fd # fds) t =
     (if fd = tcp_fd then
        io_bind (handle_tcp_client_io ev tcp_fd t) (\<lambda>x.
        case x of Inl f \<Rightarrow> Done (Inl f) | Inr t \<Rightarrow> serve_ready ev unix_fd tcp_fd fds t)
      else if fd = unix_fd then
        Sys (Accept unix_fd) (\<lambda>a.
        if 0 \<le> ret a then Sys (Close (ret a)) (\<lambda>_. serve_ready ev unix_fd tcp_fd fds t)
        else serve_ready ev unix_fd tcp_fd fds t)
      else serve_ready ev unix_fd tcp_fd fds t)"

definition daemon_round ::
  "evaluator \<Rightarrow> int \<Rightarrow> int \<Rightarrow> int \<Rightarrow> ShadowTable \<times> u64 \<Rightarrow> ((ShadowTable \<times> u64) + fault) io" where
  "daemon_round ev unix_fd tcp_fd epoll_fd st =
     Sys (Epoll_wait epoll_fd MAX_EVENTS 2000) (\<lambda>w.
     Sys Clock_gettime (\<lambda>c.
     let (t, last_evict) = st;
         now = clock_ns c;
         (t, last_evict) = (if now - last_evict \<ge> EVICT_INTERVAL_NS then (shadow_evict_expired now t, now)
                            else (t, last_evict))
     in io_bind (serve_ready ev unix_fd tcp_fd (take (nat (ret w)) (ready w)) t) (\<lambda>x.
        case x of Inl f \<Rightarrow> Done (Inr f) | Inr t \<Rightarrow> Done (Inl (t, last_evict)))))"

definition daemon_banner :: string where
  "daemon_banner = ''[+] GATE0 DAEMON: UNIX='' @ DAEMON_SOCKET_PATH @ '' TCP='' @ decimal TCP_PORT @ newline"

definition daemon_serve :: "nat \<Rightarrow> evaluator \<Rightarrow> int \<Rightarrow> int \<Rightarrow> ShadowTable \<Rightarrow> (exit_status \<times> ShadowTable option) io" where
  "daemon_serve rounds ev unix_fd tcp_fd t =
     Sys Epoll_create (\<lambda>e. let epoll_fd = ret e in
     if epoll_fd < 0 then Sys (Perror ''[-] epoll_create1 failed'') (\<lambda>_. Done (Exit 1, None)) else
     Sys (Epoll_ctl_add epoll_fd unix_fd) (\<lambda>_.
     Sys (Epoll_ctl_add epoll_fd tcp_fd) (\<lambda>_.
     Sys (Print daemon_banner) (\<lambda>_.
     Sys Clock_gettime (\<lambda>c.
     io_bind (io_loop rounds (daemon_round ev unix_fd tcp_fd epoll_fd) (t, clock_ns c)) (\<lambda>x.
     case x of Inl (t, _) \<Rightarrow> Done (Running, Some t) | Inr f \<Rightarrow> Done (Fault f, None)))))))"

definition daemon_main :: "nat \<Rightarrow> evaluator \<Rightarrow> (exit_status \<times> ShadowTable option) io" where
  "daemon_main rounds ev =
     (let t = shadow_init in
     io_bind init_unix_socket (\<lambda>(rc, unix_fd).
     if rc < 0 then Sys (Perror ''[-] UNIX socket init failed'') (\<lambda>_. Done (Exit 1, None)) else
     io_bind init_tcp_socket (\<lambda>(rc, tcp_fd).
     if rc < 0 then Sys (Perror ''[-] TCP socket init failed'') (\<lambda>_. Done (Exit 1, None)) else
     daemon_serve rounds ev unix_fd tcp_fd t)))"

section \<open>The calls refine the handler\<close>

definition sends :: "event list \<Rightarrow> bytes list" where
  "sends es = [bs. (Send fd bs, r) \<leftarrow> es]"

lemma sends_simps [simp]:
  "sends [] = []"
  "sends (e # es) = (case fst e of Send _ bs \<Rightarrow> [bs] | _ \<Rightarrow> []) @ sends es"
  "sends (es @ es') = sends es @ sends es'"
  by (auto simp: sends_def split: prod.split sys_call.split)

text \<open>What \<open>recv\<close> returned, call by call.\<close>

definition recvs :: "event list \<Rightarrow> int list" where
  "recvs es = [ret r. (Recv fd n, r) \<leftarrow> es]"

lemma recvs_simps [simp]:
  "recvs [] = []"
  "recvs (e # es) = (case fst e of Recv _ _ \<Rightarrow> [ret (snd e)] | _ \<Rightarrow> []) @ recvs es"
  "recvs (es @ es') = recvs es @ recvs es'"
  by (auto simp: recvs_def split: prod.split sys_call.split)

lemma update_entry_inactive:
  "\<not> shadow_active (sh_table t ! i) \<Longrightarrow> shadow_feed_decoy now (Some i) t = t"
  by (simp add: shadow_feed_decoy_def update_entry_def feed_entry_def)

text \<open>The clients, wake-ups and clock readings that the answers of a run amount to: an \<open>accept\<close> with the \<open>recv\<close> after it is
  a TCP client, whose clock readings are those up to the next other call; a full frame's first reading is the
  evaluator's, of the others the first is that of \<open>shadow_register\<close>, if it is called, and the last that of \<open>shadow_feed_decoy\<close>.
  Any other successful \<open>accept\<close> is on the Unix socket. A wake-up is an \<open>epoll_wait\<close> with the clock reading behind it and the
  clients up to the next one.\<close>

definition client_of :: "sys_reply \<Rightarrow> sys_reply \<Rightarrow> u64 \<Rightarrow> u64 \<Rightarrow> u64 \<Rightarrow> TcpClient" where
  "client_of a r now reg feed =
     \<lparr>peer = sockaddr_of_bytes (stored a), received = (if ret r < 0 then None else Some (stored r)), buffer_before = residue r,
      t_eval = now, t_register = reg, t_feed = feed\<rparr>"

definition first_clock :: "u64 list \<Rightarrow> u64" where
  "first_clock ts = (if ts = [] then 0 else hd ts)"

definition last_clock :: "u64 list \<Rightarrow> u64" where
  "last_clock ts = (if ts = [] then 0 else last ts)"

definition client_at :: "sys_reply \<Rightarrow> sys_reply \<Rightarrow> u64 list \<Rightarrow> TcpClient" where
  "client_at a r ts =
     (let later = (if ret r < int sizeof_SignedCommand then ts else tl ts)
      in client_of a r (first_clock ts) (first_clock later) (last_clock later))"

definition clock_run :: "event list \<Rightarrow> u64 list" where
  "clock_run es = map (\<lambda>e. clock_ns (snd e)) (takeWhile (\<lambda>e. fst e = Clock_gettime) es)"

definition recv_next :: "event list \<Rightarrow> sys_reply option" where
  "recv_next es = (case es of [] \<Rightarrow> None | e # _ \<Rightarrow> (case fst e of Recv _ _ \<Rightarrow> Some (snd e) | _ \<Rightarrow> None))"

primrec daemon_clients :: "event list \<Rightarrow> wake_event list" where
  "daemon_clients [] = []"
| "daemon_clients (e # es) =
     (case fst e of
        Accept _ \<Rightarrow>
          (case recv_next es of
             Some r \<Rightarrow> [Tcp (client_at (snd e) r (clock_run (tl es)))]
           | None \<Rightarrow> if 0 \<le> ret (snd e) then [Unix_connection] else [])
      | _ \<Rightarrow> []) @ daemon_clients es"

definition is_wait :: "event \<Rightarrow> bool" where
  "is_wait e \<longleftrightarrow> (case fst e of Epoll_wait _ _ _ \<Rightarrow> True | _ \<Rightarrow> False)"

lemma is_wait_simp [simp]: "is_wait (c, r) \<longleftrightarrow> (case c of Epoll_wait _ _ _ \<Rightarrow> True | _ \<Rightarrow> False)"
  by (simp add: is_wait_def)

primrec daemon_wakes :: "event list \<Rightarrow> (u64 \<times> wake_event list) list" where
  "daemon_wakes [] = []"
| "daemon_wakes (e # es) =
     (if is_wait e
      then [(first_clock (clock_run es), daemon_clients (takeWhile (\<lambda>e. \<not> is_wait e) es))]
      else []) @ daemon_wakes es"

text \<open>\<open>last_evict\<close> is set from the first clock reading of the run.\<close>

definition clock_answers :: "event list \<Rightarrow> u64 list" where
  "clock_answers es = [clock_ns r. (Clock_gettime, r) \<leftarrow> es]"

definition daemon_start :: "event list \<Rightarrow> u64" where
  "daemon_start es = first_clock (clock_answers es)"

text \<open>The connections taken, and those that \<open>epoll_wait\<close> reports on the two listening sockets.\<close>

definition accepts :: "event list \<Rightarrow> int list" where
  "accepts es = [fd. (Accept fd, a) \<leftarrow> es]"

definition listeners :: "event list \<Rightarrow> int list" where
  "listeners es = [ret r. (Socket d, r) \<leftarrow> es]"

definition reported :: "int list \<Rightarrow> event list \<Rightarrow> int list" where
  "reported ls es = filter (\<lambda>fd. fd \<in> set ls) (concat [take (nat (ret w)) (ready w). (Epoll_wait fd n ms, w) \<leftarrow> es])"

lemma daemon_events_simps [simp]:
  "accepts [] = []" "accepts (e # es) = (case fst e of Accept fd \<Rightarrow> [fd] | _ \<Rightarrow> []) @ accepts es"
  "accepts (es @ es') = accepts es @ accepts es'"
  "listeners [] = []" "listeners (e # es) = (case fst e of Socket _ \<Rightarrow> [ret (snd e)] | _ \<Rightarrow> []) @ listeners es"
  "listeners (es @ es') = listeners es @ listeners es'"
  "reported ls [] = []"
  "reported ls (e # es) = (if is_wait e then filter (\<lambda>fd. fd \<in> set ls) (take (nat (ret (snd e))) (ready (snd e))) else []) @
     reported ls es"
  "reported ls (es @ es') = reported ls es @ reported ls es'"
  "clock_answers [] = []"
  "clock_answers (e # es) = (if fst e = Clock_gettime then [clock_ns (snd e)] else []) @ clock_answers es"
  "clock_answers (es @ es') = clock_answers es @ clock_answers es'"
  "clock_run [] = []"
  "clock_run (e # es) = (if fst e = Clock_gettime then clock_ns (snd e) # clock_run es else [])"
  "recv_next [] = None"
  "recv_next (e # es) = (case fst e of Recv _ _ \<Rightarrow> Some (snd e) | _ \<Rightarrow> None)"
  by (auto simp: accepts_def listeners_def reported_def clock_answers_def clock_run_def recv_next_def is_wait_def split: prod.split sys_call.split)

abbreviation clock_events :: "sys_reply list \<Rightarrow> event list" where
  "clock_events cs \<equiv> map (Pair Clock_gettime) cs"

lemma clock_events_simps [simp]:
  "sends (clock_events cs) = []" "recvs (clock_events cs) = []" "accepts (clock_events cs) = []"
  "listeners (clock_events cs) = []" "reported ls (clock_events cs) = []"
  "clock_run (clock_events cs @ es) = map clock_ns cs @ clock_run es"
  "daemon_clients (clock_events cs @ es) = daemon_clients es"
  "list_all (\<lambda>e. \<not> is_wait e) (clock_events cs)"
  by (induction cs) auto

lemma register_io_run:
  assumes "run_io (register_io addr p t) rs = (es, Some ((se, t'), rs'))"
  shows "\<exists>cs. es = clock_events cs \<and> length cs \<le> 1 \<and>
       (\<forall>now. (cs \<noteq> [] \<longrightarrow> now = clock_ns (hd cs)) \<longrightarrow> shadow_register addr p now t = (se, t'))"
proof (cases "table_count t \<ge> SHADOW_TABLE_MAX")
  case True
  with assms show ?thesis by (intro exI [of _ "[]"]) (auto simp: register_io_def shadow_register_def)
next
  case False
  with assms obtain c where "es = clock_events [c]" "shadow_register addr p (clock_ns c) t = (se, t')"
    by (auto simp: register_io_def split: list.splits)
  then show ?thesis by (intro exI [of _ "[c]"]) simp
qed

lemma feed_io_run:
  assumes "run_io (feed_io se t) rs = (es, Some (t', rs'))"
  shows "\<exists>cs. es = clock_events cs \<and> length cs \<le> 1 \<and>
       (\<forall>now. (cs \<noteq> [] \<longrightarrow> now = clock_ns (hd cs)) \<longrightarrow> shadow_feed_decoy now se t = t')"
proof (cases "case se of None \<Rightarrow> True | Some i \<Rightarrow> \<not> shadow_active (sh_table t ! i)")
  case True
  with assms update_entry_inactive show ?thesis
    by (intro exI [of _ "[]"]) (auto simp: feed_io_def shadow_feed_decoy_def split: option.splits)
next
  case False
  with assms obtain c where "es = clock_events [c]" "shadow_feed_decoy (clock_ns c) se t = t'"
    by (auto simp: feed_io_def split: list.splits option.splits)
  then show ?thesis by (intro exI [of _ "[c]"]) simp
qed

lemma engage_io_run:
  assumes "run_io (engage_io p addr t) rs = (es, Some ((se, t'), rs'))"
  shows "\<exists>cs. es = clock_events cs \<and> (\<forall>rcv bef now.
    engage p \<lparr>peer = addr, received = rcv, buffer_before = bef, t_eval = now,
      t_register = first_clock (map clock_ns cs), t_feed = last_clock (map clock_ns cs)\<rparr> t = (se, t'))"
proof -
  obtain se0 t0 where l: "shadow_lookup addr t = (se0, t0)" by (cases "shadow_lookup addr t")
  let ?m = "case se0 of None \<Rightarrow> register_io addr p t0
     | Some i \<Rightarrow> Done (Some i, update_entry i (\<lambda>e. e\<lparr>attempt_count := attempt_count e + 1\<rparr>) t0)"
  obtain es1 se1 t1 rs1 es2 where m: "run_io ?m rs = (es1, Some ((se1, t1), rs1))"
    and f: "run_io (feed_io se1 t1) rs1 = (es2, Some (t', rs'))" and r: "se1 = se" "es = es1 @ es2"
    using assms l by (auto simp: engage_io_def run_bind split: prod.splits option.splits)
  obtain c2 where c2: "es2 = clock_events c2" "length c2 \<le> 1"
    and feed: "\<And>now. (c2 \<noteq> [] \<longrightarrow> now = clock_ns (hd c2)) \<Longrightarrow> shadow_feed_decoy now se1 t1 = t'"
    using feed_io_run [OF f] by blast
  have last: "c2 \<noteq> [] \<longrightarrow> last_clock (map clock_ns (cs @ c2)) = clock_ns (hd c2)" for cs
    using c2(2) by (cases c2) (auto simp: last_clock_def)
  show ?thesis
  proof (cases se0)
    case None
    with m register_io_run obtain c1 where c1: "es1 = clock_events c1"
      and reg: "\<And>now. (c1 \<noteq> [] \<longrightarrow> now = clock_ns (hd c1)) \<Longrightarrow> shadow_register addr p now t0 = (se1, t1)" by fastforce
    have "c1 \<noteq> [] \<longrightarrow> first_clock (map clock_ns (c1 @ c2)) = clock_ns (hd c1)" by (simp add: first_clock_def hd_append hd_map)
    with None l feed [OF last [of c1]] reg r c1 c2(1) show ?thesis
      by (intro exI [of _ "c1 @ c2"]) (simp add: engage_def)
  next
    case (Some i)
    with m l feed [OF last [of "[]"]] r c2(1) show ?thesis by (intro exI [of _ c2]) (auto simp: engage_def)
  qed
qed

lemma reply_decoy_run:
  assumes "run_io (reply_decoy p addr fallback cfd t) rs = (es, Some (Inr t', rs'))"
  shows "\<exists>cs out se x y. es = clock_events cs @ [(Send cfd out, x), (Close cfd, y)] \<and>
    (\<forall>rcv bef now. engage p \<lparr>peer = addr, received = rcv, buffer_before = bef, t_eval = now,
       t_register = first_clock (map clock_ns cs), t_feed = last_clock (map clock_ns cs)\<rparr> t = (se, t')) \<and>
    (case se of Some i \<Rightarrow> Inr (shadow_envelope (sh_table t' ! i)) | None \<Rightarrow> fallback) = Inr out"
proof -
  obtain es1 se rs1 es2 where m: "run_io (engage_io p addr t) rs = (es1, Some ((se, t'), rs1))"
    and r: "es = es1 @ es2" "\<exists>out x y. (case se of Some i \<Rightarrow> Inr (shadow_envelope (sh_table t' ! i)) | None \<Rightarrow> fallback) = Inr out \<and>
      es2 = [(Send cfd out, x), (Close cfd, y)]"
    using assms
    by (auto simp: reply_decoy_def run_bind split: prod.splits option.splits sum.splits list.splits)
  from engage_io_run [OF m] r show ?thesis by blast
qed

text \<open>The buffer after \<open>recv\<close>.\<close>

definition recv_buffer :: "sys_reply \<Rightarrow> bytes" where
  "recv_buffer r = (if ret r < 0 then residue r else stored r @ drop (length (stored r)) (residue r))"

lemma client_of_frame:
  assumes "0 \<le> ret r \<longrightarrow> length (stored r) = nat (ret r)"
  shows "tcp_buffer (client_of a r now reg feed) = recv_buffer r"
    and "short_frame (client_of a r now reg feed) \<longleftrightarrow> ret r < int sizeof_SignedCommand"
  using assms by (auto simp: client_of_def recv_buffer_def tcp_buffer_def short_frame_def)

lemma decoy_handled:
  assumes frame: "0 \<le> ret r \<longrightarrow> length (stored r) = nat (ret r)"
    and run: "run_io (reply_decoy p (sockaddr_of_bytes (stored (a :: sys_reply))) fallback cfd t) rs = (es, Some (Inr t', rs'))"
    and why: "if ret r < int sizeof_SignedCommand
       then p = ATTACK_MALFORMED \<and> fallback = Inr (take 374 (recv_buffer r)) \<and> pre = []
       else fallback = Inl NullDeref \<and> (\<exists>k rc. pre = [k] \<and> ev (command_of_bytes (recv_buffer r)) (clock_ns k) = Inr rc \<and>
         (p = ATTACK_REPLAY \<and> rc = GO_SEQUENCE_INVALID \<or> p = ATTACK_SIG_FLOOD \<and> rc = GO_SIGNATURE_INVALID))"
  shows "\<exists>cs out x y. es = clock_events cs @ [(Send cfd out, x), (Close cfd, y)] \<and>
    handle_tcp_client ev (client_at a r (map clock_ns (pre @ cs))) t = Inr (out, t')"
proof -
  from reply_decoy_run [OF run] obtain cs out se x y where es: "es = clock_events cs @ [(Send cfd out, x), (Close cfd, y)]"
    and e: "\<And>now. engage p (client_of a r now (first_clock (map clock_ns cs)) (last_clock (map clock_ns cs))) t = (se, t')"
    and o: "(case se of Some i \<Rightarrow> Inr (shadow_envelope (sh_table t' ! i)) | None \<Rightarrow> fallback) = (Inr out :: fault + bytes)"
    unfolding client_of_def by blast
  let ?now = "first_clock (map clock_ns (pre @ cs))"
  have at: "client_at a r (map clock_ns (pre @ cs)) =
      client_of a r ?now (first_clock (map clock_ns cs)) (last_clock (map clock_ns cs))"
    using why by (auto simp: client_at_def Let_def split: if_splits)
  have "pre = [k] \<Longrightarrow> t_eval (client_of a r ?now reg feed) = clock_ns k" for k reg feed
    by (simp add: client_of_def first_clock_def)
  with e [of ?now] o why have "handle_tcp_client ev (client_at a r (map clock_ns (pre @ cs))) t = Inr (out, t')"
    unfolding at handle_tcp_client_def client_of_frame [OF frame]
    by (auto simp: Let_def split: option.splits if_splits)
  with es show ?thesis by blast
qed

text \<open>The events of a handled client, and what they amount to.\<close>

definition client_events :: "int \<Rightarrow> sys_reply \<Rightarrow> sys_reply \<Rightarrow> sys_reply list \<Rightarrow> bytes \<Rightarrow> sys_reply \<Rightarrow> sys_reply \<Rightarrow> event list" where
  "client_events tcp_fd a r cs out x y =
     (Accept tcp_fd, a) # (Recv (ret a) CMD_BUF_LEN, r) # clock_events cs @ [(Send (ret a) out, x), (Close (ret a), y)]"

lemma client_events_simps [simp]:
  "sends (client_events fd a r cs out x y) = [out]"
  "accepts (client_events fd a r cs out x y) = [fd]"
  "reported ls (client_events fd a r cs out x y) = []" "listeners (client_events fd a r cs out x y) = []"
  "list_all (\<lambda>e. \<not> is_wait e) (client_events fd a r cs out x y)"
  "recv_next (client_events fd a r cs out x y @ es) = None"
  "daemon_clients (client_events fd a r cs out x y @ es) = Tcp (client_at a r (map clock_ns cs)) # daemon_clients es"
  by (simp_all add: client_events_def)

lemma handle_tcp_client_io_run:
  assumes "run_io (handle_tcp_client_io ev tcp_fd t) rs = (es, Some (Inr t', rs'))" and "allowed_run F es"
  shows "(\<exists>a. es = [(Accept tcp_fd, a)] \<and> ret a < 0 \<and> t' = t) \<or>
    (\<exists>a r cs out x y. es = client_events tcp_fd a r cs out x y \<and>
       handle_tcp_client ev (client_at a r (map clock_ns cs)) t = Inr (out, t'))"
proof -
  obtain a rs1 where rs: "rs = a # rs1" using assms(1) by (cases rs) (auto simp: handle_tcp_client_io_def)
  show ?thesis
  proof (cases "ret a < 0")
    case True
    with assms(1) rs show ?thesis by (auto simp: handle_tcp_client_io_def)
  next
    case False
    with assms(1) rs obtain r rs2 where rs1: "rs1 = r # rs2"
      by (cases rs1) (auto simp: handle_tcp_client_io_def Let_def)
    have frame: "0 \<le> ret r \<longrightarrow> length (stored r) = nat (ret r)"
      using assms False unfolding rs rs1
      by (auto simp: handle_tcp_client_io_def Let_def allowed_def split: prod.splits)
    note run = assms(1) [unfolded rs rs1 handle_tcp_client_io_def Let_def, folded recv_buffer_def]
    note events = client_events_def [of tcp_fd a r]
    show ?thesis
    proof (cases "ret r < int sizeof_SignedCommand")
      case True
      with run False obtain es1 where es: "es = (Accept tcp_fd, a) # (Recv (ret a) CMD_BUF_LEN, r) # es1"
        and d: "run_io (reply_decoy ATTACK_MALFORMED (sockaddr_of_bytes (stored a)) (Inr (take 374 (recv_buffer r))) (ret a) t) rs2 =
           (es1, Some (Inr t', rs'))"
        by (auto split: prod.splits)
      from decoy_handled [OF frame d, of "[]" ev] True obtain cs out x y where
        "es1 = clock_events cs @ [(Send (ret a) out, x), (Close (ret a), y)]"
        and h: "handle_tcp_client ev (client_at a r (map clock_ns cs)) t = Inr (out, t')" by auto
      with es have "es = client_events tcp_fd a r cs out x y" by (simp add: events)
      with h show ?thesis by blast
    next
      case long: False
      with run False obtain k rs3 where rs2: "rs2 = k # rs3" by (cases rs2) auto
      with run long False obtain rc where rc: "ev (command_of_bytes (recv_buffer r)) (clock_ns k) = Inr rc"
        by (auto split: sum.splits prod.splits)
      show ?thesis
      proof (cases "rc = GO_SEQUENCE_INVALID \<or> rc = GO_SIGNATURE_INVALID")
        case True
        with run long False rs2 rc obtain p es1 where
          es: "es = (Accept tcp_fd, a) # (Recv (ret a) CMD_BUF_LEN, r) # (Clock_gettime, k) # es1" and
          d: "run_io (reply_decoy p (sockaddr_of_bytes (stored a)) (Inl NullDeref) (ret a) t) rs3 = (es1, Some (Inr t', rs'))"
          "p = ATTACK_REPLAY \<and> rc = GO_SEQUENCE_INVALID \<or> p = ATTACK_SIG_FLOOD \<and> rc = GO_SIGNATURE_INVALID"
          by (auto split: prod.splits)
        from decoy_handled [OF frame d(1), of "[k]" ev] long rc d(2) obtain cs out x y where
          "es1 = clock_events cs @ [(Send (ret a) out, x), (Close (ret a), y)]"
          "handle_tcp_client ev (client_at a r (map clock_ns ([k] @ cs))) t = Inr (out, t')" by auto
        with es have "es = client_events tcp_fd a r ([k] @ cs) out x y" by (simp add: events)
        then show ?thesis using \<open>handle_tcp_client ev _ t = _\<close> by blast
      next
        case other: False
        with run long False rs2 rc obtain x y where es: "es = client_events tcp_fd a r [k] [0] x y" and t: "t' = t"
          by (auto simp: events split: prod.splits list.splits)
        have "client_at a r (map clock_ns [k]) = client_of a r (clock_ns k) 0 0"
          using long by (simp add: client_at_def first_clock_def last_clock_def)
        moreover have "t_eval (client_of a r (clock_ns k) 0 0) = clock_ns k" by (simp add: client_of_def)
        ultimately have "handle_tcp_client ev (client_at a r (map clock_ns [k])) t = Inr ([0], t')"
          using long rc other t unfolding handle_tcp_client_def
          by (simp only: client_of_frame [OF frame]) (simp add: Let_def)
        with es show ?thesis by blast
      qed
    qed
  qed
qed

text \<open>One batch: its events are those of its clients, it takes exactly the connections reported, in order.\<close>

lemma serve_ready_run:
  "run_io (serve_ready ev unix_fd tcp_fd fds t) rs = (es, Some (Inr t', rs')) \<Longrightarrow> allowed_run F es \<Longrightarrow>
     serve_events ev (daemon_clients es) t = Inr (sends es, t') \<and> accepts es = filter (\<lambda>fd. fd \<in> {unix_fd, tcp_fd}) fds \<and>
     list_all (\<lambda>e. \<not> is_wait e) es \<and> listeners es = [] \<and> recv_next es = None"
proof (induction fds arbitrary: t rs es F)
  case Nil
  then show ?case by auto
next
  case (Cons fd fds)
  consider (tcp) "fd = tcp_fd" | (unix) "fd \<noteq> tcp_fd" "fd = unix_fd" | (other) "fd \<noteq> tcp_fd" "fd \<noteq> unix_fd" by blast
  then show ?case
  proof cases
    case tcp
    obtain es1 t1 rs1 es2 where h: "run_io (handle_tcp_client_io ev tcp_fd t) rs = (es1, Some (Inr t1, rs1))"
      and l: "run_io (serve_ready ev unix_fd tcp_fd fds t1) rs1 = (es2, Some (Inr t', rs'))" and es: "es = es1 @ es2"
      using Cons.prems(1) tcp by (auto simp: run_bind split: prod.splits option.splits sum.splits)
    have "allowed_run (held_after F es1) es2" "allowed_run F es1" using Cons.prems(2) es by simp_all
    note ih = Cons.IH [OF l this(1)] and client = handle_tcp_client_io_run [OF h this(2)]
    from client show ?thesis
      by (elim disjE exE conjE) (use ih es tcp in auto)
  next
    case unix
    obtain es1 es2 rs1 where l: "run_io (serve_ready ev unix_fd tcp_fd fds t) rs1 = (es2, Some (Inr t', rs'))"
      and es: "es = es1 @ es2"
      and es1: "(\<exists>a x. es1 = [(Accept unix_fd, a), (Close (ret a), x)] \<and> 0 \<le> ret a) \<or>
        (\<exists>a. es1 = [(Accept unix_fd, a)] \<and> ret a < 0)"
      using Cons.prems(1) unix by (fastforce split: list.splits prod.splits if_splits)
    have "allowed_run (held_after F es1) es2" using Cons.prems(2) es by simp
    note ih = Cons.IH [OF l this]
    from es1 show ?thesis
      by (elim disjE exE conjE) (use ih es unix in auto)
  next
    case other
    with Cons show ?thesis by auto
  qed
qed

lemma takeWhile_calm: "list_all (\<lambda>e. \<not> P e) xs \<Longrightarrow> takeWhile (\<lambda>e. \<not> P e) (xs @ ys) = xs @ takeWhile (\<lambda>e. \<not> P e) ys"
  by (induction xs) auto

lemma calm_wakes: "list_all (\<lambda>e. \<not> is_wait e) es \<Longrightarrow> daemon_wakes (es @ es') = daemon_wakes es' \<and> reported ls es = []"
  by (induction es) auto

text \<open>One round is one wake-up, the one its events describe.\<close>

lemma daemon_round_run:
  assumes "run_io (daemon_round ev unix_fd tcp_fd epoll_fd st) rs = (es, Some (Inl st', rs'))" and "allowed_run F es"
  obtains w c es1 where "es = (Epoll_wait epoll_fd 64 2000, w) # (Clock_gettime, c) # es1" and "list_all (\<lambda>e. \<not> is_wait e) es1"
    and "daemon_wake ev (clock_ns c, daemon_clients es1) st = Inr (sends es, st')"
    and "accepts es = reported [unix_fd, tcp_fd] es" and "listeners es = []"
proof -
  obtain t last where st: "st = (t, last)" by (cases st)
  obtain w c rs1 where rs: "rs = w # c # rs1"
    using assms(1) by (cases rs; cases "tl rs") (auto simp: daemon_round_def)
  let ?now = "clock_ns c"
  let ?t = "if ?now - last \<ge> EVICT_INTERVAL_NS then shadow_evict_expired ?now t else t"
  let ?last = "if ?now - last \<ge> EVICT_INTERVAL_NS then ?now else last"
  obtain es1 t' where s: "run_io (serve_ready ev unix_fd tcp_fd (take (nat (ret w)) (ready w)) ?t) rs1 =
      (es1, Some (Inr t', rs'))" and r: "st' = (t', ?last)"
      and es: "es = (Epoll_wait epoll_fd 64 2000, w) # (Clock_gettime, c) # es1"
    using assms(1) st rs
    by (cases "EVICT_INTERVAL_NS \<le> ?now - last")
      (auto simp: daemon_round_def Let_def run_bind split: prod.splits option.splits sum.splits)
  have "allowed_run (held_after F (take 2 es)) es1" using assms(2) es by simp
  note served = serve_ready_run [OF s this]
  show thesis
  proof (rule that [OF es])
    show "list_all (\<lambda>e. \<not> is_wait e) es1" using served by simp
    show "daemon_wake ev (?now, daemon_clients es1) st = Inr (sends es, st')"
      using served st r es by (cases "EVICT_INTERVAL_NS \<le> ?now - last") (simp_all add: daemon_wake_def)
    show "accepts es = reported [unix_fd, tcp_fd] es"
      using served calm_wakes [of es1] es by simp
    show "listeners es = []" using served es by simp
  qed
qed

text \<open>What follows a round begins with the next \<open>epoll_wait\<close>.\<close>

definition at_wait :: "event list \<Rightarrow> bool" where
  "at_wait es \<longleftrightarrow> (case es of [] \<Rightarrow> True | e # _ \<Rightarrow> is_wait e)"

lemma daemon_rounds_run:
  "run_io (io_loop n (daemon_round ev unix_fd tcp_fd epoll_fd) st) rs = (es, Some (Inl st', rs')) \<Longrightarrow>
     allowed_run F es \<Longrightarrow>
     daemon_loop ev (daemon_wakes es) st = Inr (sends es, st') \<and> length (daemon_wakes es) = n \<and>
     accepts es = reported [unix_fd, tcp_fd] es \<and> listeners es = [] \<and> at_wait es"
proof (induction n arbitrary: st rs es F)
  case 0
  then show ?case by (auto simp: at_wait_def)
next
  case (Suc n)
  obtain es1 st1 rs1 es2 where b: "run_io (daemon_round ev unix_fd tcp_fd epoll_fd st) rs = (es1, Some (Inl st1, rs1))"
    and l: "run_io (io_loop n (daemon_round ev unix_fd tcp_fd epoll_fd) st1) rs1 = (es2, Some (Inl st', rs'))"
    and es: "es = es1 @ es2"
    using Suc.prems(1) by (auto simp: run_bind split: prod.splits option.splits sum.splits)
  have "allowed_run (held_after F es1) es2" and allowed: "allowed_run F es1" using Suc.prems(2) es by simp_all
  note ih = Suc.IH [OF l this(1)]
  obtain w c e1 where e1: "es1 = (Epoll_wait epoll_fd 64 2000, w) # (Clock_gettime, c) # e1"
    and calm: "list_all (\<lambda>e. \<not> is_wait e) e1"
    and wake: "daemon_wake ev (clock_ns c, daemon_clients e1) st = Inr (sends es1, st1)"
    and acc: "accepts es1 = reported [unix_fd, tcp_fd] es1" and quiet: "listeners es1 = []"
    by (rule daemon_round_run [OF b allowed])
  have "takeWhile (\<lambda>e. \<not> is_wait e) es2 = []" using ih by (cases es2) (auto simp: at_wait_def)
  then have "daemon_wakes es = (clock_ns c, daemon_clients e1) # daemon_wakes es2"
    using calm_wakes [OF calm, of es2] takeWhile_calm [OF calm, of es2] by (simp add: es e1 first_clock_def)
  with ih wake acc quiet show ?case by (simp add: es e1 at_wait_def)
qed

section \<open>Descriptors\<close>

lemma engage_io_keeps: "(\<And>se t. Q (se, t) F) \<Longrightarrow> keeps_fds (engage_io p addr t) F Q"
  by (auto simp: engage_io_def register_io_def feed_io_def call_simps split: prod.splits option.splits)

lemma reply_decoy_keeps:
  assumes "cfd \<in> F"
  shows "keeps_fds (reply_decoy p addr fallback cfd t) F (\<lambda>x G. case x of Inl _ \<Rightarrow> G = F | Inr _ \<Rightarrow> G = F - {cfd})"
  using assms unfolding reply_decoy_def keeps_fds_bind
  by (intro engage_io_keeps) (auto simp: call_simps split: option.splits sum.splits)

lemma handle_tcp_client_io_keeps:
  assumes "tcp_fd \<in> F"
  shows "keeps_fds (handle_tcp_client_io ev tcp_fd t) F (\<lambda>x G. isl x \<or> G = F)"
  using assms
  by (auto simp: handle_tcp_client_io_def Let_def call_simps
      intro!: keeps_fds_mono [OF reply_decoy_keeps] split: sum.splits)

lemma serve_ready_keeps:
  "unix_fd \<in> F \<Longrightarrow> tcp_fd \<in> F \<Longrightarrow>
     keeps_fds (serve_ready ev unix_fd tcp_fd fds t) F (\<lambda>x G. isl x \<or> G = F)"
proof (induction fds arbitrary: t)
  case (Cons fd fds)
  then show ?case
    by (auto simp: call_simps intro!: keeps_fds_mono [OF handle_tcp_client_io_keeps] split: sum.splits)
qed simp

lemma daemon_rounds_keep:
  assumes "{unix_fd, tcp_fd, epoll_fd} \<subseteq> F"
  shows "keeps_fds (io_loop n (daemon_round ev unix_fd tcp_fd epoll_fd) st) F (\<lambda>x G. isl x \<longrightarrow> G = F)"
proof -
  have "keeps_fds (daemon_round ev unix_fd tcp_fd epoll_fd st) F
      (\<lambda>x G. case x of Inl s \<Rightarrow> G = F | Inr a \<Rightarrow> True)" for st
    using assms
    by (auto simp: daemon_round_def call_simps Let_def split_beta intro!: keeps_fds_mono [OF serve_ready_keeps]
        split: sum.splits)
  then have "keeps_fds (io_loop n (daemon_round ev unix_fd tcp_fd epoll_fd) st) F
      (\<lambda>x G. case x of Inl s \<Rightarrow> G = F | Inr a \<Rightarrow> True)"
    using keeps_fds_loop [where I = "\<lambda>s G. G = F" and Q = "\<lambda>a G. True" and F = F and s = st and n = n
        and body = "daemon_round ev unix_fd tcp_fd epoll_fd"] by auto
  then show ?thesis by (rule keeps_fds_mono) (auto split: sum.splits)
qed

text \<open>The daemon between two rounds holds its three descriptors and what it started with; an \<open>Exit\<close> leaves behind
  what the set-up had opened.\<close>

definition daemon_holds :: "int set \<Rightarrow> exit_status \<times> ShadowTable option \<Rightarrow> int set \<Rightarrow> bool" where
  "daemon_holds F x G \<longleftrightarrow>
     (case fst x of
        Running \<Rightarrow> F \<subseteq> G \<and> card (G - F) = 3
      | Exit _ \<Rightarrow> F \<subseteq> G
      | Fault _ \<Rightarrow> True)"

lemma daemon_main_keeps: "keeps_fds (daemon_main n ev) F (daemon_holds F)"
  by (auto simp: daemon_main_def daemon_serve_def init_unix_socket_def init_tcp_socket_def Let_def call_simps daemon_holds_def
      insert_Diff_if intro!: keeps_fds_mono [OF daemon_rounds_keep] split: sum.splits)

lemma run_io_bindE:
  assumes "run_io (io_bind m f) rs = (es, Some (x, rs'))"
  obtains es1 a rs1 es2 where "run_io m rs = (es1, Some (a, rs1))" and "run_io (f a) rs1 = (es2, Some (x, rs'))"
    and "es = es1 @ es2"
  using assms by (auto simp: run_bind split: prod.splits option.splits)

text \<open>Events of the set-up: nothing is sent, received, waited for or accepted.\<close>

definition only_setup :: "event list \<Rightarrow> bool" where
  "only_setup es \<longleftrightarrow> sends es = [] \<and> recvs es = [] \<and> accepts es = [] \<and> list_all (\<lambda>e. \<not> is_wait e) es"

lemma only_setup_append [simp]: "only_setup (es @ es') \<longleftrightarrow> only_setup es \<and> only_setup es'"
  by (auto simp: only_setup_def)

lemma sockets_setup:
  "run_io init_unix_socket rs = (es, Some ((rc, fd), rs')) \<Longrightarrow> only_setup es \<and> clock_answers es = [] \<and> listeners es = [fd]"
  "run_io init_tcp_socket rs = (es, Some ((rc, fd), rs')) \<Longrightarrow> only_setup es \<and> clock_answers es = [] \<and> listeners es = [fd]"
  by (auto simp: only_setup_def init_unix_socket_def init_tcp_socket_def Let_def split: list.splits if_splits prod.splits)

section \<open>Runs of the program as runs of the loop\<close>

text \<open>A run that is still serving is a set-up, and then the rounds.\<close>

lemma daemon_main_serving:
  assumes "run_io (daemon_main n ev) rs = (es, Some ((Running, Some t), rs'))"
  obtains u tc ep now pre es5 last_evict rs3 rs4 where
    "run_io (io_loop n (daemon_round ev u tc ep) (shadow_init, now)) rs3 = (es5, Some (Inl (t, last_evict), rs4))"
    and "es = pre @ es5" and "sends pre = []" and "recvs pre = []"
    and "only_setup pre" and "clock_answers pre = [now]" and "listeners pre = [u, tc]"
proof -
  obtain es1 rc u rs1 es2 where u: "run_io init_unix_socket rs = (es1, Some ((rc, u), rs1))" and es: "es = es1 @ es2"
    and m: "run_io (io_bind init_tcp_socket (\<lambda>(rc, tcp_fd).
       if rc < 0 then Sys (Perror ''[-] TCP socket init failed'') (\<lambda>_. Done (Exit 1, None)) else
       daemon_serve n ev u tcp_fd shadow_init)) rs1 = (es2, Some ((Running, Some t), rs'))"
    using assms unfolding daemon_main_def Let_def
    by (elim run_io_bindE) (auto split: if_splits list.splits prod.splits)
  obtain es3 rc tc rs2 es4 where tcp: "run_io init_tcp_socket rs1 = (es3, Some ((rc, tc), rs2))" "es2 = es3 @ es4"
    and d: "run_io (daemon_serve n ev u tc shadow_init) rs2 = (es4, Some ((Running, Some t), rs'))"
    using m by (elim run_io_bindE) (auto split: if_splits list.splits prod.splits)
  obtain ep now es5 last_evict rs3 rs4 where
    l: "run_io (io_loop n (daemon_round ev u tc ep) (shadow_init, now)) rs3 = (es5, Some (Inl (t, last_evict), rs4))"
    and e: "\<exists>pre. es4 = pre @ es5 \<and> only_setup pre \<and> clock_answers pre = [now] \<and> listeners pre = []"
    using d
    by (auto simp: daemon_serve_def only_setup_def Let_def run_bind split: list.splits if_splits prod.splits option.splits sum.splits)
  then obtain pre where pre: "es4 = pre @ es5" "only_setup pre" "clock_answers pre = [now]" "listeners pre = []" by blast
  note sockets = sockets_setup(1) [OF u] sockets_setup(2) [OF tcp(1)]
  show thesis
  proof (rule that [OF l])
    show "es = (es1 @ es3 @ pre) @ es5" using es tcp(2) pre(1) by simp
    show "only_setup (es1 @ es3 @ pre)" using sockets pre(2) by simp
    then show "sends (es1 @ es3 @ pre) = []" "recvs (es1 @ es3 @ pre) = []" by (simp_all only: only_setup_def)
    show "clock_answers (es1 @ es3 @ pre) = [now]" "listeners (es1 @ es3 @ pre) = [u, tc]" using sockets pre(3,4) by simp_all
  qed
qed

lemma daemon_calls_loop:
  assumes "run_io (daemon_main n ev) rs = (es, Some ((Running, Some t), rs'))" and "allowed_run F es"
  obtains last_evict where "daemon_loop ev (daemon_wakes es) (shadow_init, daemon_start es) = Inr (sends es, t, last_evict)"
    and "length (daemon_wakes es) = n" and "accepts es = reported (listeners es) es"
  using assms(1)
proof (rule daemon_main_serving)
  fix u tc ep now pre es5 last_evict rs3 rs4
  assume l: "run_io (io_loop n (daemon_round ev u tc ep) (shadow_init, now)) rs3 = (es5, Some (Inl (t, last_evict), rs4))"
    and es: "es = pre @ es5" and pre: "only_setup pre" "clock_answers pre = [now]" "listeners pre = [u, tc]"
  have "allowed_run (held_after F pre) es5" using assms(2) es by simp
  note rounds = daemon_rounds_run [OF l this]
  have "daemon_start es = now" using pre(2) by (simp add: es daemon_start_def first_clock_def)
  moreover have "daemon_wakes es = daemon_wakes es5" "sends es = sends es5" "accepts es = accepts es5"
    "reported ls es = reported ls es5" "listeners es = [u, tc]" for ls
    using pre calm_wakes [of pre es5] rounds by (simp_all add: es only_setup_def calm_wakes)
  ultimately show thesis using rounds by (intro that [of last_evict]) simp_all
qed

section \<open>Properties\<close>

text \<open>C32: the daemon's system calls refine its connection model, and every wake-up, client and clock reading of the model is
  one of the run. In a run of \<open>n\<close> rounds that is still serving, whatever the system answered, the connections accepted are
  those \<open>epoll_wait\<close> reported on the two listening sockets, in that order; and the loop of \<open>Deception_Daemon\<close>, started
  at the clock reading of the set-up and given the \<open>n\<close> wake-ups read off the answers (the clock reading after each
  \<open>epoll_wait\<close>; of each client the address from \<open>accept\<close>, the frame and the buffer from \<open>recv\<close> and the readings up to the
  reply), sends exactly what the run has sent and ends in the same table, evictions included.\<close>

theorem daemon_calls_refine_loop:
  assumes "run_io (daemon_main n ev) rs = (es, Some ((Running, Some t), rs'))" and "allowed_run F es"
  shows "(\<exists>last_evict. daemon_loop ev (daemon_wakes es) (shadow_init, daemon_start es) = Inr (sends es, t, last_evict)) \<and>
    length (daemon_wakes es) = n \<and> accepts es = reported (listeners es) es"
  using daemon_calls_loop [OF assms] by blast

text \<open>One client that sends nothing, and three seconds later a round in which it is evicted.\<close>

definition clock_answer :: "u64 \<Rightarrow> sys_reply" where
  "clock_answer seconds = (answer 0)\<lparr>stored := le_bytes 8 seconds @ le_bytes 8 (0 :: u64)\<rparr>"

lemma clock_answer_simps [simp]:
  "clock_ns (clock_answer seconds) = seconds * 1000000000" "ret (clock_answer seconds) = 0"
  "length (stored (clock_answer seconds)) = 16"
  by (simp_all add: clock_answer_def clock_ns_def field_at_def codec byte_len)

definition evicted_client_answers :: "sys_reply list" where
  "evicted_client_answers = map answer [0, 3, 0, 0, 4, 0, 0, 0, 5, 0, 0, 0] @
     [clock_answer 0, (answer 1)\<lparr>ready := [4]\<rparr>, clock_answer 0,
      (answer 6)\<lparr>stored := replicate 16 0\<rparr>, (answer 0)\<lparr>residue := replicate 512 0\<rparr>, clock_answer 0, clock_answer 0, answer 374, answer 0,
      answer 0, clock_answer 3]"

lemma evict_steps:
  "\<not> i < table_count t \<Longrightarrow> evict_loop now i t = t"
  "i < table_count t \<Longrightarrow> shadow_expired now (sh_table t ! i) \<Longrightarrow> evict_loop now i t =
     evict_loop now i (t\<lparr>sh_table := (sh_table t)[i := sh_table t ! (table_count t - 1)], table_count := table_count t - 1\<rparr>)"
  by (subst evict_loop.simps; simp)+

lemma evicted_client_run:
  "\<exists>t. snd (run_io (daemon_main 2 (\<lambda>_ _. Inr GO_OK)) evicted_client_answers) = Some ((Running, Some t), []) \<and> table_count t = 0"
  "allowed_run {0, 1, 2} (fst (run_io (daemon_main 2 (\<lambda>_ _. Inr GO_OK)) evicted_client_answers))"
  "recvs (fst (run_io (daemon_main 2 (\<lambda>_ _. Inr GO_OK)) evicted_client_answers)) = [0]"
  by (simp_all add: evicted_client_answers_def daemon_main_def daemon_serve_def daemon_round_def init_unix_socket_def
      init_tcp_socket_def handle_tcp_client_io_def reply_decoy_def engage_io_def register_io_def feed_io_def
      shadow_lookup_def shadow_init_def shadow_register_def shadow_feed_decoy_def update_entry_def feed_entry_def SHADOW_TABLE_MAX_def sizeof_SignedCommand_def
      EVICT_INTERVAL_NS_def shadow_evict_expired_def evict_steps shadow_expired_def TARPIT_DELAY_NS_def zero_shadow_entry_def
      Let_def split_beta run_io_steps call_simps cong: io_congs del: run_io.simps(2))

theorem daemon_calls_refine_loop_witness:
  "let es = fst (run_io (daemon_main 2 (\<lambda>_ _. Inr GO_OK)) evicted_client_answers)
   in recvs es = [0] \<and> length (daemon_wakes es) = 2 \<and>
     (\<exists>t last_evict. table_count t = 0 \<and>
        daemon_loop (\<lambda>_ _. Inr GO_OK) (daemon_wakes es) (shadow_init, daemon_start es) = Inr (sends es, t, last_evict))"
proof -
  let ?r = "run_io (daemon_main 2 (\<lambda>_ _. Inr GO_OK)) evicted_client_answers"
  obtain es t where es: "?r = (es, Some ((Running, Some t), []))" and t: "table_count t = 0"
    using evicted_client_run(1) by (metis prod.collapse)
  then have "allowed_run {0, 1, 2} es" using evicted_client_run(2) by (metis fst_conv)
  from daemon_calls_refine_loop [OF es this] evicted_client_run(3) t show ?thesis unfolding es by auto
qed

text \<open>C36: the daemon never leaks a connection. In every run each call is made on an open descriptor, and
  between two rounds the process holds its two listening sockets and the epoll instance and nothing else that it opened:
  every accepted connection, on either socket, has been closed.\<close>

theorem daemon_descriptors:
  assumes "run_io (daemon_main n ev) rs = (es, x)" and "allowed_run F es"
  shows "disciplined F es \<and>
    (\<forall>t rs'. x = Some ((Running, t), rs') \<longrightarrow> F \<subseteq> held_after F es \<and> card (held_after F es - F) = 3)"
  using keeps_fds_sound [OF daemon_main_keeps assms] by (auto simp: daemon_holds_def)

theorem daemon_descriptors_witness:
  "card (held_after {0, 1, 2} (fst (run_io (daemon_main 2 (\<lambda>_ _. Inr GO_OK)) evicted_client_answers)) - {0, 1, 2}) = 3"
proof -
  let ?r = "run_io (daemon_main 2 (\<lambda>_ _. Inr GO_OK)) evicted_client_answers"
  obtain es t where es: "?r = (es, Some ((Running, Some t), []))" using evicted_client_run(1) by (metis prod.collapse)
  then have "allowed_run {0, 1, 2} es" using evicted_client_run(2) by (metis fst_conv)
  from daemon_descriptors [OF es this] show ?thesis unfolding es by simp
qed

text \<open>a failed set-up leaves what was opened open. When the TCP port is taken, the daemon returns 1 with both sockets
  still open and the Unix socket's path still in the file system.\<close>

theorem daemon_setup_leaks:
  "held_after {0, 1, 2} (fst (run_io (daemon_main n ev) (map answer [0, 3, 0, 0, 4, 0, -1, 0]))) = {0, 1, 2, 3, 4} \<and>
   snd (run_io (daemon_main n ev) (map answer [0, 3, 0, 0, 4, 0, -1, 0])) = Some ((Exit 1, None), [])"
  by (auto simp: daemon_main_def init_unix_socket_def init_tcp_socket_def Let_def run_io_steps call_simps
        cong: io_congs simp del: run_io.simps(2))

end
