(* ===== verification/Deployment.thy ===== *)
theory Deployment
  imports Executive_Calls Auth_Calls Daemon_Calls
begin

text \<open>
  What the components guarantee when they are put together: the executive as the program of system calls around
  the evaluator of \<open>core.c\<close>, the root \<open>gate0_daemon.c\<close> around the call of the evaluator that it really makes, and the
  client of \<open>src/gate0_client.c\<close> joined to the executive, which listens on the same socket path.
\<close>

section \<open>Events of a run that returns a result of interest\<close>

text \<open>Every run of \<open>m\<close> with a result in \<open>R\<close> consists of events in \<open>P\<close>.\<close>

definition event_safe :: "(event \<Rightarrow> bool) \<Rightarrow> ('a \<Rightarrow> bool) \<Rightarrow> 'a io \<Rightarrow> bool" where
  "event_safe P R m \<longleftrightarrow> (\<forall>rs es a rs'. run_io m rs = (es, Some (a, rs')) \<longrightarrow> R a \<longrightarrow> list_all P es)"

lemma event_safeD: "event_safe P R m \<Longrightarrow> run_io m rs = (es, Some (a, rs')) \<Longrightarrow> R a \<Longrightarrow> list_all P es"
  unfolding event_safe_def by blast

lemma event_safe_Done [simp]: "event_safe P R (Done a)"
  by (simp add: event_safe_def)

lemma event_safe_Sys:
  assumes "\<And>r. event_safe P R (k r)" and "\<And>r rs es a rs'. run_io (k r) rs = (es, Some (a, rs')) \<Longrightarrow> R a \<Longrightarrow> P (c, r)"
  shows "event_safe P R (Sys c k)"
  unfolding event_safe_def
proof (intro allI impI)
  fix rs es a rs'
  assume run: "run_io (Sys c k) rs = (es, Some (a, rs'))" and "R a"
  then obtain r rs1 es1 where "es = (c, r) # es1" "run_io (k r) rs1 = (es1, Some (a, rs'))"
    by (auto split: list.splits prod.splits)
  with assms(2) event_safeD [OF assms(1)] \<open>R a\<close> show "list_all P es" by auto
qed

text \<open>What follows a step may rely on its result \<open>S\<close>, when without it the result is not one of interest.\<close>

lemma event_safe_bind:
  assumes "event_safe P S m" and "\<And>a. S a \<Longrightarrow> event_safe P R (f a)"
    and "\<And>a rs es b rs'. \<not> S a \<Longrightarrow> run_io (f a) rs = (es, Some (b, rs')) \<Longrightarrow> \<not> R b"
  shows "event_safe P R (io_bind m f)"
  using assms unfolding event_safe_def
  by (fastforce elim!: run_io_bindE)

lemma event_safe_loop:
  assumes "\<And>s. event_safe P isl (body s)"
  shows "event_safe P isl (io_loop n body s)"
proof (induction n arbitrary: s)
  case (Suc n)
  show ?case unfolding io_loop.simps
    by (rule event_safe_bind [OF assms]) (auto simp: Suc split: sum.splits)
qed simp

section \<open>The deception daemon with the evaluator it calls\<close>

lemma daemon_evaluate_faults [simp]: "daemon_evaluate sim vf cmd now = Inl NullDeref"
  by (simp add: daemon_evaluate_def evaluate_command_ptr_def)

text \<open>Of a frame that \<open>recv\<close> delivers in full nothing is answered; the others get a decoy.\<close>

definition short_recv :: "event \<Rightarrow> bool" where
  "short_recv e \<longleftrightarrow> (case fst e of Recv _ _ \<Rightarrow> ret (snd e) < int sizeof_SignedCommand | _ \<Rightarrow> True)"

lemma handle_only_decoys:
  assumes "one_attacker t" and "handle_tcp_client (daemon_evaluate sim vf) c t = Inr (out, t')"
  shows "out = replicate 374 0xAA"
  using assms(2) engage_spec [OF assms(1), of ATTACK_MALFORMED c]
  by (auto simp: handle_tcp_client_def Let_def split_beta split: if_splits)

text \<open>The calls that are not \<open>recv\<close>.\<close>

lemma short_Sys [intro!]:
  "(\<And>fd n. c \<noteq> Recv fd n) \<Longrightarrow> (\<And>r. event_safe short_recv R (k r)) \<Longrightarrow> event_safe short_recv R (Sys c k)"
  by (rule event_safe_Sys) (auto simp: short_recv_def split: sys_call.split)

lemma engage_io_short: "event_safe short_recv R (engage_io p addr t)"
  unfolding engage_io_def register_io_def feed_io_def
  by (auto simp: split_beta intro!: event_safe_bind [where S = "\<lambda>_. True"] split: option.split)

lemma reply_decoy_short: "event_safe short_recv R (reply_decoy p addr fallback cfd t)"
  unfolding reply_decoy_def
  by (rule event_safe_bind [where S = "\<lambda>_. True", OF engage_io_short])
    (auto split: option.split sum.split)

lemma handle_short: "event_safe short_recv (\<lambda>x. \<not> isl x) (handle_tcp_client_io (daemon_evaluate sim vf) tcp_fd t)"
  unfolding handle_tcp_client_io_def Let_def
  by (auto simp: short_recv_def reply_decoy_short intro!: event_safe_Sys [of _ _ _ "Recv _ _"] split: list.splits if_splits)

lemma serve_ready_short:
  "event_safe short_recv (\<lambda>x. \<not> isl x) (serve_ready (daemon_evaluate sim vf) unix_fd tcp_fd fds t)"
  by (induction fds arbitrary: t)
    (auto intro!: event_safe_bind [OF handle_short] split: sum.splits)

lemma daemon_round_short:
  "event_safe short_recv isl (daemon_round (daemon_evaluate sim vf) unix_fd tcp_fd epoll_fd st)"
  unfolding daemon_round_def Let_def split_beta
  by (auto intro!: event_safe_bind [OF serve_ready_short] split: sum.splits)

lemma short_recvs: "list_all short_recv es \<longleftrightarrow> (\<forall>n \<in> set (recvs es). n < int sizeof_SignedCommand)"
  by (induction es) (auto simp: short_recv_def split: sys_call.splits)

section \<open>The executive and what it received\<close>

text \<open>The frames of the connections up to the failure of \<open>accept\<close>.\<close>

fun exec_frames :: "connection list \<Rightarrow> bytes list" where
  "exec_frames [] = []"
| "exec_frames (Accept_interrupted # cs) = exec_frames cs"
| "exec_frames (Accept_failed # cs) = []"
| "exec_frames (Client rd stale now # cs) = (case rd of None \<Rightarrow> [] | Some bs \<Rightarrow> if bs = [] then [] else [bs]) @ exec_frames cs"

lemma exec_loop_one_frame:
  "exec_frames cs = [] \<Longrightarrow> exec_loop sim vf cs st = ([], st)"
  "exec_frames cs = [bs] \<Longrightarrow> \<exists>stale now. fst (exec_loop sim vf cs st) = [le_bytes 4 (result_code (fst
     (evaluate_command sim vf (command_of_bytes (exec_buffer bs stale)) (fst st) (snd st) now)))]"
proof -
  show none: "exec_frames cs = [] \<Longrightarrow> exec_loop sim vf cs st = ([], st)" for cs st
    by (induction cs arbitrary: st rule: exec_frames.induct) (auto simp: serve_client_def split: option.splits if_splits)
  show "exec_frames cs = [bs] \<Longrightarrow> \<exists>stale now. fst (exec_loop sim vf cs st) = [le_bytes 4 (result_code (fst
     (evaluate_command sim vf (command_of_bytes (exec_buffer bs stale)) (fst st) (snd st) now)))]"
    by (induction cs arbitrary: st rule: exec_frames.induct)
      (auto simp: serve_client_def none split_beta Let_def split: option.splits if_splits)
qed

lemma exec_round_frames:
  assumes "run_io (exec_round sim vf fd st) rs = (es, Some (x, rs'))" and "reads_ok es"
  shows "exec_frames (exec_connections (es @ es')) =
     receives es @ (case x of Inl _ \<Rightarrow> exec_frames (exec_connections es') | Inr _ \<Rightarrow> [])"
  using assms(1)
proof (cases rule: exec_round_cases)
  case (served a msg p r m q t res w m' q' c s' il')
  then have "stored r \<noteq> []" using assms(2) by (auto simp: reads_ok_def)
  with served show ?thesis by (simp add: exec_connections_rounds)
qed (simp_all add: exec_connections_rounds)

lemma quiet_receives: "quiet_events es \<Longrightarrow> receives es = []"
  by (induction es) (auto simp: quiet_events_def quiet_def split: sys_call.splits)

lemma exec_loop_frames:
  "run_io (io_loop n (exec_round sim vf fd) st) rs = (es, Some (x, rs')) \<Longrightarrow> reads_ok es \<Longrightarrow>
     x = Inr () \<or> es' = [] \<Longrightarrow> exec_frames (exec_connections (es @ es')) = receives es"
proof (induction n arbitrary: st rs es)
  case 0
  then show ?case by (auto simp: exec_connections_rounds(1))
next
  case (Suc n)
  obtain es1 z rs1 es2 where b: "run_io (exec_round sim vf fd st) rs = (es1, Some (z, rs1))"
    and l: "run_io (case z of Inl s \<Rightarrow> io_loop n (exec_round sim vf fd) s | Inr a \<Rightarrow> Done (Inr a)) rs1 = (es2, Some (x, rs'))"
    and es: "es = es1 @ es2"
    using Suc.prems(1) unfolding io_loop.simps by (rule run_io_bindE)
  have ok: "reads_ok es1" "reads_ok es2" using Suc.prems(2) es by (auto simp: reads_ok_def)
  note round = exec_round_frames [OF b ok(1)]
  show ?case
  proof (cases z)
    case (Inl p)
    with Suc.IH [of p rs1 es2, OF _ ok(2) Suc.prems(3)] l round [of "es2 @ es'"] es show ?thesis by simp
  qed (use l es round in auto)
qed

lemma executive_frames:
  assumes "run_io (executive_main n sim vf) rs = (es, Some (status, rs'))" and "allowed_run F es"
  shows "exec_frames (exec_connections (dropWhile (\<lambda>e. \<not> is_accept e) es)) = receives es"
  using assms(1)
proof (cases rule: executive_main_serving)
  case gave_up
  then show ?thesis
    by (subst quiet_no_accept [OF gave_up]) (simp add: exec_connections_rounds(1) quiet_receives)
next
  case (served fd es1 es3 es4 x rs1 rs2)
  have "reads_ok es3" using allowed_reads_ok [OF assms(2)] served(2) by (auto simp: reads_ok_def)
  from exec_loop_frames [OF served(1) this served(5)] served show ?thesis by (simp add: quiet_receives)
qed

text \<open>The frame of \<open>src/gate0_client.c\<close>, read as a command of \<open>gate0.h\<close>: where the executive looks for the
  bootstrap token the client has put the length of its parameters and the first two of them.\<close>

lemma client_frame_token:
  "bootstrap_token (command_of_bytes (exec_buffer (auth_command_bytes (client_command sign sk pk)) stale)) = 0"
  by (simp add: bootstrap_token_def command_of_bytes_def envelope_of_bytes_def exec_buffer_def auth_command_bytes_def
      auth_envelope_bytes_def client_command_def client_envelope_def codec byte_len) (simp add: field_at_def numeral_2_eq_2)

section \<open>Properties\<close>

text \<open>C21: what the deception daemon really is. With the evaluator call it makes, a daemon that is still serving has never
  received one full command, has answered nothing but the one 374-byte decoy, and knows at most one attacker: the
  first full command stops it, and no command is ever judged.\<close>

theorem deployed_daemon_only_decoys:
  assumes "run_io (daemon_main n (daemon_evaluate sim vf)) rs = (es, Some ((Running, Some t), rs'))"
    and "allowed_run F es"
  shows "(\<forall>k \<in> set (recvs es). k < 390) \<and> set (sends es) \<subseteq> {replicate 374 0xAA} \<and> table_count t \<le> 1"
proof -
  obtain ws now last_evict where l: "daemon_loop (daemon_evaluate sim vf) ws (shadow_init, now) = Inr (sends es, t, last_evict)"
    using daemon_calls_loop [OF assms] by blast
  have "one_attacker (fst (t, last_evict)) \<and> set (sends es) \<subseteq> {replicate 374 0xAA}"
    by (rule loop_one_attacker [OF _ _ l]) (auto simp: one_attacker_init dest: handle_only_decoys)
  moreover have "\<forall>k \<in> set (recvs es). k < 390"
    using assms(1)
  proof (rule daemon_main_serving)
    fix u tc ep now' pre es5 last_evict' rs3 rs4
    assume run: "run_io (io_loop n (daemon_round (daemon_evaluate sim vf) u tc ep) (shadow_init, now')) rs3 =
        (es5, Some (Inl (t, last_evict'), rs4))" and es: "es = pre @ es5" "recvs pre = []"
    have "list_all short_recv es5"
      by (rule event_safeD [OF event_safe_loop [OF daemon_round_short] run]) simp
    then show ?thesis using es by (simp add: short_recvs sizeof_SignedCommand_def)
  qed
  ultimately show ?thesis by (simp add: one_attacker_def)
qed

text \<open>One client that sends nothing.\<close>

definition demo_daemon_answers :: "sys_reply list" where
  "demo_daemon_answers = map answer [0, 3, 0, 0, 4, 0, 0, 0, 5, 0, 0, 0] @
     [(answer 0)\<lparr>stored := replicate 16 0\<rparr>, (answer 1)\<lparr>ready := [4]\<rparr>, (answer 0)\<lparr>stored := replicate 16 0\<rparr>,
      (answer 6)\<lparr>stored := replicate 16 0\<rparr>, (answer 0)\<lparr>residue := replicate 512 0\<rparr>, (answer 0)\<lparr>stored := replicate 16 0\<rparr>,
      (answer 0)\<lparr>stored := replicate 16 0\<rparr>, answer 374, answer 0]"

lemma demo_daemon_run:
  "\<exists>t. snd (run_io (daemon_main 1 (daemon_evaluate sim vf)) demo_daemon_answers) = Some ((Running, Some t), [])"
  "allowed_run {0, 1, 2} (fst (run_io (daemon_main 1 (daemon_evaluate sim vf)) demo_daemon_answers))"
  by (simp_all add: demo_daemon_answers_def daemon_main_def daemon_serve_def daemon_round_def init_unix_socket_def
      init_tcp_socket_def handle_tcp_client_io_def reply_decoy_def engage_io_def register_io_def feed_io_def
      shadow_lookup_def shadow_init_def shadow_register_def shadow_feed_decoy_def update_entry_def feed_entry_def SHADOW_TABLE_MAX_def sizeof_SignedCommand_def
      EVICT_INTERVAL_NS_def Let_def split_beta run_io_steps call_simps cong: io_congs del: run_io.simps(2))

theorem deployed_daemon_only_decoys_witness:
  "set (sends (fst (run_io (daemon_main 1 (daemon_evaluate False demo_verify)) demo_daemon_answers)))
     \<subseteq> {replicate 374 0xAA}"
proof -
  let ?r = "run_io (daemon_main 1 (daemon_evaluate False demo_verify)) demo_daemon_answers"
  obtain es t where es: "?r = (es, Some ((Running, Some t), []))" using demo_daemon_run(1) by (metis prod.collapse)
  then have "allowed_run {0, 1, 2} es" using demo_daemon_run(2) by (metis fst_conv)
  from deployed_daemon_only_decoys [OF es this] show ?thesis unfolding es by simp
qed

text \<open>C4: what the executive guarantees to those behind it. In every returning run of the program of system calls, whatever
  the clients send and the system answers, each evaluated frame is answered once, the commands answered with code 0
  carry the sequence numbers 1, 2, 3, ... (modulo \<open>2 ^ 64\<close>), and all of them are signed under one key, the one the
  sender record holds at the end.\<close>

theorem executive_run_guarantee:
  assumes "run_io (executive_main n sim vf) rs = (es, Some (status, rs'))" and "allowed_run F es"
  shows "let cs = exec_connections (dropWhile (\<lambda>e. \<not> is_accept e) es);
       ok = map fst (filter (\<lambda>p. snd p = le_bytes 4 (result_code GO_OK)) (zip (exec_commands cs) (writes es)))
     in length (writes es) = length (exec_commands cs) \<and>
        map core_seqno ok = map (\<lambda>i. of_nat (Suc i)) [0..<length ok] \<and>
        (\<forall>(cmd, now) \<in> set ok.
           vf (signature cmd) (envelope_bytes (envelope cmd)) (public_key (fst (snd (exec_main sim vf cs)))) = 0)"
proof -
  let ?cs = "exec_connections (dropWhile (\<lambda>e. \<not> is_accept e) es)"
  let ?st = "(zero_sender, zero_interlocks)"
  let ?ok = "map fst (filter (\<lambda>p. snd p = le_bytes 4 (result_code GO_OK)) (zip (exec_commands ?cs) (writes es)))"
  let ?run = "gate_run (core_gate sim vf) ?st (exec_commands ?cs)"
  have w: "writes es = fst (exec_main sim vf ?cs)" using assms by (rule executive_calls_refine_loop)
  note refines = exec_loop_refines [of sim vf ?cs ?st, unfolded reply_ok_def, folded exec_main_def, folded w]
  note numbers = exec_answers_consecutive [of sim vf ?cs, unfolded Let_def split_beta, folded w]
  have "\<forall>(cmd, now) \<in> set (snd ?run).
      vf (signature cmd) (envelope_bytes (envelope cmd)) (public_key (fst (fst ?run))) = 0"
    using core_key.accepted_by_final [where sim = sim and vf = vf and s = ?st and cs = "exec_commands ?cs"]
    by (auto simp: signed_by_def)
  then have "\<forall>(cmd, now) \<in> set ?ok.
      vf (signature cmd) (envelope_bytes (envelope cmd)) (public_key (fst (snd (exec_main sim vf ?cs)))) = 0"
    using refines by (simp only: simp_thms)
  with numbers show ?thesis unfolding Let_def by (simp only: simp_thms)
qed

theorem executive_run_guarantee_witness:
  "length (writes (fst (run_io (executive_main 2 False demo_verify) demo_answers))) =
     length (exec_commands (exec_connections (dropWhile (\<lambda>e. \<not> is_accept e)
       (fst (run_io (executive_main 2 False demo_verify) demo_answers)))))"
proof -
  let ?r = "run_io (executive_main 2 False demo_verify) demo_answers"
  have "?r = (fst ?r, Some (Exit 0, []))" using demo_run(1) by (metis prod.collapse)
  from executive_run_guarantee [OF this demo_run(2)] show ?thesis unfolding Let_def by blast
qed

text \<open>C37: the client of \<open>src/gate0_client.c\<close> and the executive listen to different protocols on one socket path. When the
  two run joined by a connection and the client is the first to reach a fresh executive, then whatever key pair
  and signature it uses the executive answers that the sender is not known, and the client prints response code 5.\<close>

theorem client_refused_by_executive:
  assumes "run_io (client_main sodium sign sk pk) rc = (ec, Some (status, rc'))" and "allowed_run F ec"
    and "run_io (executive_main n sim vf) rs = (ee, Some (status', rs'))" and "allowed_run G ee"
    and "joined ec ee" and "writes ec \<noteq> []"
  shows "writes ee = [le_bytes 4 (result_code GO_SENDER_NOT_FOUND)] \<and>
    (\<exists>r. (Print (response_message 5), r) \<in> set ec)"
proof -
  let ?frame = "auth_command_bytes (client_command sign sk pk)"
  let ?cs = "exec_connections (dropWhile (\<lambda>e. \<not> is_accept e) ee)"
  note client = client_run [OF assms(1,2)]
  have "receives ee = [?frame]" using client assms(5,6) by (auto simp: joined_def)
  then have "exec_frames ?cs = [?frame]"
    using executive_frames [OF assms(3,4)] by simp
  from exec_loop_one_frame(2) [OF this] obtain st now where
    "fst (exec_main sim vf ?cs) = [le_bytes 4 (result_code (fst (evaluate_command sim vf
       (command_of_bytes (exec_buffer ?frame st)) zero_sender zero_interlocks now)))]"
    unfolding exec_main_def by (metis fst_conv snd_conv)
  then have "fst (exec_main sim vf ?cs) = [le_bytes 4 (result_code GO_SENDER_NOT_FOUND)]"
    by (simp add: evaluate_command_def client_frame_token zero_sender_def)
  then have answer: "writes ee = [le_bytes 4 (result_code GO_SENDER_NOT_FOUND)]"
    using executive_calls_refine_loop [OF assms(3,4)] by simp
  then have "receives ec = [le_bytes 4 (5 :: u32)]" using assms(5) by (simp add: joined_def)
  moreover have "le_word (le_bytes 4 (5 :: u32)) = (5 :: u32)" by (rule le_word_le_bytes) simp
  ultimately show ?thesis using client assms(6) answer by auto
qed

theorem client_refused_by_executive_witness:
  "\<exists>r. (Print (response_message 5), r) \<in> set (fst (run_io
     (client_main 0 demo_sign (replicate 32 9) (replicate 32 9))
     (map answer [3, 0, 405] @ [delivers (le_bytes 4 (5 :: u32)), answer 0, answer 0])))"
proof -
  let ?k = "replicate 32 (9 :: u8)"
  let ?cmd = "auth_command_bytes (client_command demo_sign ?k ?k)"
  let ?client = "client_main 0 demo_sign ?k ?k"
  let ?rc = "map answer [3, 0, 405] @ [delivers (le_bytes 4 (5 :: u32)), answer 0, answer 0]"
  let ?exec = "executive_main 1 False demo_verify"
  let ?re = "map answer [0, 0, 3, 0, 0, 0, 0, 4, 0] @ [(delivers ?cmd)\<lparr>residue := replicate 512 0\<rparr>, answer 0, (answer 0)\<lparr>stored := replicate 16 0\<rparr>,
    answer 4, answer 0, answer 0]"
  have sig: "\<And>m. demo_verify (demo_sign ?k m) m ?k = 0" "\<And>m. length (demo_sign ?k m) = 64" "length ?k = 32"
    by (simp_all add: demo_verify_def demo_sign_def)
  note frame = client_frame_ok [where vf = demo_verify and sign = demo_sign and sk = ?k and pk = ?k, OF sig]
  have len: "length ?cmd = 405" using frame(1) by (simp add: sizeof_AuthCommand_def)
  have judged: "evaluate_command False demo_verify (command_of_bytes (exec_buffer ?cmd stale)) zero_sender zero_interlocks now =
      (GO_SENDER_NOT_FOUND, zero_sender, zero_interlocks)" for stale now
    by (simp add: evaluate_command_def client_frame_token zero_sender_def)
  note run = run_io_steps Let_def call_simps len delivers_def
  have c: "snd (run_io ?client ?rc) = Some (0, [])" "allowed_run {0, 1, 2} (fst (run_io ?client ?rc))"
    "writes (fst (run_io ?client ?rc)) = [?cmd]" "receives (fst (run_io ?client ?rc)) = [le_bytes 4 (5 :: u32)]"
    by (simp_all add: client_main_def run cong: io_congs del: run_io.simps(2))
  have e: "snd (run_io ?exec ?re) = Some (Running, [])" "allowed_run {0, 1, 2} (fst (run_io ?exec ?re))"
    "receives (fst (run_io ?exec ?re)) = [?cmd]" "writes (fst (run_io ?exec ?re)) = [le_bytes 4 (5 :: u32)]"
    by (simp_all add: exec_main_defs split_beta judged run cong: io_congs del: run_io.simps(2))
  obtain ec where ec: "run_io ?client ?rc = (ec, Some (0, []))" using c(1) by (metis prod.collapse)
  obtain ee where ee: "run_io ?exec ?re = (ee, Some (Running, []))" using e(1) by (metis prod.collapse)
  note c = c [unfolded ec fst_conv] and e = e [unfolded ee fst_conv]
  have "joined ec ee" by (simp only: joined_def c e simp_thms)
  from client_refused_by_executive [OF ec c(2) ee e(2) this] c(3) show ?thesis unfolding ec by simp
qed

end
