(* ===== verification/Ring_Interleaving.thy ===== *)
theory Ring_Interleaving
  imports Ring_Pool
begin

text \<open>
  \<open>src/mesh_sync.c\<close> with its producer and its consumer running at the same time: every load and store
  of \<open>ring_push\<close> and \<open>ring_pop\<close> is a step of its own, the copies of a message go byte by byte, and the
  steps of the two sides interleave in any order (sequential consistency). The history variables \<open>pushed\<close> and
  \<open>popped\<close> record what the calls that returned true were given and gave.
\<close>

section \<open>The two program counters\<close>

datatype producer =
    P_idle
  | P_next bytes u32                 \<comment> \<open>\<open>next_head\<close> is computed; the load of \<open>tail\<close> comes next\<close>
  | P_room bytes u32                 \<comment> \<open>there is room; the load of \<open>head\<close> for the index comes next\<close>
  | P_copy bytes u32 u32 nat         \<comment> \<open>copying; the bytes before the index are in the cell\<close>

datatype consumer =
    C_idle
  | C_tail u32                       \<comment> \<open>\<open>tail\<close> is loaded; the load of \<open>head\<close> comes next\<close>
  | C_some                           \<comment> \<open>there is a message; the load of \<open>tail\<close> for the index comes next\<close>
  | C_copy u32 bytes                 \<comment> \<open>copying; the bytes read so far\<close>
  | C_next bytes u32                 \<comment> \<open>copied and \<open>tail\<close> loaded again; its store comes next\<close>

record ring_sys =
  pool :: "bytes ring_pool"
  producer :: producer
  consumer :: consumer
  pushed :: "bytes list"
  popped :: "bytes list"

definition sizeof_ring_msg :: nat where "sizeof_ring_msg = 264"

inductive ring_step :: "ring_sys \<Rightarrow> ring_sys \<Rightarrow> bool" where
  push_call: "producer s = P_idle \<Longrightarrow> length m = sizeof_ring_msg \<Longrightarrow>
     ring_step s (s\<lparr>producer := P_next m ((rp_head (pool s) + 1) AND 1023)\<rparr>)"
| push_full: "producer s = P_next m nx \<Longrightarrow> nx = rp_tail (pool s) \<Longrightarrow> ring_step s (s\<lparr>producer := P_idle\<rparr>)"
| push_room: "producer s = P_next m nx \<Longrightarrow> nx \<noteq> rp_tail (pool s) \<Longrightarrow> ring_step s (s\<lparr>producer := P_room m nx\<rparr>)"
| push_index: "producer s = P_room m nx \<Longrightarrow> ring_step s (s\<lparr>producer := P_copy m nx (rp_head (pool s)) 0\<rparr>)"
| push_byte: "producer s = P_copy m nx h k \<Longrightarrow> k < sizeof_ring_msg \<Longrightarrow>
     cell = (rp_buffer (pool s) ! unat h)[k := m ! k] \<Longrightarrow>
     ring_step s (s\<lparr>pool := (pool s)\<lparr>rp_buffer := (rp_buffer (pool s))[unat h := cell]\<rparr>,
                    producer := P_copy m nx h (Suc k)\<rparr>)"
| push_publish: "producer s = P_copy m nx h sizeof_ring_msg \<Longrightarrow>
     ring_step s (s\<lparr>pool := (pool s)\<lparr>rp_head := nx\<rparr>, producer := P_idle, pushed := pushed s @ [m]\<rparr>)"
| pop_call: "consumer s = C_idle \<Longrightarrow> ring_step s (s\<lparr>consumer := C_tail (rp_tail (pool s))\<rparr>)"
| pop_empty: "consumer s = C_tail t \<Longrightarrow> t = rp_head (pool s) \<Longrightarrow> ring_step s (s\<lparr>consumer := C_idle\<rparr>)"
| pop_some: "consumer s = C_tail t \<Longrightarrow> t \<noteq> rp_head (pool s) \<Longrightarrow> ring_step s (s\<lparr>consumer := C_some\<rparr>)"
| pop_index: "consumer s = C_some \<Longrightarrow> ring_step s (s\<lparr>consumer := C_copy (rp_tail (pool s)) []\<rparr>)"
| pop_byte: "consumer s = C_copy t acc \<Longrightarrow> length acc < sizeof_ring_msg \<Longrightarrow>
     ring_step s (s\<lparr>consumer := C_copy t (acc @ [rp_buffer (pool s) ! unat t ! length acc])\<rparr>)"
| pop_copied: "consumer s = C_copy t acc \<Longrightarrow> length acc = sizeof_ring_msg \<Longrightarrow>
     ring_step s (s\<lparr>consumer := C_next acc (rp_tail (pool s))\<rparr>)"
| pop_advance: "consumer s = C_next acc t \<Longrightarrow>
     ring_step s (s\<lparr>pool := (pool s)\<lparr>rp_tail := (t + 1) AND 1023\<rparr>, consumer := C_idle, popped := popped s @ [acc]\<rparr>)"

definition ring_start :: "bytes ring_pool \<Rightarrow> ring_sys" where
  "ring_start p = \<lparr>pool = ring_init p, producer = P_idle, consumer = C_idle, pushed = [], popped = []\<rparr>"

section \<open>The invariant\<close>

definition producer_ok :: "ring_sys \<Rightarrow> bool" where
  "producer_ok s \<longleftrightarrow>
     (case producer s of
        P_idle \<Rightarrow> True
      | P_next m nx \<Rightarrow> length m = sizeof_ring_msg \<and> nx = (rp_head (pool s) + 1) AND 1023
      | P_room m nx \<Rightarrow> length m = sizeof_ring_msg \<and> nx = (rp_head (pool s) + 1) AND 1023 \<and> ring_count (pool s) < 1023
      | P_copy m nx h k \<Rightarrow> length m = sizeof_ring_msg \<and> nx = (rp_head (pool s) + 1) AND 1023 \<and> ring_count (pool s) < 1023 \<and>
          h = rp_head (pool s) \<and> k \<le> sizeof_ring_msg \<and> take k (rp_buffer (pool s) ! unat h) = take k m)"

definition consumer_ok :: "ring_sys \<Rightarrow> bool" where
  "consumer_ok s \<longleftrightarrow>
     (case consumer s of
        C_idle \<Rightarrow> True
      | C_tail t \<Rightarrow> t = rp_tail (pool s)
      | C_some \<Rightarrow> 0 < ring_count (pool s)
      | C_copy t acc \<Rightarrow> t = rp_tail (pool s) \<and> 0 < ring_count (pool s) \<and>
          acc = take (length acc) (rp_buffer (pool s) ! unat t)
      | C_next acc t \<Rightarrow> t = rp_tail (pool s) \<and> 0 < ring_count (pool s) \<and> acc = rp_buffer (pool s) ! unat t)"

definition ring_sys_ok :: "ring_sys \<Rightarrow> bool" where
  "ring_sys_ok s \<longleftrightarrow> ring_inv (pool s) \<and> list_all (\<lambda>c. length c = sizeof_ring_msg) (rp_buffer (pool s)) \<and>
     pushed s = popped s @ ring_contents (pool s) \<and> producer_ok s \<and> consumer_ok s"

text \<open>Each half of the invariant looks at its own program counter and at the pool.\<close>

lemma ok_other_side [simp]:
  "consumer_ok (s\<lparr>producer := x\<rparr>) = consumer_ok s"
  "producer_ok (s\<lparr>consumer := y\<rparr>) = producer_ok s"
  by (simp_all add: consumer_ok_def producer_ok_def split: consumer.split producer.split)

text \<open>The three stores, on the pool alone.\<close>

lemma length_ring_contents: "length (ring_contents p) = ring_count p"
  by (simp add: ring_contents_def)

lemma store_in_free_cell:
  assumes "ring_inv p" and "ring_count p < 1024"
    and q_def: "q = p\<lparr>rp_buffer := (rp_buffer p)[unat (rp_head p) := x]\<rparr>"
  shows "ring_inv q" and "ring_count q = ring_count p" and "ring_contents q = ring_contents p"
    and "0 < ring_count p \<Longrightarrow> rp_buffer q ! unat (rp_tail p) = rp_buffer p ! unat (rp_tail p)"
proof -
  show "ring_inv q" "ring_count q = ring_count p"
    using assms(1) by (simp_all add: q_def ring_inv_def ring_count_def)
  then show "ring_contents q = ring_contents p"
    using assms ring_head_eq [OF assms(1)]
    by (simp add: ring_contents_def q_def ring_view_update_outside)
  show "rp_buffer q ! unat (rp_tail p) = rp_buffer p ! unat (rp_tail p)" if "0 < ring_count p"
    using that ring_index_facts(2) [OF assms(1)] by (simp add: q_def)
qed

lemma publish_is_push:
  assumes "ring_inv p" and "ring_count p < 1023" and "rp_buffer p ! unat (rp_head p) = m"
  shows "p\<lparr>rp_head := (rp_head p + 1) AND 1023\<rparr> = snd (ring_push m p)"
proof -
  have "unat ((rp_head p + 1) AND 1023) \<noteq> unat (rp_tail p)"
    using assms(1,2) ring_index_facts(1) [OF assms(1)] unat_masked_next [of "rp_head p"] by (simp add: ring_inv_def)
  then have "(rp_head p + 1) AND 1023 \<noteq> rp_tail p" by auto
  then show ?thesis
    using assms(3) list_update_id [of "rp_buffer p" "unat (rp_head p)"] by (simp add: ring_push_def Let_def)
qed

lemma advance_is_pop:
  assumes "ring_inv p" and "0 < ring_count p"
  shows "p\<lparr>rp_tail := (rp_tail p + 1) AND 1023\<rparr> = snd (ring_pop p)"
    and "fst (ring_pop p) = Some (rp_buffer p ! unat (rp_tail p))"
  using assms(2) ring_index_facts(2) [OF assms(1)] by (auto simp: ring_pop_def)

lemma ring_sys_okD:
  assumes "ring_sys_ok s"
  shows "ring_inv (pool s)" and "list_all (\<lambda>c. length c = sizeof_ring_msg) (rp_buffer (pool s))"
    and "pushed s = popped s @ ring_contents (pool s)" and "producer_ok s" and "consumer_ok s"
    and "unat (rp_head (pool s)) < length (rp_buffer (pool s))" and "unat (rp_tail (pool s)) < length (rp_buffer (pool s))"
    and "length (rp_buffer (pool s) ! unat (rp_head (pool s))) = sizeof_ring_msg"
    and "length (rp_buffer (pool s) ! unat (rp_tail (pool s))) = sizeof_ring_msg"
  using assms by (simp_all add: ring_sys_ok_def ring_inv_def list_all_length)

text \<open>The three steps that store into the pool.\<close>

lemma push_byte_keeps_ok:
  assumes "ring_sys_ok s" and at: "producer s = P_copy m nx h k" "k < sizeof_ring_msg"
    and cell_def: "cell = (rp_buffer (pool s) ! unat h)[k := m ! k]"
  shows "ring_sys_ok (s\<lparr>pool := (pool s)\<lparr>rp_buffer := (rp_buffer (pool s))[unat h := cell]\<rparr>, producer := P_copy m nx h (Suc k)\<rparr>)"
proof -
  note ok = ring_sys_okD [OF assms(1)]
  have h: "h = rp_head (pool s)" "ring_count (pool s) < 1024" and m: "length m = sizeof_ring_msg" "ring_count (pool s) < 1023"
    "nx = (rp_head (pool s) + 1) AND 1023" "take k (rp_buffer (pool s) ! unat h) = take k m"
    using ok(4) at by (auto simp: producer_ok_def)
  let ?q = "(pool s)\<lparr>rp_buffer := (rp_buffer (pool s))[unat (rp_head (pool s)) := cell]\<rparr>"
  let ?s = "s\<lparr>pool := ?q, producer := P_copy m nx h (Suc k)\<rparr>"
  note store = store_in_free_cell [OF ok(1) h(2) refl, of cell]
  have cell: "length cell = sizeof_ring_msg" "take (Suc k) cell = take (Suc k) m"
    using at m ok(8) h(1) by (simp_all add: cell_def take_Suc_conv_app_nth)
  have "producer_ok ?s" using at h m cell ok(6) store(2) by (simp add: producer_ok_def)
  moreover have "consumer_ok ?s"
    using ok(5) h(1) store(2,4) by (auto simp: consumer_ok_def split: consumer.splits)
  moreover have "list_all (\<lambda>c. length c = sizeof_ring_msg) (rp_buffer ?q)"
    using ok(2) cell(1) set_update_subset_insert [of "rp_buffer (pool s)"] by (fastforce simp: list_all_iff)
  ultimately show ?thesis using h(1) store(1,3) ok(3) by (simp add: ring_sys_ok_def)
qed

lemma push_publish_keeps_ok:
  assumes "ring_sys_ok s" and at: "producer s = P_copy m nx h sizeof_ring_msg"
  shows "ring_sys_ok (s\<lparr>pool := (pool s)\<lparr>rp_head := nx\<rparr>, producer := P_idle, pushed := pushed s @ [m]\<rparr>)"
    (is "ring_sys_ok ?s")
proof -
  note ok = ring_sys_okD [OF assms(1)]
  have m: "h = rp_head (pool s)" "ring_count (pool s) < 1023" "nx = (rp_head (pool s) + 1) AND 1023"
    "take sizeof_ring_msg (rp_buffer (pool s) ! unat h) = take sizeof_ring_msg m" "length m = sizeof_ring_msg"
    using ok(4) at by (auto simp: producer_ok_def)
  then have cell: "rp_buffer (pool s) ! unat (rp_head (pool s)) = m" using ok(8) by simp
  note q = publish_is_push [OF ok(1) m(2) cell, folded m(3)]
  have cs: "ring_contents (pool ?s) = ring_contents (pool s) @ [m]"
    using ring_push_contents(3) [OF ok(1), of m] m(2) by (simp add: q length_ring_contents)
  then have "ring_count (pool ?s) = Suc (ring_count (pool s))"
    by (metis length_ring_contents length_append_singleton)
  then have "consumer_ok ?s" using ok(5) by (auto simp: consumer_ok_def split: consumer.splits)
  moreover have "ring_inv (pool ?s)" using ring_push_contents(1) [OF ok(1), of m] by (simp add: q)
  ultimately show ?thesis using ok(2,3) cs by (simp add: ring_sys_ok_def producer_ok_def)
qed

lemma pop_advance_keeps_ok:
  assumes "ring_sys_ok s" and at: "consumer s = C_next acc t"
  shows "ring_sys_ok (s\<lparr>pool := (pool s)\<lparr>rp_tail := (t + 1) AND 1023\<rparr>, consumer := C_idle, popped := popped s @ [acc]\<rparr>)"
    (is "ring_sys_ok ?s")
proof -
  note ok = ring_sys_okD [OF assms(1)]
  have t: "t = rp_tail (pool s)" "0 < ring_count (pool s)" "acc = rp_buffer (pool s) ! unat t"
    using ok(5) at by (simp_all add: consumer_ok_def)
  note q = advance_is_pop [OF ok(1) t(2)]
  have cs: "ring_contents (pool s) = acc # ring_contents (pool ?s)"
    using ring_pop_contents [OF ok(1)] t by (auto simp: q split: list.splits)
  then have "ring_count (pool s) = Suc (ring_count (pool ?s))"
    by (metis length_ring_contents length_Cons)
  then have "producer_ok ?s" using ok(4) by (auto simp: producer_ok_def split: producer.splits)
  moreover have "ring_inv (pool ?s)" using ring_pop_contents [OF ok(1)] t(1) by (simp add: q)
  ultimately show ?thesis using ok(2,3) cs by (simp add: ring_sys_ok_def consumer_ok_def)
qed

text \<open>What the two comparisons of the indices tell.\<close>

lemma ring_compare:
  assumes "ring_inv p"
  shows "(rp_head p + 1) AND 1023 \<noteq> rp_tail p \<Longrightarrow> ring_count p < 1023" and "rp_tail p \<noteq> rp_head p \<Longrightarrow> 0 < ring_count p"
proof -
  note idx = ring_index_facts [OF assms]
  show "ring_count p < 1023" if "(rp_head p + 1) AND 1023 \<noteq> rp_tail p"
    using that idx(1,3) unat_masked_next [of "rp_head p"] assms by (auto simp: ring_inv_def word_unat_eq_iff)
  show "0 < ring_count p" if "rp_tail p \<noteq> rp_head p"
    using that idx(2) by (auto simp: word_unat_eq_iff)
qed

text \<open>The other steps move one program counter.\<close>

lemma producer_moves_ok:
  "ring_sys_ok s \<Longrightarrow> producer_ok (s\<lparr>producer := x\<rparr>) \<Longrightarrow> ring_sys_ok (s\<lparr>producer := x\<rparr>)"
  "ring_sys_ok s \<Longrightarrow> consumer_ok (s\<lparr>consumer := y\<rparr>) \<Longrightarrow> ring_sys_ok (s\<lparr>consumer := y\<rparr>)"
  by (simp_all add: ring_sys_ok_def)

lemma ring_step_keeps_ok:
  assumes "ring_step s s'" and "ring_sys_ok s"
  shows "ring_sys_ok s'"
proof -
  note ok = ring_sys_okD [OF assms(2)] and compare = ring_compare [OF ring_sys_okD(1) [OF assms(2)]]
  note moves = producer_moves_ok [OF assms(2)]
  show ?thesis
    using assms(1)
  proof cases
    case (push_byte m nx h k cell)
    with assms(2) show ?thesis by (simp add: push_byte_keeps_ok)
  next
    case (push_publish m nx h)
    with assms(2) show ?thesis by (simp add: push_publish_keeps_ok)
  next
    case (pop_advance acc t)
    with assms(2) show ?thesis by (simp add: pop_advance_keeps_ok)
  next
    case (pop_byte t acc)
    then show ?thesis using ok(5,9) by (auto intro!: moves simp: consumer_ok_def take_Suc_conv_app_nth)
  qed (use ok(4,5,8,9) compare in \<open>auto intro!: moves simp: producer_ok_def consumer_ok_def\<close>)
qed

lemma ring_reachable_ok: "ring_step\<^sup>*\<^sup>* s s' \<Longrightarrow> ring_sys_ok s \<Longrightarrow> ring_sys_ok s'"
  by (induction rule: rtranclp_induct) (auto intro: ring_step_keeps_ok)

lemma ring_start_ok:
  assumes "length (rp_buffer p) = 1024" and "list_all (\<lambda>c. length c = sizeof_ring_msg) (rp_buffer p)"
  shows "ring_sys_ok (ring_start p)"
  using assms by (simp add: ring_sys_ok_def ring_start_def ring_init_def ring_inv_def ring_contents_def ring_count_def
      ring_view_def producer_ok_def consumer_ok_def)

section \<open>Executing a schedule\<close>

text \<open>The steps are deterministic once the side that moves is known, so a schedule is a list of sides; the
  producer is given the message to push next.\<close>

datatype side = Produce bytes | Consume

fun ring_move :: "side \<Rightarrow> ring_sys \<Rightarrow> ring_sys" where
  "ring_move (Produce msg) s =
     (case producer s of
        P_idle \<Rightarrow> s\<lparr>producer := P_next msg ((rp_head (pool s) + 1) AND 1023)\<rparr>
      | P_next m nx \<Rightarrow> s\<lparr>producer := (if nx = rp_tail (pool s) then P_idle else P_room m nx)\<rparr>
      | P_room m nx \<Rightarrow> s\<lparr>producer := P_copy m nx (rp_head (pool s)) 0\<rparr>
      | P_copy m nx h k \<Rightarrow>
          if k < sizeof_ring_msg then
            s\<lparr>pool := (pool s)\<lparr>rp_buffer := (rp_buffer (pool s))[unat h := (rp_buffer (pool s) ! unat h)[k := m ! k]]\<rparr>,
              producer := P_copy m nx h (Suc k)\<rparr>
          else s\<lparr>pool := (pool s)\<lparr>rp_head := nx\<rparr>, producer := P_idle, pushed := pushed s @ [m]\<rparr>)"
| "ring_move Consume s =
     (case consumer s of
        C_idle \<Rightarrow> s\<lparr>consumer := C_tail (rp_tail (pool s))\<rparr>
      | C_tail t \<Rightarrow> s\<lparr>consumer := (if t = rp_head (pool s) then C_idle else C_some)\<rparr>
      | C_some \<Rightarrow> s\<lparr>consumer := C_copy (rp_tail (pool s)) []\<rparr>
      | C_copy t acc \<Rightarrow>
          if length acc < sizeof_ring_msg then s\<lparr>consumer := C_copy t (acc @ [rp_buffer (pool s) ! unat t ! length acc])\<rparr>
          else s\<lparr>consumer := C_next acc (rp_tail (pool s))\<rparr>
      | C_next acc t \<Rightarrow>
          s\<lparr>pool := (pool s)\<lparr>rp_tail := (t + 1) AND 1023\<rparr>, consumer := C_idle, popped := popped s @ [acc]\<rparr>)"

lemma ring_move_steps:
  assumes "ring_sys_ok s" and "\<And>m. a = Produce m \<Longrightarrow> length m = sizeof_ring_msg"
  shows "ring_step s (ring_move a s)"
proof (cases a)
  case (Produce m)
  then have len: "length m = sizeof_ring_msg" by (rule assms(2))
  show ?thesis
  proof (cases "producer s")
    case (P_copy m' nx h k)
    then have "k < sizeof_ring_msg \<or> k = sizeof_ring_msg"
      using assms(1) by (auto simp: ring_sys_ok_def producer_ok_def)
    with P_copy Produce show ?thesis by (auto intro: ring_step.intros)
  qed (use Produce len in \<open>auto intro: ring_step.intros\<close>)
next
  case Consume
  show ?thesis
  proof (cases "consumer s")
    case (C_copy t acc)
    then have "t = rp_tail (pool s)" "acc = take (length acc) (rp_buffer (pool s) ! unat t)"
      using assms(1) by (auto simp: ring_sys_ok_def consumer_ok_def)
    moreover from this have "length (rp_buffer (pool s) ! unat t) = sizeof_ring_msg"
      using assms(1) by (simp add: ring_sys_ok_def ring_inv_def list_all_length)
    ultimately have "length acc \<le> sizeof_ring_msg" by (metis length_take min.cobounded1)
    with C_copy Consume show ?thesis by (cases "length acc = sizeof_ring_msg") (auto intro: ring_step.intros)
  qed (use Consume in \<open>auto intro: ring_step.intros\<close>)
qed

section \<open>Properties\<close>

text \<open>C34: the ring is a FIFO queue under every interleaving. However the single accesses of one producer and one
  consumer are interleaved, the messages handed out so far followed by those waiting in the ring are exactly
  the messages whose push has returned true, in order and intact, and never more than 1023 of them wait.\<close>

theorem ring_concurrent_fifo:
  assumes "ring_step\<^sup>*\<^sup>* (ring_start p) s"
    and "length (rp_buffer p) = 1024" and "list_all (\<lambda>c. length c = sizeof_ring_msg) (rp_buffer p)"
  shows "pushed s = popped s @ ring_contents (pool s) \<and> length (pushed s) \<le> length (popped s) + 1023"
proof -
  have "ring_sys_ok s" by (rule ring_reachable_ok [OF assms(1) ring_start_ok [OF assms(2,3)]])
  then show ?thesis
    using ring_index_facts(3) [of "pool s"] by (auto simp: ring_sys_ok_def length_ring_contents)
qed

theorem ring_concurrent_fifo_witness:
  "let p = \<lparr>rp_head = 0, rp_tail = 0, rp_buffer = replicate 1024 (replicate 264 (0 :: u8))\<rparr>;
       s = ring_move Consume (ring_move (Produce (replicate 264 1)) (ring_start p))
   in pushed s = popped s @ ring_contents (pool s)"
proof -
  let ?p = "\<lparr>rp_head = 0, rp_tail = 0, rp_buffer = replicate 1024 (replicate 264 (0 :: u8))\<rparr>"
  have cells: "length (rp_buffer ?p) = 1024" "list_all (\<lambda>c. length c = sizeof_ring_msg) (rp_buffer ?p)"
    by (simp_all add: list_all_iff sizeof_ring_msg_def)
  note ok = ring_start_ok [OF cells]
  have 1: "ring_step (ring_start ?p) (ring_move (Produce (replicate 264 1)) (ring_start ?p))"
    by (rule ring_move_steps [OF ok]) (auto simp: sizeof_ring_msg_def)
  have 2: "ring_step (ring_move (Produce (replicate 264 1)) (ring_start ?p))
      (ring_move Consume (ring_move (Produce (replicate 264 1)) (ring_start ?p)))"
    by (rule ring_move_steps [OF ring_step_keeps_ok [OF 1 ok]]) simp
  have "ring_step\<^sup>*\<^sup>* (ring_start ?p) (ring_move Consume (ring_move (Produce (replicate 264 1)) (ring_start ?p)))"
    by (rule converse_rtranclp_into_rtranclp [where r = ring_step, OF 1], rule r_into_rtranclp, rule 2)
  from ring_concurrent_fifo [OF this cells]
  show ?thesis unfolding Let_def by (rule conjunct1)
qed

text \<open>The proof rests on the order of the producer's last two stores, which \<open>volatile\<close> does not fix for the plain
  accesses to \<open>buffer\<close>: the same push with the store of \<open>head\<close> moved before the copy.\<close>

definition reordered_publish :: "ring_sys \<Rightarrow> ring_sys" where
  "reordered_publish s =
     (case producer s of
        P_copy m nx h k \<Rightarrow> if k = 0 then s\<lparr>pool := (pool s)\<lparr>rp_head := nx\<rparr>\<rparr> else s
      | _ \<Rightarrow> s)"

lemma consume_copies:
  assumes "length (rp_buffer (pool s) ! unat t) = sizeof_ring_msg"
  shows "k \<le> sizeof_ring_msg \<Longrightarrow> consumer s = C_copy t [] \<Longrightarrow>
    (ring_move Consume ^^ k) s = s\<lparr>consumer := C_copy t (take k (rp_buffer (pool s) ! unat t))\<rparr>"
proof (induction k)
  case 0
  then show ?case by simp
next
  case (Suc k)
  then show ?case using assms by (simp add: take_Suc_conv_app_nth)
qed

text \<open>With the two stores exchanged the consumer gets a message nobody pushed: the old content of the cell.\<close>

theorem reordered_publish_leaks_stale:
  assumes "length (rp_buffer p) = 1024" and "length (rp_buffer p ! 0) = sizeof_ring_msg"
  shows "let s = reordered_publish ((ring_move (Produce m) ^^ 3) (ring_start p));
             s' = (ring_move Consume ^^ 2) ((ring_move Consume ^^ sizeof_ring_msg) ((ring_move Consume ^^ 3) s))
         in pushed s' = [] \<and> popped s' = [rp_buffer p ! 0]"
proof -
  have next1: "(1 :: u32) AND 1023 = 1" by simp
  let ?s = "reordered_publish ((ring_move (Produce m) ^^ 3) (ring_start p))"
  let ?s3 = "(ring_move Consume ^^ 3) ?s"
  have s: "consumer ?s3 = C_copy 0 []" "pushed ?s3 = []" "popped ?s3 = []" "rp_buffer (pool ?s3) = rp_buffer p"
    by (simp_all add: numeral_3_eq_3 ring_start_def ring_init_def reordered_publish_def next1)
  have "(ring_move Consume ^^ sizeof_ring_msg) ?s3 = ?s3\<lparr>consumer := C_copy 0 (rp_buffer p ! 0)\<rparr>"
    using consume_copies [of ?s3 0 sizeof_ring_msg] s assms(2) by simp
  then show ?thesis
    using s(2,3) assms(2) by (simp add: numeral_2_eq_2 Let_def)
qed

theorem reordered_publish_leaks_stale_witness:
  "let s = reordered_publish ((ring_move (Produce (replicate 264 1)) ^^ 3)
             (ring_start \<lparr>rp_head = 0, rp_tail = 0, rp_buffer = replicate 1024 (replicate 264 0)\<rparr>));
       s' = (ring_move Consume ^^ 2) ((ring_move Consume ^^ sizeof_ring_msg) ((ring_move Consume ^^ 3) s))
   in pushed s' = [] \<and> popped s' = [replicate 264 0]"
  using reordered_publish_leaks_stale [of "\<lparr>rp_head = 0, rp_tail = 0, rp_buffer = replicate 1024 (replicate 264 0)\<rparr>"
      "replicate 264 1"]
  by (simp add: sizeof_ring_msg_def)

end
