(* ===== verification/Mtk_Hazards.thy ===== *)
theory Mtk_Hazards
  imports Mtk
begin

text \<open>
  \<open>mtk.c\<close> with readers on other threads: one thread rotates the key, its loop over the hazard slots taken load by
  load, while any thread may call \<open>mtk_hazard_acquire\<close> or \<open>mtk_hazard_release\<close> between two of its steps (sequential
  consistency). The readers are the environment; no file of the repository contains one.
\<close>

section \<open>The steps\<close>

text \<open>Where the rotating thread is: outside \<open>mtk_rotate\<close>, or about to load hazard slot \<open>s\<close>.\<close>

datatype rotor = Outside | Scanning nat

record mtk_sys =
  mtk :: MTKState
  rotor :: rotor

definition begin_rotation :: "u64 \<Rightarrow> MTKState \<Rightarrow> MTKState" where
  "begin_rotation now m = m\<lparr>mtk_counter := mtk_counter m + 1, mtk_access_attempts := mtk_access_attempts m + 1,
     mtk_last_rotation_ns := now\<rparr>"

definition store_key :: "hash_fun \<Rightarrow> MTKState \<Rightarrow> MTKState" where
  "store_key H m = m\<lparr>mtk_current_key := mtk_derive H m\<rparr>"

inductive rotor_step :: "hash_fun \<Rightarrow> mtk_sys \<Rightarrow> mtk_sys \<Rightarrow> bool" for H where
  rotate: "rotor s = Outside \<Longrightarrow> rotor_step H s \<lparr>mtk = begin_rotation now (mtk s), rotor = Scanning 0\<rparr>"
| spin: "rotor s = Scanning i \<Longrightarrow> i < MTK_MAX_READERS \<Longrightarrow> mtk_hazard (mtk s) ! i \<noteq> 0 \<Longrightarrow> rotor_step H s s"
| clear: "rotor s = Scanning i \<Longrightarrow> i < MTK_MAX_READERS \<Longrightarrow> mtk_hazard (mtk s) ! i = 0 \<Longrightarrow>
     rotor_step H s (s\<lparr>rotor := Scanning (Suc i)\<rparr>)"
| derive: "rotor s = Scanning MTK_MAX_READERS \<Longrightarrow> rotor_step H s \<lparr>mtk = store_key H (mtk s), rotor = Outside\<rparr>"

inductive reader_step :: "mtk_sys \<Rightarrow> mtk_sys \<Rightarrow> bool" where
  acquire: "slot < MTK_MAX_READERS \<Longrightarrow> reader_step s (s\<lparr>mtk := mtk_hazard_acquire slot ptr (mtk s)\<rparr>)"
| release: "slot < MTK_MAX_READERS \<Longrightarrow> reader_step s (s\<lparr>mtk := mtk_hazard_release slot (mtk s)\<rparr>)"

definition hazard_step :: "hash_fun \<Rightarrow> mtk_sys \<Rightarrow> mtk_sys \<Rightarrow> bool" where
  "hazard_step H s s' \<longleftrightarrow> rotor_step H s s' \<or> reader_step s s'"

text \<open>The steps during which a slot stays taken.\<close>

definition holds :: "nat \<Rightarrow> mtk_sys \<Rightarrow> bool" where
  "holds slot s \<longleftrightarrow> slot < MTK_MAX_READERS \<and> mtk_hazard (mtk s) ! slot \<noteq> 0"

definition held_step :: "hash_fun \<Rightarrow> nat \<Rightarrow> mtk_sys \<Rightarrow> mtk_sys \<Rightarrow> bool" where
  "held_step H slot s s' \<longleftrightarrow> holds slot s \<and> hazard_step H s s' \<and> holds slot s'"

inductive_cases reader_stepE: "reader_step s s'"

section \<open>What a taken slot guards\<close>

text \<open>The rotating thread has not passed the slot.\<close>

definition before_slot :: "nat \<Rightarrow> rotor \<Rightarrow> bool" where
  "before_slot slot r \<longleftrightarrow> (case r of Outside \<Rightarrow> True | Scanning i \<Rightarrow> i \<le> slot)"

lemma reader_step_frame:
  "reader_step s s' \<Longrightarrow> rotor s' = rotor s \<and> mtk_current_key (mtk s') = mtk_current_key (mtk s)"
  by (erule reader_stepE) (simp_all add: mtk_hazard_acquire_def mtk_hazard_release_def)

lemma held_step_guards:
  assumes "held_step H slot s s'" and "before_slot slot (rotor s)"
  shows "before_slot slot (rotor s') \<and> mtk_current_key (mtk s') = mtk_current_key (mtk s)"
proof (cases "reader_step s s'")
  case True
  with assms(2) show ?thesis by (simp add: reader_step_frame)
next
  case False
  with assms have step: "rotor_step H s s'" and h: "holds slot s"
    by (auto simp: held_step_def hazard_step_def)
  from step show ?thesis
  proof (cases rule: rotor_step.cases)
    case (clear i)
    have "i \<noteq> slot" using clear h by (auto simp: holds_def)
    with clear assms(2) show ?thesis by (simp add: before_slot_def)
  next
    case derive
    with h assms(2) show ?thesis by (simp add: before_slot_def holds_def)
  qed (use assms(2) in \<open>simp_all add: before_slot_def begin_rotation_def\<close>)
qed

section \<open>The rotating thread alone\<close>

text \<open>Its next step, when no reader moves.\<close>

fun rotor_next :: "hash_fun \<Rightarrow> mtk_sys \<Rightarrow> mtk_sys" where
  "rotor_next H s =
     (case rotor s of
        Outside \<Rightarrow> s
      | Scanning i \<Rightarrow>
          if i < MTK_MAX_READERS then
            (if mtk_hazard (mtk s) ! i = 0 then s\<lparr>rotor := Scanning (Suc i)\<rparr> else s)
          else \<lparr>mtk = store_key H (mtk s), rotor = Outside\<rparr>)"

lemma rotor_next_step:
  "rotor s = Scanning i \<Longrightarrow> i \<le> MTK_MAX_READERS \<Longrightarrow> rotor_step H s (rotor_next H s)"
  by (cases "i = MTK_MAX_READERS") (auto intro: rotor_step.intros)

lemma rotor_scans:
  assumes "rotor s = Scanning i"
  shows "i + n \<le> MTK_MAX_READERS \<Longrightarrow> \<forall>j. i \<le> j \<and> j < i + n \<longrightarrow> mtk_hazard (mtk s) ! j = 0 \<Longrightarrow>
    (rotor_next H ^^ n) s = s\<lparr>rotor := Scanning (i + n)\<rparr>"
proof (induction n)
  case 0
  then show ?case using assms by (cases s) simp
qed simp

lemma rotor_stuck:
  "rotor s = Scanning i \<Longrightarrow> i < MTK_MAX_READERS \<Longrightarrow> mtk_hazard (mtk s) ! i \<noteq> 0 \<Longrightarrow> (rotor_next H ^^ n) s = s"
  by (induction n) simp_all

text \<open>The first taken slot, if there is one.\<close>

lemma hazards_first:
  assumes "length (mtk_hazard m) = 8"
  obtains (all_clear) "hazards_clear m" "\<forall>i < MTK_MAX_READERS. mtk_hazard m ! i = 0"
  | (taken) k where "\<not> hazards_clear m" "k < MTK_MAX_READERS" "mtk_hazard m ! k \<noteq> 0" "\<forall>i < k. mtk_hazard m ! i = 0"
proof (cases "hazards_clear m")
  case True
  then show ?thesis using all_clear assms by (simp add: hazards_clear_def MTK_MAX_READERS_def list_all_length)
next
  case False
  then have "\<exists>k. k < 8 \<and> mtk_hazard m ! k \<noteq> 0" using assms by (auto simp: hazards_clear_def list_all_length)
  then obtain k where k: "k < 8 \<and> mtk_hazard m ! k \<noteq> 0" "\<forall>i < k. \<not> (i < 8 \<and> mtk_hazard m ! i \<noteq> 0)"
    by (subst (asm) exists_least_iff) blast
  then have "\<forall>i < k. mtk_hazard m ! i = 0" by auto
  with k(1) show ?thesis using taken [OF False, of k] by (simp add: MTK_MAX_READERS_def)
qed

section \<open>Properties\<close>

text \<open>C28: a slot guards the key from the moment it is taken, if that is before it has been scanned. As long as a slot stays
  taken that the rotating thread has not passed yet, whatever all threads do, that thread never gets past it and
  the key is not written.\<close>

theorem mtk_slot_guards:
  assumes "(held_step H slot)\<^sup>*\<^sup>* s s'" and "before_slot slot (rotor s)"
  shows "before_slot slot (rotor s') \<and> mtk_current_key (mtk s') = mtk_current_key (mtk s)"
  using assms by (induction rule: rtranclp_induct) (auto dest: held_step_guards)

text \<open>A state to start from: no slot taken.\<close>

definition demo_mtk :: MTKState where
  "demo_mtk = \<lparr>mtk_seed = replicate 32 1, mtk_current_key = [], mtk_counter = 0, mtk_last_rotation_ns = 0,
     mtk_access_attempts = 0, mtk_legitimate_accesses = 0, mtk_hazard = [0, 0, 0, 0, 0, 0, 0, 0]\<rparr>"

theorem mtk_slot_guards_witness:
  "let s = \<lparr>mtk = mtk_hazard_acquire 2 7 demo_mtk, rotor = Scanning 1\<rparr>; s' = s\<lparr>rotor := Scanning 2\<rparr>
   in mtk_current_key (mtk s') = mtk_current_key (mtk s) \<and> before_slot 2 (rotor s')"
proof -
  let ?s = "\<lparr>mtk = mtk_hazard_acquire 2 7 demo_mtk, rotor = Scanning 1\<rparr>"
  have hz: "mtk_hazard (mtk_hazard_acquire 2 7 demo_mtk) = [0, 0, 7, 0, 0, 0, 0, 0]"
    by (simp add: mtk_hazard_acquire_def demo_mtk_def eval_nat_numeral)
  have two: "Suc 1 = 2" by simp
  have "rotor_step demo_hash ?s (?s\<lparr>rotor := Scanning 2\<rparr>)"
    using rotor_step.clear [of ?s 1 demo_hash, unfolded two] by (simp add: hz MTK_MAX_READERS_def)
  then have "held_step demo_hash 2 ?s (?s\<lparr>rotor := Scanning 2\<rparr>)"
    using hz by (simp add: held_step_def hazard_step_def holds_def MTK_MAX_READERS_def)
  then have "(held_step demo_hash 2)\<^sup>*\<^sup>* ?s (?s\<lparr>rotor := Scanning 2\<rparr>)" by (rule r_into_rtranclp)
  from mtk_slot_guards [OF this] show ?thesis by (simp add: before_slot_def)
qed

lemma held_scan:
  assumes "holds slot s" and "rotor s = Scanning i" and "slot < i"
  shows "i + n \<le> MTK_MAX_READERS \<Longrightarrow> \<forall>j. i \<le> j \<and> j < i + n \<longrightarrow> mtk_hazard (mtk s) ! j = 0 \<Longrightarrow>
    (held_step H slot)\<^sup>*\<^sup>* s (s\<lparr>rotor := Scanning (i + n)\<rparr>)"
proof (induction n)
  case 0
  then show ?case using assms by (cases s) simp
next
  case (Suc n)
  let ?s = "s\<lparr>rotor := Scanning (i + n)\<rparr>"
  have "rotor_step H ?s (?s\<lparr>rotor := Scanning (Suc (i + n))\<rparr>)" by (rule rotor_step.clear) (use Suc.prems in auto)
  then have "held_step H slot ?s (s\<lparr>rotor := Scanning (i + Suc n)\<rparr>)"
    using assms(1) by (simp add: held_step_def hazard_step_def holds_def)
  with Suc show ?case by (simp add: rtranclp.rtrancl_into_rtrancl)
qed

text \<open>a slot taken later guards nothing. When the scan has passed a slot and finds the rest clear, a reader
  that takes that slot in the meantime holds it in vain: the key is replaced while it is held.\<close>

theorem mtk_late_slot_ignored:
  assumes "rotor s = Scanning i" and "slot < i" and "i \<le> MTK_MAX_READERS" and "(ptr :: u64) \<noteq> 0"
    and "length (mtk_hazard (mtk s)) = MTK_MAX_READERS" and "\<forall>j. i \<le> j \<and> j < MTK_MAX_READERS \<longrightarrow> mtk_hazard (mtk s) ! j = 0"
  shows "\<exists>s1 s2. reader_step s s1 \<and> (held_step H slot)\<^sup>*\<^sup>* s1 s2 \<and> rotor s2 = Outside \<and>
    mtk_current_key (mtk s2) = mtk_derive H (mtk s)"
proof -
  let ?s1 = "s\<lparr>mtk := mtk_hazard_acquire slot ptr (mtk s)\<rparr>"
  let ?s2 = "?s1\<lparr>rotor := Scanning MTK_MAX_READERS\<rparr>"
  let ?s3 = "\<lparr>mtk = store_key H (mtk ?s2), rotor = Outside\<rparr>"
  have h: "holds slot ?s1" using assms(2-5) by (simp add: holds_def mtk_hazard_acquire_def)
  have "(held_step H slot)\<^sup>*\<^sup>* ?s1 ?s2"
    using held_scan [OF h _ assms(2), where n = "MTK_MAX_READERS - i" and H = H] assms by (simp add: mtk_hazard_acquire_def)
  moreover have "rotor_step H ?s2 ?s3" by (rule rotor_step.derive) simp
  then have "held_step H slot ?s2 ?s3"
    using h by (simp add: held_step_def hazard_step_def holds_def store_key_def)
  ultimately have "(held_step H slot)\<^sup>*\<^sup>* ?s1 ?s3" by (rule rtranclp.rtrancl_into_rtrancl)
  moreover have "reader_step s ?s1" using assms(2,3) by (intro reader_step.acquire) simp
  moreover have "mtk_derive H (mtk_hazard_acquire slot ptr (mtk s)) = mtk_derive H (mtk s)"
    by (simp add: mtk_derive_def mtk_hazard_acquire_def)
  ultimately show ?thesis by (intro exI [of _ ?s1] exI [of _ ?s3]) (simp add: store_key_def)
qed

lemma demo_mtk_free: "length (mtk_hazard demo_mtk) = 8" "j < 8 \<Longrightarrow> mtk_hazard demo_mtk ! j = 0"
proof -
  have "mtk_hazard demo_mtk = replicate 8 0" by (simp add: demo_mtk_def eval_nat_numeral)
  then show "length (mtk_hazard demo_mtk) = 8" "j < 8 \<Longrightarrow> mtk_hazard demo_mtk ! j = 0" by simp_all
qed

theorem mtk_late_slot_ignored_witness:
  "\<exists>s1 s2. reader_step \<lparr>mtk = demo_mtk, rotor = Scanning 1\<rparr> s1 \<and> (held_step demo_hash 0)\<^sup>*\<^sup>* s1 s2 \<and> rotor s2 = Outside \<and>
     mtk_current_key (mtk s2) = mtk_derive demo_hash demo_mtk"
  using mtk_late_slot_ignored [of "\<lparr>mtk = demo_mtk, rotor = Scanning 1\<rparr>" 1 0 7 demo_hash] demo_mtk_free
  by (simp add: MTK_MAX_READERS_def)

text \<open>without readers the thread's steps are \<open>mtk_rotate\<close>. When every slot is clear, nine steps of the rotating
  thread give the state that \<open>mtk_rotate\<close> returns; when one is taken it never leaves the loop, where \<open>mtk_rotate\<close>
  does not return.\<close>

theorem mtk_rotor_refines_rotate:
  assumes "length (mtk_hazard m) = MTK_MAX_READERS"
  shows "case mtk_rotate H now m of
      Some m' \<Rightarrow> (rotor_next H ^^ 9) \<lparr>mtk = begin_rotation now m, rotor = Scanning 0\<rparr> = \<lparr>mtk = m', rotor = Outside\<rparr>
    | None \<Rightarrow> rotor ((rotor_next H ^^ n) \<lparr>mtk = begin_rotation now m, rotor = Scanning 0\<rparr>) \<noteq> Outside"
proof -
  let ?m = "begin_rotation now m"
  let ?s = "\<lparr>mtk = ?m, rotor = Scanning 0\<rparr>"
  have hz: "mtk_hazard ?m = mtk_hazard m" "length (mtk_hazard ?m) = 8"
    using assms by (simp_all add: begin_rotation_def MTK_MAX_READERS_def)
  from hz(2) show ?thesis
  proof (cases rule: hazards_first)
    case all_clear
    have "(rotor_next H ^^ 8) ?s = ?s\<lparr>rotor := Scanning 8\<rparr>"
      using rotor_scans [of ?s 0 8 H] all_clear(2) by (simp add: MTK_MAX_READERS_def)
    then have "(rotor_next H ^^ Suc 8) ?s = \<lparr>mtk = store_key H ?m, rotor = Outside\<rparr>"
      unfolding funpow.simps(2) comp_apply by (simp add: MTK_MAX_READERS_def)
    then have "(rotor_next H ^^ 9) ?s = \<lparr>mtk = store_key H ?m, rotor = Outside\<rparr>"
      using Suc_numeral [of "Num.Bit0 (Num.Bit0 (Num.Bit0 Num.One))"] by (simp only: arith_simps)
    with all_clear(1) show ?thesis
      by (simp add: mtk_rotate_def Let_def store_key_def begin_rotation_def hazards_clear_def)
  next
    case (taken k)
    have at: "(rotor_next H ^^ j) ?s = ?s\<lparr>rotor := Scanning j\<rparr>" if "j \<le> k" for j
      using rotor_scans [of ?s 0 j H] taken(2,4) that by simp
    have "rotor ((rotor_next H ^^ n) ?s) = Scanning (min n k)"
    proof (cases "n \<le> k")
      case False
      have "(rotor_next H ^^ (n - k + k)) ?s = (rotor_next H ^^ (n - k)) (?s\<lparr>rotor := Scanning k\<rparr>)"
        unfolding funpow_add comp_def at [OF order_refl] by simp
      also have "\<dots> = ?s\<lparr>rotor := Scanning k\<rparr>" by (rule rotor_stuck) (use taken in simp_all)
      finally show ?thesis using False by simp
    qed (simp add: at)
    with taken(1) show ?thesis
      by (simp add: mtk_rotate_def Let_def begin_rotation_def hazards_clear_def)
  qed
qed

theorem mtk_rotor_refines_rotate_witness:
  "case mtk_rotate demo_hash 5 demo_mtk of
      Some m' \<Rightarrow> (rotor_next demo_hash ^^ 9) \<lparr>mtk = begin_rotation 5 demo_mtk, rotor = Scanning 0\<rparr> = \<lparr>mtk = m', rotor = Outside\<rparr>
    | None \<Rightarrow> rotor ((rotor_next demo_hash ^^ 0) \<lparr>mtk = begin_rotation 5 demo_mtk, rotor = Scanning 0\<rparr>) \<noteq> Outside"
  by (rule mtk_rotor_refines_rotate) (simp add: demo_mtk_free MTK_MAX_READERS_def)

end
