(* ===== verification/Tarpit.thy ===== *)
theory Tarpit
  imports Posix "HOL-Library.Log_Nat"
begin

text \<open>
  \<open>tarpit_sim.c\<close>, \<open>tarpit_sim.h\<close>: the simulated process that a tarpitted attacker sees. Its
  single-precision values are modelled as they are, multiples of \<open>2 ^ (-149)\<close> with every operation rounded to 24
  significant bits, half to even, and no contraction of a product and a sum (ISO mode); none of them comes near the
  overflow threshold, so infinities are left out. \<open>printf\<close> rounds the exact binary value in the same way.
\<close>

section \<open>binary32\<close>

text \<open>A value is the integer of its multiples of \<open>2 ^ (-149)\<close>. \<open>rne m k\<close> is \<open>m / 2 ^ k\<close> rounded to the
  nearest integer, ties to even; \<open>fl m s\<close> is \<open>m / 2 ^ s\<close> rounded to a binary32 value.\<close>

type_synonym f32 = int

definition rne :: "int \<Rightarrow> nat \<Rightarrow> int" where
  "rne m k =
     (let q = m div 2 ^ k; r = m mod 2 ^ k in
      if 2 * r < 2 ^ k then q else if 2 * r > 2 ^ k then q + 1 else if even q then q else q + 1)"

definition fl :: "int \<Rightarrow> nat \<Rightarrow> f32" where
  "fl m s = (let k = max s (floorlog 2 (nat \<bar>m\<bar>) - 24) in rne m k * 2 ^ (k - s))"

definition f32_of_nat :: "nat \<Rightarrow> f32" where "f32_of_nat n = int n * 2 ^ 149"
definition f32_mul :: "f32 \<Rightarrow> f32 \<Rightarrow> f32" where "f32_mul x y = fl (x * y) 149"
definition f32_add :: "f32 \<Rightarrow> f32 \<Rightarrow> f32" where "f32_add x y = fl (x + y) 0"
definition f32_sub :: "f32 \<Rightarrow> f32 \<Rightarrow> f32" where "f32_sub x y = fl (x - y) 0"

text \<open>The literals of the source, by significand and exponent.\<close>

definition f32_lit :: "int \<Rightarrow> nat \<Rightarrow> f32" where "f32_lit m e = m * 2 ^ (149 - e)"

definition lit_14_7 :: f32 where "lit_14_7 = f32_lit 15414067 20"
definition lit_120 :: f32 where "lit_120 = f32_lit 15728640 17"
definition lit_0_72 :: f32 where "lit_0_72 = f32_lit 12079596 24"
definition lit_0_03 :: f32 where "lit_0_03 = f32_lit 16106127 29"
definition lit_0_1 :: f32 where "lit_0_1 = f32_lit 13421773 27"
definition lit_0_70 :: f32 where "lit_0_70 = f32_lit 11744051 24"
definition lit_0_005 :: f32 where "lit_0_005 = f32_lit 10737418 31"

lemmas literals = lit_14_7_def lit_120_def lit_0_72_def lit_0_03_def lit_0_1_def lit_0_70_def lit_0_005_def f32_lit_def

text \<open>Each is the float nearest to what the source says: \<open>2 * |d * m - n * 2 ^ e| \<le> d\<close> for \<open>n / d\<close>.\<close>

lemma literals_nearest:
  "2 * \<bar>10 * 15414067 - 147 * 2 ^ 20\<bar> \<le> (10 :: int)" "15728640 = (120 :: int) * 2 ^ 17"
  "2 * \<bar>100 * 12079596 - 72 * 2 ^ 24\<bar> \<le> (100 :: int)" "2 * \<bar>100 * 16106127 - 3 * 2 ^ 29\<bar> \<le> (100 :: int)"
  "2 * \<bar>10 * 13421773 - 1 * 2 ^ 27\<bar> \<le> (10 :: int)" "2 * \<bar>100 * 11744051 - 70 * 2 ^ 24\<bar> \<le> (100 :: int)"
  "2 * \<bar>1000 * 10737418 - 5 * 2 ^ 31\<bar> \<le> (1000 :: int)"
  by simp_all

section \<open>Printing\<close>

text \<open>\<open>%.df\<close>, \<open>%u\<close> and \<open>snprintf\<close> into a buffer: at most \<open>size - 1\<close> characters and the terminator.\<close>

definition format_fixed :: "nat \<Rightarrow> f32 \<Rightarrow> string" where
  "format_fixed d x =
     (let q = nat (rne (\<bar>x\<bar> * 10 ^ d) 149) in
      (if x < 0 then ''-'' else '''') @ decimal (q div 10 ^ d) @ ''.'' @ tl (decimal (10 ^ d + q mod 10 ^ d)))"

definition snprintf_into :: "bytes \<Rightarrow> nat \<Rightarrow> string \<Rightarrow> bytes" where
  "snprintf_into buf cap text =
     (let out = chars_bytes (take (cap - 1) text) @ [0] in out @ drop (length out) buf)"

section \<open>The sessions\<close>

datatype SimState = SIM_IDLE | SIM_RUNNING | SIM_STALLED

record TarpitSession =
  fingerprint :: bytes
  sim_state :: SimState
  tick :: u32
  pressure :: f32
  flow_rate :: f32
  valve_pos :: f32
  last_update_ns :: u64

record TarpitTable =
  sessions :: "TarpitSession list"
  session_count :: u32

definition TARPIT_MAX_SESSIONS :: nat where "TARPIT_MAX_SESSIONS = 64"
definition TARPIT_RESPONSE_LEN :: nat where "TARPIT_RESPONSE_LEN = 128"

definition zero_session :: TarpitSession where
  "zero_session = \<lparr>fingerprint = replicate 32 0, sim_state = SIM_IDLE, tick = 0, pressure = 0, flow_rate = 0,
     valve_pos = 0, last_update_ns = 0\<rparr>"

definition tarpit_init :: TarpitTable where
  "tarpit_init = \<lparr>sessions = replicate 64 zero_session, session_count = 0\<rparr>"

definition find_session :: "TarpitTable \<Rightarrow> bytes \<Rightarrow> nat option" where
  "find_session t fp = find_index (\<lambda>s. fingerprint s = fp) (take (unat (session_count t)) (sessions t))"

definition tarpit_engage :: "bytes \<Rightarrow> u64 \<Rightarrow> TarpitTable \<Rightarrow> int \<times> TarpitTable" where
  "tarpit_engage fp now t =
     (if find_session t fp \<noteq> None then (0, t)
      else if unat (session_count t) \<ge> TARPIT_MAX_SESSIONS then (-1, t)
      else let i = unat (session_count t);
               s = (sessions t ! i)\<lparr>fingerprint := fp, sim_state := SIM_RUNNING, tick := 0, pressure := lit_14_7,
                     flow_rate := lit_120, valve_pos := lit_0_72, last_update_ns := now\<rparr>
           in (0, t\<lparr>sessions := (sessions t)[i := s], session_count := session_count t + 1\<rparr>))"

definition tick_session :: "TarpitSession \<Rightarrow> TarpitSession" where
  "tick_session s =
     (if sim_state s \<noteq> SIM_RUNNING then s
      else let n = tick s + 1 in
        s\<lparr>tick := n,
          pressure := f32_add (pressure s) (f32_mul (f32_of_nat (unat (n mod 7))) lit_0_03),
          flow_rate := f32_sub (flow_rate s) (f32_mul (f32_of_nat (unat (n mod 5))) lit_0_1),
          valve_pos := f32_add lit_0_70 (f32_mul (f32_of_nat (unat (n mod 11))) lit_0_005),
          sim_state := (if n > 500 then SIM_STALLED else SIM_RUNNING)\<rparr>)"

definition tarpit_tick_all :: "TarpitTable \<Rightarrow> TarpitTable" where
  "tarpit_tick_all t =
     (let n = unat (session_count t) in
      t\<lparr>sessions := map tick_session (take n (sessions t)) @ drop n (sessions t)\<rparr>)"

definition response_text :: "TarpitSession \<Rightarrow> string" where
  "response_text s =
     ''{'' @ [CHR 0x22] @ ''p'' @ [CHR 0x22] @ '':'' @ format_fixed 2 (pressure s) @
     '','' @ [CHR 0x22] @ ''f'' @ [CHR 0x22] @ '':'' @ format_fixed 2 (flow_rate s) @
     '','' @ [CHR 0x22] @ ''v'' @ [CHR 0x22] @ '':'' @ format_fixed 3 (valve_pos s) @
     '','' @ [CHR 0x22] @ ''t'' @ [CHR 0x22] @ '':'' @ decimal (unat (tick s)) @ ''}''"

definition tarpit_response :: "TarpitTable \<Rightarrow> bytes \<Rightarrow> bytes \<Rightarrow> (bytes \<times> u32) option" where
  "tarpit_response t fp buf =
     (case find_session t fp of
        None \<Rightarrow> None
      | Some i \<Rightarrow>
          let text = response_text (sessions t ! i)
          in Some (snprintf_into buf TARPIT_RESPONSE_LEN text, of_nat (length text)))"

section \<open>Rounding stays within representable bounds\<close>

lemma rne_le: "m \<le> q * 2 ^ k \<Longrightarrow> rne m k \<le> q"
proof -
  assume m: "m \<le> q * 2 ^ k"
  have "m div 2 ^ k \<le> q" using zdiv_mono1 [OF m, of "2 ^ k"] by simp
  moreover have "m mod 2 ^ k = 0" if "m div 2 ^ k = q"
  proof -
    have "0 \<le> m mod 2 ^ k" by simp
    moreover have "m - q * 2 ^ k = m mod 2 ^ k" using that minus_div_mult_eq_mod [of m "2 ^ k"] by simp
    ultimately show ?thesis using m by linarith
  qed
  ultimately show "rne m k \<le> q" by (cases "m div 2 ^ k = q") (auto simp: rne_def Let_def)
qed

lemma rne_ge: "q * 2 ^ k \<le> m \<Longrightarrow> q \<le> rne m k"
proof -
  assume "q * 2 ^ k \<le> m"
  then have "q \<le> m div 2 ^ k" using zdiv_mono1 [of "q * 2 ^ k" m "2 ^ k"] by simp
  then show "q \<le> rne m k" by (auto simp: rne_def Let_def)
qed

definition representable :: "f32 \<Rightarrow> bool" where
  "representable b \<longleftrightarrow> (\<exists>c e. b = c * 2 ^ e \<and> \<bar>c\<bar> \<le> 2 ^ 24)"

lemma representableI: "b = c * 2 ^ e \<Longrightarrow> \<bar>c\<bar> \<le> 2 ^ 24 \<Longrightarrow> representable b"
  unfolding representable_def by blast

lemma floorlog_abs: "24 < floorlog 2 (nat \<bar>m\<bar>) \<Longrightarrow> 2 ^ (floorlog 2 (nat \<bar>m\<bar>) - 1) \<le> \<bar>m\<bar>"
proof -
  assume "24 < floorlog 2 (nat \<bar>m\<bar>)"
  then have "0 < nat \<bar>m\<bar>" by (auto simp: floorlog_def split: if_splits)
  from floorlog_bounds [OF this, of 2] have "2 ^ (floorlog 2 (nat \<bar>m\<bar>) - 1) \<le> nat \<bar>m\<bar>" by simp
  then show ?thesis by (simp add: nat_le_eq_zle le_nat_iff)
qed

text \<open>The grid of \<open>fl\<close>: either it contains the bound, or the exact value is at least as far from zero.\<close>

lemma fl_grid:
  assumes "representable b"
  obtains k where "fl m s = rne m k * 2 ^ (k - s)" and "s \<le> k"
    and "2 ^ (k - s) dvd b \<or> (\<bar>b\<bar> \<le> 2 ^ 23 * 2 ^ (k - s) \<and> 2 ^ 23 * 2 ^ k \<le> \<bar>m\<bar>)"
proof -
  let ?k = "max s (floorlog 2 (nat \<bar>m\<bar>) - 24)"
  obtain c e where b: "b = c * 2 ^ e" "\<bar>c\<bar> \<le> 2 ^ 24" using assms by (auto simp: representable_def)
  have "2 ^ (?k - s) dvd b \<or> (\<bar>b\<bar> \<le> 2 ^ 23 * 2 ^ (?k - s) \<and> 2 ^ 23 * 2 ^ ?k \<le> \<bar>m\<bar>)"
  proof (cases "?k - s \<le> e")
    case True
    then have "(2 :: int) ^ (?k - s) dvd 2 ^ e" by (rule le_imp_power_dvd)
    then show ?thesis unfolding b(1) by (intro disjI1 dvd_mult)
  next
    case False
    then have e: "Suc e \<le> ?k - s" and k: "?k = floorlog 2 (nat \<bar>m\<bar>) - 24" "24 < floorlog 2 (nat \<bar>m\<bar>)" by auto
    have "\<bar>b\<bar> = \<bar>c\<bar> * 2 ^ e" by (simp add: b(1) abs_mult)
    also have "\<dots> \<le> 2 ^ 24 * 2 ^ e" using b(2) by (intro mult_right_mono) simp_all
    also have "\<dots> = 2 ^ 23 * 2 ^ Suc e" by simp
    also have "\<dots> \<le> 2 ^ 23 * 2 ^ (?k - s)" using e by (intro mult_left_mono power_increasing) simp_all
    finally have bb: "\<bar>b\<bar> \<le> 2 ^ 23 * 2 ^ (?k - s)" .
    have "floorlog 2 (nat \<bar>m\<bar>) - 1 = 23 + ?k" using k by simp
    then have "(2 :: int) ^ 23 * 2 ^ ?k = 2 ^ (floorlog 2 (nat \<bar>m\<bar>) - 1)" by (simp only: power_add)
    also have "\<dots> \<le> \<bar>m\<bar>" by (rule floorlog_abs [OF k(2)])
    finally show ?thesis using bb by blast
  qed
  then show thesis by (intro that [of ?k]) (simp_all add: fl_def Let_def)
qed

lemma grid_mult: "s \<le> k \<Longrightarrow> x * 2 ^ (k - s) * 2 ^ s = x * (2 :: int) ^ k"
  by (simp add: mult.assoc flip: power_add)

lemma fl_le:
  assumes b: "representable b" and m: "m \<le> b * 2 ^ s"
  shows "fl m s \<le> b"
proof -
  obtain k where fl: "fl m s = rne m k * 2 ^ (k - s)" and k: "s \<le> k"
    and grid: "2 ^ (k - s) dvd b \<or> (\<bar>b\<bar> \<le> 2 ^ 23 * 2 ^ (k - s) \<and> 2 ^ 23 * 2 ^ k \<le> \<bar>m\<bar>)"
    using fl_grid [OF b] by metis
  have on_grid: ?thesis if "m \<le> q * 2 ^ k" "q * 2 ^ (k - s) \<le> b" for q
  proof -
    have "rne m k * 2 ^ (k - s) \<le> q * 2 ^ (k - s)" by (intro mult_right_mono rne_le that(1)) simp
    with that(2) fl show ?thesis by linarith
  qed
  from grid show ?thesis
  proof
    assume "2 ^ (k - s) dvd b"
    then obtain q where "b = q * 2 ^ (k - s)" by (auto simp: dvd_def mult.commute)
    with m k show ?thesis by (intro on_grid [of q]) (simp_all add: grid_mult)
  next
    assume far: "\<bar>b\<bar> \<le> 2 ^ 23 * 2 ^ (k - s) \<and> 2 ^ 23 * 2 ^ k \<le> \<bar>m\<bar>"
    show ?thesis
    proof (cases "0 \<le> m")
      case True
      have "b \<le> 2 ^ 23 * 2 ^ (k - s)" using far by linarith
      then have "b * 2 ^ s \<le> 2 ^ 23 * 2 ^ (k - s) * 2 ^ s" by (intro mult_right_mono) simp_all
      then have "b * 2 ^ s = 2 ^ 23 * 2 ^ (k - s) * 2 ^ s"
        using far m True by (intro antisym) (simp_all only: grid_mult [OF k] abs_of_nonneg, linarith)
      then have "b = 2 ^ 23 * 2 ^ (k - s)" by simp
      with m k show ?thesis by (intro on_grid [of "2 ^ 23"]) (simp_all add: grid_mult)
    next
      case False
      then show ?thesis using far by (intro on_grid [of "- (2 ^ 23)"]) auto
    qed
  qed
qed

lemma rne_neg: "rne (- m) k = - rne m k"
proof -
  let ?p = "2 ^ k :: int"
  show ?thesis
  proof (cases "m mod ?p = 0")
    case True
    then show ?thesis by (simp add: rne_def Let_def zdiv_zminus1_eq_if zmod_zminus1_eq_if)
  next
    case False
    then have "(- m) div ?p = - (m div ?p) - 1" "(- m) mod ?p = ?p - m mod ?p"
      by (simp_all add: zdiv_zminus1_eq_if zmod_zminus1_eq_if)
    then show ?thesis by (auto simp: rne_def Let_def)
  qed
qed

lemma fl_neg: "fl (- m) s = - fl m s"
  by (simp add: fl_def rne_neg Let_def)

lemma representable_neg: "representable b \<Longrightarrow> representable (- b)"
  unfolding representable_def by (metis abs_minus_cancel mult_minus_left)

lemma fl_ge:
  assumes "representable b" and "b * 2 ^ s \<le> m"
  shows "b \<le> fl m s"
  using fl_le [OF representable_neg [OF assms(1)], of "- m" s] assms(2) by (simp add: fl_neg)

lemma f32_add_bounds:
  "representable b \<Longrightarrow> b \<le> x + y \<Longrightarrow> b \<le> f32_add x y"
  "representable b \<Longrightarrow> x + y \<le> b \<Longrightarrow> f32_add x y \<le> b"
  "representable b \<Longrightarrow> b \<le> x - y \<Longrightarrow> b \<le> f32_sub x y"
  "representable b \<Longrightarrow> x - y \<le> b \<Longrightarrow> f32_sub x y \<le> b"
  by (simp_all add: f32_add_def f32_sub_def fl_ge fl_le)

section \<open>A running session\<close>

text \<open>The products \<open>(float)(tick % n) * x\<close>, within a quarter, a half and a quarter.\<close>

lemma increment_bounds:
  assumes "0 \<le> x" and "representable b" and "k \<le> n" and "int n * x \<le> b"
  shows "0 \<le> f32_mul (f32_of_nat k) x \<and> f32_mul (f32_of_nat k) x \<le> b"
proof
  have "representable 0" by (rule representableI [of _ 0 0]) simp_all
  then show "0 \<le> f32_mul (f32_of_nat k) x"
    unfolding f32_mul_def using assms(1) by (intro fl_ge) (simp_all add: f32_of_nat_def)
  have "int k * x \<le> b" using assms(1,3,4) by (meson mult_right_mono of_nat_le_iff order_trans)
  then have "int k * x * 2 ^ 149 \<le> b * 2 ^ 149" by (intro mult_right_mono) simp_all
  then show "f32_mul (f32_of_nat k) x \<le> b"
    unfolding f32_mul_def using assms(2) by (intro fl_le) (simp_all add: f32_of_nat_def mult.commute mult.left_commute)
qed

lemma unat_mod_small: "unat ((t :: u32) mod 7) \<le> 6" "unat ((t :: u32) mod 5) \<le> 4" "unat ((t :: u32) mod 11) \<le> 10"
  by (simp_all add: unat_mod less_Suc_eq_le [symmetric])

lemma tick_increments:
  "0 \<le> f32_mul (f32_of_nat (unat ((t :: u32) mod 7))) lit_0_03 \<and>
     f32_mul (f32_of_nat (unat ((t :: u32) mod 7))) lit_0_03 \<le> 2 ^ 147"
  "0 \<le> f32_mul (f32_of_nat (unat ((t :: u32) mod 5))) lit_0_1 \<and>
     f32_mul (f32_of_nat (unat ((t :: u32) mod 5))) lit_0_1 \<le> 2 ^ 148"
  "0 \<le> f32_mul (f32_of_nat (unat ((t :: u32) mod 11))) lit_0_005 \<and>
     f32_mul (f32_of_nat (unat ((t :: u32) mod 11))) lit_0_005 \<le> 2 ^ 147"
proof -
  have r: "representable (2 ^ 147)" "representable (2 ^ 148)"
    by (rule representableI [of _ 1 147] representableI [of _ 1 148]; simp)+
  show "0 \<le> f32_mul (f32_of_nat (unat (t mod 7))) lit_0_03 \<and>
      f32_mul (f32_of_nat (unat (t mod 7))) lit_0_03 \<le> 2 ^ 147"
    by (rule increment_bounds [OF _ r(1) unat_mod_small(1)]) (simp_all add: literals)
  show "0 \<le> f32_mul (f32_of_nat (unat (t mod 5))) lit_0_1 \<and>
      f32_mul (f32_of_nat (unat (t mod 5))) lit_0_1 \<le> 2 ^ 148"
    by (rule increment_bounds [OF _ r(2) unat_mod_small(2)]) (simp_all add: literals)
  show "0 \<le> f32_mul (f32_of_nat (unat (t mod 11))) lit_0_005 \<and>
      f32_mul (f32_of_nat (unat (t mod 11))) lit_0_005 \<le> 2 ^ 147"
    by (rule increment_bounds [OF _ r(1) unat_mod_small(3)]) (simp_all add: literals)
qed

text \<open>After \<open>n\<close> ticks the pressure is between 14 and \<open>15 + n / 4\<close>, the flow between \<open>120 - n / 2\<close> and 120,
  the valve between a half and one.\<close>

definition session_ok :: "TarpitSession \<Rightarrow> bool" where
  "session_ok s \<longleftrightarrow>
     (let n = int (unat (tick s)) in
      unat (tick s) \<le> 501 \<and> (sim_state s = SIM_RUNNING \<longrightarrow> unat (tick s) \<le> 500) \<and>
      14 * 2 ^ 149 \<le> pressure s \<and> pressure s \<le> (60 + n) * 2 ^ 147 \<and>
      (240 - n) * 2 ^ 148 \<le> flow_rate s \<and> flow_rate s \<le> 120 * 2 ^ 149 \<and>
      2 ^ 148 \<le> valve_pos s \<and> valve_pos s \<le> 2 ^ 149)"

lemma session_ok_tick:
  assumes "session_ok s"
  shows "session_ok (tick_session s)"
proof (cases "sim_state s = SIM_RUNNING")
  case False
  then show ?thesis using assms by (simp add: tick_session_def)
next
  case True
  let ?n = "tick s + 1" and ?k = "int (unat (tick s))"
  let ?p = "f32_mul (f32_of_nat (unat (?n mod 7))) lit_0_03"
  let ?f = "f32_mul (f32_of_nat (unat (?n mod 5))) lit_0_1"
  let ?v = "f32_mul (f32_of_nat (unat (?n mod 11))) lit_0_005"
  have old: "unat (tick s) \<le> 500" "14 * 2 ^ 149 \<le> pressure s" "pressure s \<le> (60 + ?k) * 2 ^ 147"
    "(240 - ?k) * 2 ^ 148 \<le> flow_rate s" "flow_rate s \<le> 120 * 2 ^ 149"
    using assms True by (simp_all add: session_ok_def Let_def)
  have n: "unat ?n = Suc (unat (tick s))"
    using old(1) by (intro unat_Suc_word) (auto simp: unsigned_minus_1_eq_mask mask_eq_exp_minus_1)
  have k: "0 \<le> ?k" "?k \<le> 500" using old(1) by linarith+
  have e: "(61 + ?k) * 2 ^ 147 = (60 + ?k) * 2 ^ 147 + 2 ^ 147" "(239 - ?k) * 2 ^ 148 = (240 - ?k) * 2 ^ 148 - 2 ^ 148"
    by (simp_all add: algebra_simps)
  have rep: "representable (c * 2 ^ e)" if "- 1000 \<le> c" "c \<le> 1000" for c e
    by (rule representableI [OF refl]) (use that in \<open>simp add: abs_le_iff\<close>)
  have rep1: "representable (2 ^ e)" for e
    by (rule representableI [of _ 1 e]) simp_all
  note p = tick_increments(1) [of ?n] and f = tick_increments(2) [of ?n] and v = tick_increments(3) [of ?n]
  have "14 * 2 ^ 149 \<le> f32_add (pressure s) ?p"
    by (rule f32_add_bounds(1) [OF rep]) (use old p in linarith)+
  moreover have "f32_add (pressure s) ?p \<le> (61 + ?k) * 2 ^ 147"
    by (rule f32_add_bounds(2) [OF rep]) (use old p k e in linarith)+
  moreover have "(239 - ?k) * 2 ^ 148 \<le> f32_sub (flow_rate s) ?f"
    by (rule f32_add_bounds(3) [OF rep]) (use old f k e in linarith)+
  moreover have "f32_sub (flow_rate s) ?f \<le> 120 * 2 ^ 149"
    by (rule f32_add_bounds(4) [OF rep]) (use old f in linarith)+
  moreover have "2 ^ 148 \<le> f32_add lit_0_70 ?v"
    by (rule f32_add_bounds(1) [OF rep1]) (use v in \<open>simp add: literals\<close>)
  moreover have "f32_add lit_0_70 ?v \<le> 2 ^ 149"
    by (rule f32_add_bounds(2) [OF rep1]) (use v in \<open>simp add: literals\<close>)
  moreover have "?n > 500 \<longleftrightarrow> 500 < Suc (unat (tick s))"
    using n by (simp add: word_less_nat_alt)
  ultimately show ?thesis
    using True old(1) n by (auto simp: tick_session_def session_ok_def Let_def)
qed

section \<open>How long a response is\<close>

lemma length_format_fixed:
  assumes "\<bar>x\<bar> \<le> 1000 * 2 ^ 149" and "0 < d"
  shows "length (format_fixed d x) \<le> 6 + d"
proof -
  let ?q = "nat (rne (\<bar>x\<bar> * 10 ^ d) 149)"
  have "\<bar>x\<bar> * 10 ^ d \<le> 1000 * 2 ^ 149 * 10 ^ d" using assms(1) by (intro mult_right_mono) simp_all
  then have "rne (\<bar>x\<bar> * 10 ^ d) 149 \<le> 1000 * 10 ^ d" by (intro rne_le) (simp add: algebra_simps)
  then have "int ?q \<le> int (1000 * 10 ^ d)" by simp
  then have "?q \<le> 1000 * 10 ^ d" by (simp only: of_nat_le_iff)
  then have "?q div 10 ^ d \<le> 1000" using div_le_mono [of ?q "1000 * 10 ^ d" "10 ^ d"] by simp
  then have "length (decimal (?q div 10 ^ d)) \<le> 4" by (intro length_decimal) simp_all
  moreover have "length (decimal (10 ^ d + ?q mod 10 ^ d)) \<le> Suc d"
  proof (rule length_decimal)
    have "?q mod 10 ^ d < 10 ^ d" by simp
    then show "10 ^ d + ?q mod 10 ^ d < 10 ^ Suc d" unfolding power_Suc by linarith
  qed simp
  ultimately show ?thesis by (auto simp: format_fixed_def Let_def)
qed

lemma length_response_text:
  assumes "session_ok s"
  shows "length (response_text s) \<le> 56"
proof -
  have "unat (tick s) \<le> 501" using assms by (simp add: session_ok_def Let_def)
  then have n: "0 \<le> int (unat (tick s))" "int (unat (tick s)) \<le> 501" and t: "unat (tick s) < 1000" by linarith+
  have "(60 + int (unat (tick s))) * 2 ^ 147 \<le> 1000 * 2 ^ 147" using n(2) by (intro mult_right_mono) simp_all
  moreover have "- 500 * 2 ^ 148 \<le> (240 - int (unat (tick s))) * (2 :: int) ^ 148" using n(2) by (intro mult_right_mono) simp_all
  moreover have p: "14 * 2 ^ 149 \<le> pressure s" "pressure s \<le> (60 + int (unat (tick s))) * 2 ^ 147"
    "(240 - int (unat (tick s))) * 2 ^ 148 \<le> flow_rate s" "flow_rate s \<le> 120 * 2 ^ 149"
    "2 ^ 148 \<le> valve_pos s" "valve_pos s \<le> 2 ^ 149"
    using assms by (simp_all only: session_ok_def Let_def)
  moreover have "(2 :: int) ^ 149 = 4 * 2 ^ 147" "(2 :: int) ^ 149 = 2 * 2 ^ 148" "(0 :: int) < 2 ^ 147" by simp_all
  ultimately have "\<bar>pressure s\<bar> \<le> 1000 * 2 ^ 149" "\<bar>flow_rate s\<bar> \<le> 1000 * 2 ^ 149" "\<bar>valve_pos s\<bar> \<le> 1000 * 2 ^ 149"
    by linarith+
  from this [THEN length_format_fixed, of 2] this [THEN length_format_fixed, of 3]
  have "length (format_fixed 2 (pressure s)) \<le> 8" "length (format_fixed 2 (flow_rate s)) \<le> 8"
    "length (format_fixed 3 (valve_pos s)) \<le> 9" by simp_all
  moreover have "length (decimal (unat (tick s))) \<le> 3" using length_decimal [of "unat (tick s)" 3] t by simp
  ultimately show ?thesis by (simp add: response_text_def)
qed

section \<open>The table\<close>

definition live_sessions :: "TarpitTable \<Rightarrow> TarpitSession list" where
  "live_sessions t = take (unat (session_count t)) (sessions t)"

definition tarpit_ok :: "TarpitTable \<Rightarrow> bool" where
  "tarpit_ok t \<longleftrightarrow> length (sessions t) = 64 \<and> unat (session_count t) \<le> 64 \<and>
     list_all session_ok (live_sessions t) \<and> distinct (map fingerprint (live_sessions t))"

lemma tarpit_init_ok: "tarpit_ok tarpit_init"
  by (simp add: tarpit_ok_def tarpit_init_def live_sessions_def)

lemma find_session_None: "find_session t fp = None \<longleftrightarrow> fp \<notin> fingerprint ` set (live_sessions t)"
  by (auto simp: find_session_def find_index_None live_sessions_def)

lemma engaged_session_ok:
  "session_ok (s\<lparr>fingerprint := fp, sim_state := SIM_RUNNING, tick := 0, pressure := lit_14_7,
     flow_rate := lit_120, valve_pos := lit_0_72, last_update_ns := now\<rparr>)"
  by (simp add: session_ok_def literals)

lemma engage_live:
  assumes "tarpit_ok t"
  shows "tarpit_ok (snd (tarpit_engage fp now t))"
    and "map fingerprint (live_sessions (snd (tarpit_engage fp now t))) =
      (if fp \<in> fingerprint ` set (live_sessions t) \<or> length (live_sessions t) = 64
       then map fingerprint (live_sessions t) else map fingerprint (live_sessions t) @ [fp])"
    and "fst (tarpit_engage fp now t) =
      (if fp \<notin> fingerprint ` set (live_sessions t) \<and> length (live_sessions t) = 64 then -1 else 0)"
proof -
  have len: "length (live_sessions t) = unat (session_count t)" "length (sessions t) = 64" "unat (session_count t) \<le> 64"
    using assms by (simp_all add: tarpit_ok_def live_sessions_def)
  have "tarpit_ok (snd (tarpit_engage fp now t)) \<and>
    map fingerprint (live_sessions (snd (tarpit_engage fp now t))) =
      (if fp \<in> fingerprint ` set (live_sessions t) \<or> length (live_sessions t) = 64
       then map fingerprint (live_sessions t) else map fingerprint (live_sessions t) @ [fp])"
  proof (cases "fp \<in> fingerprint ` set (live_sessions t) \<or> length (live_sessions t) = 64")
    case True
    then show ?thesis
      using assms len find_session_None [of t fp] by (auto simp: tarpit_engage_def TARPIT_MAX_SESSIONS_def)
  next
    case False
    let ?i = "unat (session_count t)"
    let ?s = "(sessions t ! ?i)\<lparr>fingerprint := fp, sim_state := SIM_RUNNING, tick := 0, pressure := lit_14_7,
        flow_rate := lit_120, valve_pos := lit_0_72, last_update_ns := now\<rparr>"
    let ?t = "t\<lparr>sessions := (sessions t)[?i := ?s], session_count := session_count t + 1\<rparr>"
    have i: "?i < 64" using False len by simp
    have e: "tarpit_engage fp now t = (0, ?t)"
      using False i find_session_None [of t fp] by (simp add: tarpit_engage_def TARPIT_MAX_SESSIONS_def Let_def)
    have "unat (session_count t + 1) = Suc ?i"
      using i by (intro unat_Suc_word) (auto simp: unsigned_minus_1_eq_mask mask_eq_exp_minus_1)
    then have live: "live_sessions ?t = live_sessions t @ [?s]"
      using i len by (simp add: live_sessions_def take_Suc_conv_app_nth)
    with assms False i \<open>unat (session_count t + 1) = Suc ?i\<close> engaged_session_ok show ?thesis
      by (simp add: e tarpit_ok_def)
  qed
  then show "tarpit_ok (snd (tarpit_engage fp now t))"
    and "map fingerprint (live_sessions (snd (tarpit_engage fp now t))) =
      (if fp \<in> fingerprint ` set (live_sessions t) \<or> length (live_sessions t) = 64
       then map fingerprint (live_sessions t) else map fingerprint (live_sessions t) @ [fp])" by blast+
  show "fst (tarpit_engage fp now t) =
      (if fp \<notin> fingerprint ` set (live_sessions t) \<and> length (live_sessions t) = 64 then -1 else 0)"
    using len find_session_None [of t fp] by (auto simp: tarpit_engage_def TARPIT_MAX_SESSIONS_def Let_def)
qed

lemma tick_keeps_fingerprint [simp]: "fingerprint (tick_session s) = fingerprint s"
  by (simp add: tick_session_def Let_def)

lemma tick_all_shape [simp]:
  "session_count (tarpit_tick_all t) = session_count t" "length (sessions (tarpit_tick_all t)) = length (sessions t)"
  by (simp_all add: tarpit_tick_all_def Let_def)

lemma tick_all_live:
  "unat (session_count t) \<le> length (sessions t) \<Longrightarrow> live_sessions (tarpit_tick_all t) = map tick_session (live_sessions t)"
  by (simp add: tarpit_tick_all_def live_sessions_def Let_def)

lemma tick_all_ok: "tarpit_ok t \<Longrightarrow> tarpit_ok (tarpit_tick_all t)"
  using tick_all_live [of t] by (auto simp: tarpit_ok_def list_all_iff session_ok_tick comp_def)

section \<open>Properties\<close>

text \<open>A run of the simulation: engagements, at given times, and ticks.\<close>

datatype tarpit_op = Engage bytes u64 | Tick_all

definition tarpit_step :: "TarpitTable \<Rightarrow> tarpit_op \<Rightarrow> TarpitTable" where
  "tarpit_step t a = (case a of Engage fp now \<Rightarrow> snd (tarpit_engage fp now t) | Tick_all \<Rightarrow> tarpit_tick_all t)"

definition tarpit_run :: "tarpit_op list \<Rightarrow> TarpitTable" where
  "tarpit_run ops = foldl tarpit_step tarpit_init ops"

lemma tarpit_step_ok: "tarpit_ok t \<Longrightarrow> tarpit_ok (tarpit_step t a)"
  by (simp add: tarpit_step_def engage_live(1) tick_all_ok split: tarpit_op.split)

lemma tarpit_run_ok: "tarpit_ok (tarpit_run ops)"
proof -
  have "tarpit_ok (foldl tarpit_step t ops)" if "tarpit_ok t" for t
    using that by (induction ops arbitrary: t) (simp_all add: tarpit_step_ok)
  then show ?thesis by (simp add: tarpit_run_def tarpit_init_ok)
qed

text \<open>C35: a response always fits. After any run of engagements and ticks, however the single-precision
  arithmetic rounds, the text for an engaged attacker is at most 56 characters, so it reaches the 128-byte buffer whole and
  terminated, \<open>len_out\<close> is its length, and the bytes behind it are untouched.\<close>

theorem tarpit_response_fits:
  assumes "tarpit_response (tarpit_run ops) fp buf = Some (out, n)" and "length buf = 128"
  shows "\<exists>s \<in> set (live_sessions (tarpit_run ops)). fingerprint s = fp \<and>
    unat n = length (response_text s) \<and> unat n \<le> 56 \<and>
    out = chars_bytes (response_text s) @ [0] @ drop (unat n + 1) buf"
proof -
  let ?t = "tarpit_run ops"
  obtain i where i: "find_session ?t fp = Some i"
    and o: "out = snprintf_into buf 128 (response_text (sessions ?t ! i))" "n = of_nat (length (response_text (sessions ?t ! i)))"
    using assms(1) by (auto simp: tarpit_response_def TARPIT_RESPONSE_LEN_def Let_def split: option.splits)
  let ?s = "sessions ?t ! i"
  have "i < length (live_sessions ?t)" "fingerprint ?s = fp" "?s = live_sessions ?t ! i"
    using find_index_SomeD [OF i [unfolded find_session_def]] by (auto simp: live_sessions_def)
  then have s: "?s \<in> set (live_sessions ?t)" "fingerprint ?s = fp" by (simp_all only: nth_mem)
  then have "session_ok ?s" using tarpit_run_ok [of ops] by (auto simp: tarpit_ok_def list_all_iff)
  then have len: "length (response_text ?s) \<le> 56" by (rule length_response_text)
  then have "unat n = length (response_text ?s)"
    unfolding o(2) by (simp add: unsigned_of_nat take_bit_nat_eq_self_iff)
  with s len o(1) show ?thesis
    by (intro bexI [of _ ?s]) (simp_all add: snprintf_into_def chars_bytes_def Let_def)
qed

theorem tarpit_response_fits_witness:
  "\<exists>n. (tarpit_response (tarpit_run [Engage [1] 0]) [1] (replicate 128 0)) = Some n \<and> unat (snd n) \<le> 56"
proof -
  have z: "replicate 64 zero_session = zero_session # replicate 63 zero_session"
    by (simp flip: replicate_Suc)
  obtain out n where r: "tarpit_response (tarpit_run [Engage [1] 0]) [1] (replicate 128 0) = Some (out, n)"
    by (auto simp: tarpit_response_def tarpit_run_def tarpit_step_def tarpit_engage_def tarpit_init_def find_session_def
        TARPIT_MAX_SESSIONS_def Let_def z)
  from tarpit_response_fits [OF this] r show ?thesis by auto
qed

lemma tick_session_effect:
  "sim_state s = SIM_RUNNING \<Longrightarrow> tick (tick_session s) = tick s + 1"
  "sim_state s = SIM_RUNNING \<Longrightarrow>
     sim_state (tick_session s) = (if 500 < unat (tick s + 1) then SIM_STALLED else SIM_RUNNING)"
  "sim_state s \<noteq> SIM_RUNNING \<Longrightarrow> tick_session s = s"
  by (simp_all add: tick_session_def Let_def word_less_nat_alt)

lemma tick_count:
  assumes "sim_state s = SIM_RUNNING" and "tick s = 0"
  shows "unat (tick ((tick_session ^^ n) s)) = min n 501 \<and>
    sim_state ((tick_session ^^ n) s) = (if n \<le> 500 then SIM_RUNNING else SIM_STALLED)"
proof (induction n)
  case 0
  then show ?case using assms by simp
next
  case (Suc n)
  let ?s = "(tick_session ^^ n) s"
  show ?case
  proof (cases "n \<le> 500")
    case True
    then have "unat (tick ?s + 1) = Suc n"
      using Suc by (subst unat_Suc_word) (auto simp: unsigned_minus_1_eq_mask mask_eq_exp_minus_1)
    with Suc True show ?thesis by (auto simp: tick_session_effect)
  next
    case False
    with Suc show ?thesis by (simp add: tick_session_effect)
  qed
qed

text \<open>a tarpitted process runs for 501 ticks and then stands still. A fresh session is
  \<open>SIM_RUNNING\<close> through its first 500 ticks, \<open>SIM_STALLED\<close> from the next one on, and from then nothing of it
  changes.\<close>

theorem tarpit_session_stalls:
  assumes "sim_state s = SIM_RUNNING" and "tick s = 0"
  shows "sim_state ((tick_session ^^ n) s) = (if n \<le> 500 then SIM_RUNNING else SIM_STALLED) \<and>
    (501 \<le> n \<longrightarrow> (tick_session ^^ n) s = (tick_session ^^ 501) s)"
proof
  show "sim_state ((tick_session ^^ n) s) = (if n \<le> 500 then SIM_RUNNING else SIM_STALLED)"
    using tick_count [OF assms] by blast
  have stalled: "sim_state ((tick_session ^^ 501) s) \<noteq> SIM_RUNNING" using tick_count [OF assms, of 501] by simp
  have "(tick_session ^^ (k + 501)) s = (tick_session ^^ 501) s" for k
  proof (induction k)
    case (Suc k)
    then show ?case by (simp only: add_Suc funpow.simps comp_def tick_session_effect(3) [OF stalled])
  qed simp
  from this [of "n - 501"] show "501 \<le> n \<longrightarrow> (tick_session ^^ n) s = (tick_session ^^ 501) s" by auto
qed

theorem tarpit_session_stalls_witness:
  "sim_state ((tick_session ^^ 501) (zero_session\<lparr>sim_state := SIM_RUNNING\<rparr>)) = SIM_STALLED"
  using tarpit_session_stalls [of "zero_session\<lparr>sim_state := SIM_RUNNING\<rparr>" 501] by (simp add: zero_session_def)

text \<open>engaging is idempotent and keeps a set. An attacker already engaged stays as it is, a new one is added at
  the end, and only a new one is refused, when 64 are engaged; no fingerprint is ever held twice.\<close>

theorem tarpit_engages_set:
  "let t = tarpit_run ops; fps = map fingerprint (live_sessions t); (r, t') = tarpit_engage fp now t
   in distinct fps \<and> length fps \<le> 64 \<and>
      map fingerprint (live_sessions t') = (if fp \<in> set fps \<or> length fps = 64 then fps else fps @ [fp]) \<and>
      r = (if fp \<notin> set fps \<and> length fps = 64 then -1 else 0)"
proof -
  note ok = tarpit_run_ok [of ops]
  have "length (live_sessions (tarpit_run ops)) \<le> 64" using ok by (simp add: tarpit_ok_def live_sessions_def)
  with engage_live(2,3) [OF ok, of fp now] ok show ?thesis
    unfolding Let_def split_beta by (simp add: tarpit_ok_def)
qed

end
