(* ===== verification/Layout_Checks.thy ===== *)
theory Layout_Checks
  imports Pure_Core Evidence_Core Posix
begin

text \<open>
  The layout of the structs (LP64, natural alignment unless packed) and the programs that print it:
  \<open>abi_check.c\<close>, \<open>g0_abi_check.c\<close>, \<open>layout_check.c\<close>, \<open>offset_check.c\<close>, \<open>src/verify_sizes.c\<close>,
  with the types that \<open>gate0_crypto.h\<close> declares and the sizes that \<open>ABI_BASELINE.txt\<close> records. The tree has two headers called \<open>gate0.h\<close> and a third layout in
  \<open>gate0_native_bridge.py\<close>, so a program is a function of the header: the lines it prints, or \<open>None\<close>
  when it names a type or member the header does not declare and so does not compile.
\<close>

section \<open>Sizes and offsets\<close>

text \<open>A scalar of 1, 2, 4 or 8 bytes, a byte array, or a struct, packed or not.\<close>

datatype c_type = Scalar nat | Byte_array nat | Struct bool "(string \<times> c_type) list"

definition round_up :: "nat \<Rightarrow> nat \<Rightarrow> nat" where
  "round_up n a = (n + a - 1) div a * a"

fun align_of :: "c_type \<Rightarrow> nat" and align_members :: "(string \<times> c_type) list \<Rightarrow> nat" where
  "align_of (Scalar n) = n"
| "align_of (Byte_array n) = 1"
| "align_of (Struct packed ms) = (if packed then 1 else align_members ms)"
| "align_members [] = 1"
| "align_members ((f, t) # ms) = max (align_of t) (align_members ms)"

text \<open>\<open>members_end packed off ms\<close> is where members that start at \<open>off\<close> end.\<close>

fun size_of :: "c_type \<Rightarrow> nat" and members_end :: "bool \<Rightarrow> nat \<Rightarrow> (string \<times> c_type) list \<Rightarrow> nat" where
  "size_of (Scalar n) = n"
| "size_of (Byte_array n) = n"
| "size_of (Struct packed ms) =
     (if packed then members_end True 0 ms else round_up (members_end False 0 ms) (align_members ms))"
| "members_end packed off [] = off"
| "members_end packed off ((f, t) # ms) =
     members_end packed ((if packed then off else round_up off (align_of t)) + size_of t) ms"

fun member_at :: "bool \<Rightarrow> nat \<Rightarrow> (string \<times> c_type) list \<Rightarrow> string \<Rightarrow> (nat \<times> c_type) option" where
  "member_at packed off [] f = None"
| "member_at packed off ((g, t) # ms) f =
     (let o1 = (if packed then off else round_up off (align_of t)) in
      if f = g then Some (o1, t) else member_at packed (o1 + size_of t) ms f)"

type_synonym header = "string \<Rightarrow> c_type option"

definition h_sizeof :: "header \<Rightarrow> string \<Rightarrow> nat option" where
  "h_sizeof h t = map_option size_of (h t)"

definition h_member :: "header \<Rightarrow> string \<Rightarrow> string \<Rightarrow> (nat \<times> c_type) option" where
  "h_member h t f = (case h t of Some (Struct packed ms) \<Rightarrow> member_at packed 0 ms f | _ \<Rightarrow> None)"

definition h_offsetof :: "header \<Rightarrow> string \<Rightarrow> string \<Rightarrow> nat option" where
  "h_offsetof h t f = map_option fst (h_member h t f)"

section \<open>The programs\<close>

definition print_nat :: "string \<Rightarrow> nat option \<Rightarrow> string option" where
  "print_nat text n = map_option (\<lambda>n. text @ decimal n @ newline) n"

definition abi_check_main :: "header \<Rightarrow> string list option" where
  "abi_check_main h = those
     [print_nat ''[C] sizeof(CommandEnvelope): '' (h_sizeof h ''CommandEnvelope''),
      print_nat ''[C] sizeof(SignedCommand): '' (h_sizeof h ''SignedCommand''),
      print_nat ''[C] offsetof(SignedCommand, envelope): '' (h_offsetof h ''SignedCommand'' ''envelope''),
      print_nat ''[C] offsetof(SignedCommand, signature): '' (h_offsetof h ''SignedCommand'' ''signature''),
      print_nat ''[C] offsetof(SignedCommand, sender_pubkey): '' (h_offsetof h ''SignedCommand'' ''sender_pubkey'')]"

text \<open>\<open>%-32s\<close> and \<open>%3zu\<close>.\<close>

definition pad_right :: "nat \<Rightarrow> string \<Rightarrow> string" where
  "pad_right n s = s @ replicate (n - length s) (CHR '' '')"

definition pad_left :: "nat \<Rightarrow> string \<Rightarrow> string" where
  "pad_left n s = replicate (n - length s) (CHR '' '') @ s"

definition FIELD :: "header \<Rightarrow> string \<Rightarrow> string \<Rightarrow> string option" where
  "FIELD h t f = map_option (\<lambda>(off, m). pad_right 32 f @ '' offset='' @ pad_left 3 (decimal off) @ '' size='' @
     pad_left 3 (decimal (size_of m)) @ newline) (h_member h t f)"

definition g0_abi_check_main :: "header \<Rightarrow> string list option" where
  "g0_abi_check_main h = those
     [print_nat ''sizeof(CommandEnvelope) = '' (h_sizeof h ''CommandEnvelope''),
      print_nat ''sizeof(SignedCommand)   = '' (h_sizeof h ''SignedCommand''),
      print_nat ''sizeof(SenderRecord)    = '' (h_sizeof h ''SenderRecord''),
      print_nat ''sizeof(SafetyInterlocks)= '' (h_sizeof h ''SafetyInterlocks''),
      map_option (\<lambda>l. l @ newline) (print_nat ''sizeof(Gate0Result)      = '' (h_sizeof h ''Gate0Result'')),
      FIELD h ''SignedCommand'' ''envelope'',
      FIELD h ''SignedCommand'' ''signature'']"

definition layout_check_main :: "header \<Rightarrow> string list option" where
  "layout_check_main h = those
     [print_nat ''ENV_SIZE='' (h_sizeof h ''CommandEnvelope''),
      print_nat ''SIG_CMD_SIZE='' (h_sizeof h ''SignedCommand'')]"

definition offset_check_main :: "header \<Rightarrow> string list option" where
  "offset_check_main h = those
     [print_nat ''OFF_payload='' (h_offsetof h ''CommandEnvelope'' ''payload''),
      print_nat ''OFF_issued='' (h_offsetof h ''CommandEnvelope'' ''issued_at_ns''),
      print_nat ''OFF_expires='' (h_offsetof h ''CommandEnvelope'' ''expires_at_ns''),
      print_nat ''OFF_seq='' (h_offsetof h ''CommandEnvelope'' ''sequence_number'')]"

definition verify_sizes_main :: "header \<Rightarrow> string list option" where
  "verify_sizes_main h = those
     [print_nat ''sizeof(CommandEnvelope) = '' (h_sizeof h ''CommandEnvelope''),
      print_nat ''sizeof(SignedCommand)   = '' (h_sizeof h ''SignedCommand''),
      print_nat ''sizeof(Gate0Result)     = '' (h_sizeof h ''Gate0Result'')]"

section \<open>The three layouts\<close>

definition envelope_t :: c_type where
  "envelope_t = Struct True [(''version'', Scalar 1), (''command_id'', Scalar 1), (''sequence'', Scalar 8),
     (''timestamp_ns'', Scalar 8), (''sender_id'', Byte_array 32), (''payload'', Byte_array 256),
     (''payload_len'', Scalar 4), (''issued_at_ns'', Scalar 8), (''expires_at_ns'', Scalar 8)]"

definition device_t :: c_type where
  "device_t = Struct True [(''os_name'', Byte_array 32), (''os_release'', Byte_array 32),
     (''machine_arch'', Byte_array 32), (''hostname'', Byte_array 64)]"

definition sender_t :: c_type where
  "sender_t = Struct True [(''public_key'', Byte_array 32), (''last_sequence'', Scalar 8), (''used'', Scalar 1)]"

definition interlocks_t :: c_type where
  "interlocks_t = Struct False [(''estop'', Scalar 1), (''overspeed'', Scalar 1), (''overtemp'', Scalar 1),
     (''overvoltage'', Scalar 1), (''interlock_mask'', Scalar 4), (''last_trip_ns'', Scalar 8), (''trip_count'', Scalar 1)]"

definition command_t :: c_type where
  "command_t = Struct True [(''envelope'', envelope_t), (''signature'', Byte_array 64)]"

definition current_header :: header where
  "current_header = map_of [(''GateOResult'', Scalar 4), (''DeviceInfo'', device_t), (''CommandEnvelope'', envelope_t),
     (''SenderRecord'', sender_t), (''SignedCommand'', command_t), (''SafetyInterlocks'', interlocks_t)]"

definition evidence_envelope_t :: c_type where
  "evidence_envelope_t = Struct True [(''version'', Scalar 4), (''sequence'', Scalar 8), (''issued_at_ns'', Scalar 8),
     (''expires_at_ns'', Scalar 8), (''payload'', Byte_array 256), (''required_authority'', Scalar 4), (''device'', device_t)]"

definition evidence_header :: header where
  "evidence_header = map_of [(''Gate0Result'', Scalar 4), (''DeviceInfo'', device_t),
     (''CommandEnvelope'', evidence_envelope_t), (''SenderRecord'', sender_t),
     (''SignedCommand'', Struct True [(''signature'', Byte_array 64), (''envelope'', evidence_envelope_t)]),
     (''SafetyInterlocks'', Struct True [(''estop'', Scalar 1), (''overspeed'', Scalar 1), (''overtemp'', Scalar 1),
        (''overvoltage'', Scalar 1)])]"

definition bridge_envelope_t :: c_type where
  "bridge_envelope_t = Struct True [(''protocol_version'', Scalar 1), (''command_id'', Scalar 4), (''node_id'', Scalar 4),
     (''issued_at_ns'', Scalar 8), (''expires_at_ns'', Scalar 8), (''sequence_number'', Scalar 8),
     (''nonce'', Byte_array 16), (''command_type'', Scalar 1), (''parameters_len'', Scalar 2),
     (''parameters'', Byte_array 256), (''required_authority'', Scalar 1)]"

definition bridge_header :: header where
  "bridge_header = map_of [(''CommandEnvelope'', bridge_envelope_t),
     (''SignedCommand'', Struct True [(''envelope'', bridge_envelope_t), (''signature'', Byte_array 64),
        (''sender_pubkey'', Byte_array 32)]),
     (''SenderRecord'', Struct True [(''used'', Scalar 1), (''public_key'', Byte_array 32), (''current_sequence'', Scalar 8),
        (''allowed_nodes'', Scalar 4), (''authority'', Scalar 4)]),
     (''SafetyInterlocks'', Struct True [(''estop'', Scalar 1), (''overspeed'', Scalar 1), (''overtemp'', Scalar 1),
        (''overvoltage'', Scalar 1)])]"

text \<open>\<open>gate0_crypto.h\<close>: the typedefs it makes, in order, and the second time it makes four of them.\<close>

datatype gate0_status =
    GATE0_OK | GATE0_ERR_VERIFY | GATE0_ERR_DECRYPT | GATE0_ERR_NONCE_REUSE | GATE0_ERR_BADKEY
  | GATE0_ERR_REPLAY | GATE0_ERR_CAPABILITY | GATE0_ERR_CHAIN

fun status_value :: "gate0_status \<Rightarrow> int" where
  "status_value GATE0_OK = 0" | "status_value GATE0_ERR_VERIFY = -1" | "status_value GATE0_ERR_DECRYPT = -2"
| "status_value GATE0_ERR_NONCE_REUSE = -3" | "status_value GATE0_ERR_BADKEY = -4" | "status_value GATE0_ERR_REPLAY = -7"
| "status_value GATE0_ERR_CAPABILITY = -8" | "status_value GATE0_ERR_CHAIN = -9"

definition crypto_structs :: "(string \<times> c_type) list" where
  "crypto_structs =
     [(''gate0_ed25519_keypair_t'', Struct False [(''pub'', Byte_array 32), (''priv'', Byte_array 64)]),
      (''gate0_x25519_keypair_t'', Struct False [(''pub'', Byte_array 32), (''priv'', Byte_array 32)]),
      (''gate0_aead_ctx_t'', Struct False [(''key'', Byte_array 32), (''nonce_counter'', Scalar 8)]),
      (''gate0_chain_link_t'', Struct False [(''prev_hash'', Byte_array 32), (''seq'', Scalar 8),
         (''timestamp_us'', Scalar 8), (''entry_hash'', Byte_array 32), (''chain_hash'', Byte_array 32)])]"

definition crypto_structs_again :: "(string \<times> c_type) list" where
  "crypto_structs_again =
     [(''gate0_ed25519_keypair_t'', Struct False [(''pub'', Byte_array 32), (''priv'', Byte_array 64)]),
      (''gate0_x25519_keypair_t'', Struct False [(''pub'', Byte_array 32), (''priv'', Byte_array 32)]),
      (''gate0_aead_ctx_t'', Struct False [(''key'', Byte_array 32), (''nonce_counter'', Scalar 8)]),
      (''gate0_chain_link_t'', Struct False [(''prev_hash'', Byte_array 32), (''seq'', Scalar 8),
         (''timestamp_us'', Scalar 8), (''entry_hash'', Byte_array 32), (''chain_hash'', Byte_array 32)])]"

text \<open>A typedef name may be given to one struct only: two struct declarations without tags are different types.\<close>

definition crypto_header_compiles :: bool where
  "crypto_header_compiles \<longleftrightarrow> distinct (map fst (crypto_structs @ crypto_structs_again))"

text \<open>The sizes that \<open>ABI_BASELINE.txt\<close> records.\<close>

definition abi_baseline :: "(string \<times> nat) list" where
  "abi_baseline = [(''DeviceInfo'', 160), (''CommandEnvelope'', 310), (''SenderRecord'', 41), (''SignedCommand'', 374)]"

definition without_members :: "string list \<Rightarrow> c_type \<Rightarrow> c_type" where
  "without_members fs t =
     (case t of Struct packed ms \<Rightarrow> Struct packed (filter (\<lambda>m. fst m \<notin> set fs) ms) | _ \<Rightarrow> t)"

section \<open>Properties\<close>

text \<open>the recorded sizes are not the header's. Of the four sizes in \<open>ABI_BASELINE.txt\<close> the header has two; the
  envelope and the command are 16 bytes longer than recorded, which are the two validity times that the record does not list.\<close>

theorem abi_baseline_outdated:
  "filter (\<lambda>(t, n). h_sizeof current_header t \<noteq> Some n) abi_baseline = [(''CommandEnvelope'', 310), (''SignedCommand'', 374)] \<and>
   h_sizeof current_header ''CommandEnvelope'' = Some 326 \<and> h_sizeof current_header ''SignedCommand'' = Some 390 \<and>
   size_of (without_members [''issued_at_ns'', ''expires_at_ns''] envelope_t) = 310"
  by (simp add: abi_baseline_def h_sizeof_def current_header_def envelope_t_def device_t_def sender_t_def command_t_def
      without_members_def)

text \<open>which check program goes with which header. Against the header beside them only \<open>layout_check\<close> compiles, and
  prints 326 and 390; \<open>abi_check\<close> needs the layout of the Python bridge, \<open>g0_abi_check\<close> and \<open>verify_sizes\<close> the
  predecessor's header, and \<open>offset_check\<close> a fourth one that is nowhere in the tree.\<close>

theorem check_programs_and_headers:
  "layout_check_main current_header = Some [''ENV_SIZE=326'' @ newline, ''SIG_CMD_SIZE=390'' @ newline] \<and>
   abi_check_main current_header = None \<and> g0_abi_check_main current_header = None \<and>
   verify_sizes_main current_header = None \<and>
   abi_check_main evidence_header = None \<and> map_option length (abi_check_main bridge_header) = Some 5 \<and>
   map_option length (g0_abi_check_main evidence_header) = Some 7 \<and>
   map_option length (verify_sizes_main evidence_header) = Some 3 \<and>
   (\<forall>h \<in> {current_header, evidence_header, bridge_header}. offset_check_main h = None)"
proof -
  note defs = h_sizeof_def h_offsetof_def h_member_def print_nat_def FIELD_def round_up_def
    current_header_def evidence_header_def bridge_header_def envelope_t_def device_t_def sender_t_def interlocks_t_def
    command_t_def evidence_envelope_t_def bridge_envelope_t_def
  have "decimal 326 = ''326''" "decimal 390 = ''390''" by code_simp+
  then show ?thesis
    by (intro conjI ballI)
      (auto simp: layout_check_main_def abi_check_main_def g0_abi_check_main_def verify_sizes_main_def
        offset_check_main_def defs)
qed

text \<open>the crypto header cannot be compiled. It gives each of its four typedef names to two struct types.\<close>

theorem crypto_header_redeclares: "\<not> crypto_header_compiles"
  by (simp add: crypto_header_compiles_def crypto_structs_def crypto_structs_again_def)

end
