(* ===== verification/Demonstrations.thy ===== *)
theory Demonstrations
  imports Persistence Shadow Layout_Checks Socket_Transport
begin

text \<open>
  The small programs: \<open>gate0_crypto.c\<close> (a round trip through libsodium's AEAD), the root \<open>pure_core.c\<close> (prints
  constants), \<open>gate0_test.c\<close> (signs and verifies), \<open>wal_test.c\<close> (writes the record that
  \<open>wal_recover.c\<close> reads) and \<open>shadow_test.c\<close>. Libsodium is a parameter throughout.
\<close>

datatype console = Stdout string | Stderr string

section \<open>gate0\_crypto.c\<close>

text \<open>The AEAD of libsodium, over key, nonce and message or ciphertext; \<open>junk\<close> is the indeterminate content of
  \<open>decrypted\<close>, which has \<open>msg_len\<close> bytes. Every call of \<open>decrypt\<close> on success writes the whole message.\<close>

definition demo_payload :: bytes where
  "demo_payload = chars_bytes ''gate0 secure payload''"

definition crypto_main ::
  "int \<Rightarrow> bytes \<Rightarrow> bytes \<Rightarrow> (bytes \<Rightarrow> bytes \<Rightarrow> bytes \<Rightarrow> bytes) \<Rightarrow> (bytes \<Rightarrow> bytes \<Rightarrow> bytes \<Rightarrow> bytes option) \<Rightarrow>
     bytes \<Rightarrow> fault + int \<times> console list" where
  "crypto_main sodium key npub encrypt decrypt junk =
     (if sodium < 0 then Inr (1, [Stderr (''[-] Failed to initialize libsodium'' @ newline)])
      else
        let msg_len = length demo_payload;
            ciphertext = encrypt key npub demo_payload
        in case decrypt key npub ciphertext of
             None \<Rightarrow> Inr (1, [Stderr (''[-] ChaCha20-Poly1305 decryption failed!'' @ newline)])
           | Some m \<Rightarrow>
               (case store_byte (take msg_len (m @ drop (length m) junk)) (length m) 0 of
                  Inl f \<Rightarrow> Inl f
                | Inr decrypted \<Rightarrow>
                    Inr (0, [Stdout (''[+] ChaCha20-Poly1305 AEAD: PASSED'' @ newline @ ''    Decrypted: '' @
                      c_string decrypted @ newline)])))"

section \<open>The root pure\_core.c\<close>

record core_state =
  state_id :: u64
  core_flags :: u32
  checksum :: string

definition the_core :: core_state where
  "the_core = \<lparr>state_id = 1001, core_flags = 0x7F,
     checksum = ''e3b0c44298fc1c149afbf4c8996fb92427ae41e4649b934ca495991b7852b855''\<rparr>"

text \<open>\<open>%X\<close>.\<close>

definition upper_hex_digit :: "nat \<Rightarrow> char" where
  "upper_hex_digit d = (if d < 10 then char_of (48 + d) else char_of (55 + d))"

fun hexadecimal :: "nat \<Rightarrow> string" where
  "hexadecimal n = (if n < 16 then [upper_hex_digit n] else hexadecimal (n div 16) @ [upper_hex_digit (n mod 16)])"

declare hexadecimal.simps [simp del]

definition pure_core_main :: "console list" where
  "pure_core_main =
     [Stdout (''[+] PURE_CORE: Initialized successfully'' @ newline),
      Stdout (''    State ID: '' @ decimal (unat (state_id the_core)) @ newline @
        ''    Flags: 0x'' @ hexadecimal (unat (core_flags the_core)) @ newline @
        ''    Root Checksum: '' @ take 16 (checksum the_core) @ ''...'' @ newline)]"

section \<open>gate0\_test.c\<close>

text \<open>Keys, signature and status come from functions that are declared in \<open>gate0_crypto.h\<close> and defined nowhere.\<close>

definition ed25519_test_main ::
  "int \<Rightarrow> bytes \<times> bytes \<Rightarrow> (bytes \<Rightarrow> bytes \<Rightarrow> bytes) \<Rightarrow> (bytes \<Rightarrow> bytes \<Rightarrow> bytes \<Rightarrow> gate0_status) \<Rightarrow> int \<times> console list" where
  "ed25519_test_main sodium keys sign verify =
     (if sodium < 0 then (1, [Stdout (''sodium_init failed'' @ newline)])
      else let (pub, priv) = keys;
               msg = chars_bytes ''gate0 test message'' @ [0];
               sig = sign priv msg
           in (0, [Stdout ((if verify pub msg sig = GATE0_OK then ''Ed25519 PASS'' else ''Ed25519 FAIL'') @ newline)]))"

section \<open>wal\_test.c\<close>

definition wal_test_record :: PersistRecord where
  "wal_test_record = \<lparr>pr_sequence = 1, pr_length = 23, pr_hash = replicate 32 0,
     pr_payload = chars_bytes ''wal_crash_recovery_test'' @ replicate 233 0\<rparr>"

text \<open>\<open>O_TRUNC\<close> empties the file; the environment is as in \<open>Persistence\<close>, and the padding of the record is taken as zero.\<close>

definition wal_test_main :: "bool \<times> nat option \<Rightarrow> bytes option \<Rightarrow> (int \<times> console list) \<times> bytes option" where
  "wal_test_main env disk =
     (if \<not> fst env then ((1, [Stderr ''[-] Failed to open WAL'']), disk)
      else case snd env of
          None \<Rightarrow> ((1, [Stderr (''[-] WAL Writer failed'' @ newline)]), Some [])
        | Some n \<Rightarrow>
            let disk = Some (take n (persist_record_bytes wal_test_record)) in
            if n = sizeof_PersistRecord then
              ((0, [Stdout (''[+] WAL Writer: PASSED (Wrote '' @ decimal n @ '' bytes to disk)'' @ newline)]), disk)
            else ((1, [Stderr (''[-] WAL Writer failed'' @ newline)]), disk))"

section \<open>shadow\_test.c\<close>

definition test_address :: "u32 \<Rightarrow> sockaddr_in" where
  "test_address ip = \<lparr>sin_family = 2, sin_port = 0, sin_addr = ip\<rparr>"

primrec feed_times :: "nat \<Rightarrow> nat \<Rightarrow> u64 list \<Rightarrow> ShadowTable \<Rightarrow> ShadowTable" where
  "feed_times 0 i clock t = t"
| "feed_times (Suc n) i clock t = feed_times n i (tl clock) (shadow_feed_decoy (hd clock) (Some i) t)"

text \<open>\<open>clock\<close> is the sequence of clock readings, two for the registrations and twelve for the decoys. A pointer that a
  test dereferences is the index of an entry.\<close>

definition shadow_test_main :: "u64 \<times> u64 \<Rightarrow> u64 list \<Rightarrow> int \<times> string list" where
  "shadow_test_main reg clock =
     (let t = shadow_init;
          (e1, t) = shadow_register (test_address 0x0100000A) ATTACK_SIG_FLOOD (fst reg) t
      in case e1 of None \<Rightarrow> (1, [''T07 FAIL: register'']) | Some e1 \<Rightarrow>
      let t = feed_times 2 e1 clock t in
      if decoy_seq (sh_table t ! e1) \<noteq> 2 then (1, [''T07 FAIL: decoy_seq'']) else
      let out = [''T07 PASS: sig flood + decoy feed''];
          (e2, t) = shadow_register (test_address 0x0200000A) ATTACK_REPLAY (snd reg) t
      in case e2 of None \<Rightarrow> (1, out @ [''T08 FAIL: register'']) | Some e2 \<Rightarrow>
      let t = feed_times 10 e2 (drop 2 clock) t in
      if decoy_seq (sh_table t ! e2) \<noteq> 10 then (1, out @ [''T08 FAIL: decoy_seq'']) else
      let out = out @ [''T08 PASS: replay storm decoy feed''];
          (lk, t) = shadow_lookup (test_address 0x0100000A) t
      in if (case lk of None \<Rightarrow> True | Some i \<Rightarrow> pattern (sh_table t ! i) \<noteq> ATTACK_SIG_FLOOD)
         then (1, out @ [''LOOKUP FAIL'']) else
      let out = out @ [''LOOKUP PASS''];
          t = shadow_evict_expired (- 1) t;
          (lk, t) = shadow_lookup (test_address 0x0100000A) t
      in if lk \<noteq> None then (1, out @ [''EVICT FAIL''])
         else (0, out @ [''EVICT PASS'', ''ALL SHADOW TESTS PASS'']))"

section \<open>Properties\<close>

text \<open>the AEAD demonstration cannot succeed. With a cipher whose decryption gives back the message, as it promises, the
  program stores the terminator one byte behind its array, before it prints \<open>PASSED\<close>.\<close>

theorem crypto_demo_overruns:
  assumes "0 \<le> sodium" and "decrypt key npub (encrypt key npub demo_payload) = Some demo_payload"
  shows "crypto_main sodium key npub encrypt decrypt junk = Inl OutOfBounds"
  using assms by (simp add: crypto_main_def store_byte_def Let_def)

theorem crypto_demo_overruns_witness:
  "crypto_main 0 [1] [2] (\<lambda>k n m. m @ replicate 16 7) (\<lambda>k n c. Some (take (length c - 16) c)) (replicate 20 0) = Inl OutOfBounds"
  by (rule crypto_demo_overruns) (simp_all add: demo_payload_def chars_bytes_def)

text \<open>the record that the write test leaves is the record that recovery prints. After a complete
  write the recovery tool exits with 0, sequence number 1 and the text that was written.\<close>

theorem wal_test_recovers:
  assumes "wal_test_main (True, Some n) disk = ((0, out), disk')"
  shows "wal_recover_main True disk' = Inr (0, Some (1, chars_bytes ''wal_crash_recovery_test''))"
proof -
  have n: "n = 304" using assms by (simp add: wal_test_main_def Let_def sizeof_PersistRecord_def split: if_splits)
  have len: "length (persist_record_bytes wal_test_record) = 304"
    by (simp add: persist_record_bytes_def wal_test_record_def chars_bytes_def byte_len)
  have "disk' = Some (persist_record_bytes wal_test_record)"
    using assms n len by (simp add: wal_test_main_def Let_def sizeof_PersistRecord_def)
  moreover have "field_at 44 256 (persist_record_bytes wal_test_record) =
      chars_bytes ''wal_crash_recovery_test'' @ 0 # replicate 232 0"
    by (simp add: persist_record_bytes_def wal_test_record_def codec byte_len chars_bytes_def) (simp add: field_at_def flip: replicate_Suc)
  moreover have "field_at 0 8 (persist_record_bytes wal_test_record) = le_bytes 8 (1 :: u64)"
    by (simp add: persist_record_bytes_def wal_test_record_def codec)
  ultimately show ?thesis
    using len by (simp add: wal_recover_main_def sizeof_PersistRecord_def Let_def codec chars_bytes_def)
qed

theorem wal_test_recovers_witness:
  "wal_recover_main True (snd (wal_test_main (True, Some 304) None)) =
     Inr (0, Some (1, chars_bytes ''wal_crash_recovery_test''))"
  by (rule wal_test_recovers [where n = 304 and disk = None and
        out = "[Stdout (''[+] WAL Writer: PASSED (Wrote '' @ decimal 304 @ '' bytes to disk)'' @ newline)]"])
    (simp add: wal_test_main_def Let_def sizeof_PersistRecord_def)

lemma feed_times_effect:
  "i < length (sh_table t) \<Longrightarrow> shadow_active (sh_table t ! i) \<Longrightarrow>
     let t' = feed_times n i clock t in
       table_count t' = table_count t \<and> length (sh_table t') = length (sh_table t) \<and>
       decoy_seq (sh_table t' ! i) = decoy_seq (sh_table t ! i) + of_nat n \<and>
       pattern (sh_table t' ! i) = pattern (sh_table t ! i) \<and> refcount (sh_table t' ! i) = refcount (sh_table t ! i) \<and>
       attacker_addr (sh_table t' ! i) = attacker_addr (sh_table t ! i) \<and>
       (\<forall>j. j \<noteq> i \<longrightarrow> sh_table t' ! j = sh_table t ! j)"
proof (induction n arbitrary: clock t)
  case (Suc n)
  let ?t = "shadow_feed_decoy (hd clock) (Some i) t"
  have "i < length (sh_table ?t)" "shadow_active (sh_table ?t ! i)"
    using Suc.prems by (simp_all add: shadow_feed_decoy_def update_entry_def feed_entry_def)
  from Suc.IH [OF this, of "tl clock"] Suc.prems show ?case
    by (simp add: Let_def shadow_feed_decoy_def update_entry_def feed_entry_def)
qed simp

lemma evict_keeps_pinned:
  assumes "table_count t = 2" and "refcount (sh_table t ! 0) \<noteq> 0"
  shows "0 < table_count (shadow_evict_expired now t)"
proof -
  have *: "\<not> shadow_expired now (sh_table t ! 0)" using assms(2) by (simp add: shadow_expired_def)
  show ?thesis
    unfolding shadow_evict_expired_def
    by (subst evict_loop.simps, subst (2) evict_loop.simps, subst (2) evict_loop.simps, subst (3) evict_loop.simps)
      (simp add: assms(1) * del: evict_loop.simps)
qed

text \<open>the test of the shadow table reports a failure, whatever the clock says: the lookup before the eviction
  pins the first entry, so that it is still found afterwards.\<close>

theorem shadow_test_fails:
  "shadow_test_main reg clock =
     (1, [''T07 PASS: sig flood + decoy feed'', ''T08 PASS: replay storm decoy feed'', ''LOOKUP PASS'', ''EVICT FAIL''])"
proof -
  let ?a1 = "test_address 0x0100000A" and ?a2 = "test_address 0x0200000A"
  obtain t1 where t1: "shadow_register ?a1 ATTACK_SIG_FLOOD (fst reg) shadow_init = (Some 0, t1)"
    "table_count t1 = 1" "length (sh_table t1) = 256" "shadow_active (sh_table t1 ! 0)" "decoy_seq (sh_table t1 ! 0) = 0"
    "pattern (sh_table t1 ! 0) = ATTACK_SIG_FLOOD" "attacker_addr (sh_table t1 ! 0) = ?a1" "refcount (sh_table t1 ! 0) = 0"
    by (auto simp: shadow_register_def shadow_init_def SHADOW_TABLE_MAX_def zero_shadow_entry_def Let_def)
  define t2 where "t2 = feed_times 2 0 clock t1"
  have t2: "table_count t2 = 1" "length (sh_table t2) = 256" "decoy_seq (sh_table t2 ! 0) = 2"
    "pattern (sh_table t2 ! 0) = ATTACK_SIG_FLOOD" "attacker_addr (sh_table t2 ! 0) = ?a1" "refcount (sh_table t2 ! 0) = 0"
    using feed_times_effect [of 0 t1 2 clock] t1 by (simp_all add: t2_def Let_def)
  obtain t3 where t3: "shadow_register ?a2 ATTACK_REPLAY (snd reg) t2 = (Some 1, t3)"
    "table_count t3 = 2" "length (sh_table t3) = 256" "shadow_active (sh_table t3 ! 1)" "decoy_seq (sh_table t3 ! 1) = 0"
    "sh_table t3 ! 0 = sh_table t2 ! 0"
    using t2 by (auto simp: shadow_register_def SHADOW_TABLE_MAX_def zero_shadow_entry_def Let_def)
  define t4 where "t4 = feed_times 10 (Suc 0) (drop 2 clock) t3"
  have t4: "table_count t4 = 2" "length (sh_table t4) = 256" "decoy_seq (sh_table t4 ! 1) = 10"
    "sh_table t4 ! 0 = sh_table t2 ! 0"
    using feed_times_effect [of "Suc 0" t3 10 "drop 2 clock"] t3 by (simp_all add: t4_def Let_def)
  define t5 where "t5 = update_entry 0 shadow_entry_get t4"
  have lk: "shadow_lookup ?a1 t4 = (Some 0, t5)"
    using t4 t2(5) by (simp add: shadow_lookup_def t5_def Let_def)
  have t5: "table_count t5 = 2" "refcount (sh_table t5 ! 0) \<noteq> 0" "pattern (sh_table t5 ! 0) = ATTACK_SIG_FLOOD"
    using t4 t2 by (simp_all add: t5_def update_entry_def shadow_entry_get_def)
  have "0 < table_count (shadow_evict_expired (- 1) t5)" by (rule evict_keeps_pinned [OF t5(1,2)])
  then have last: "fst (shadow_lookup ?a1 (shadow_evict_expired (- 1) t5)) \<noteq> None" by (simp add: shadow_lookup_def)
  show ?thesis
    using last t2(3) t4(3) t5(3)
    by (simp add: shadow_test_main_def t1(1) t3(1) lk split_beta Let_def flip: t2_def t4_def)
qed

end
