(* ===== verification/Adversarial_Tests.thy ===== *)
theory Adversarial_Tests
  imports Adversarial_Gate Demonstrations
begin

text \<open>
  The test program in \<open>gate0_adversarial.c\<close> around its gate: \<open>expect\<close>, \<open>command_make\<close> and the
  deterministic tests with the generator of nonces, as far as the file goes. It breaks off inside
  \<open>run_deterministic_tests\<close>, in the block that has just made the commands \<open>first\<close> and \<open>second\<close>.
\<close>

section \<open>The program\<close>

primrec gate_code :: "GateResult \<Rightarrow> nat" where
  "gate_code GATE_ACCEPT = 0x0000" | "gate_code GATE_UNKNOWN_SENDER = 0x0101"
| "gate_code GATE_BOOTSTRAP_INVALID = 0x0102" | "gate_code GATE_EXPIRED = 0x0201"
| "gate_code GATE_FUTURE_TIMESTAMP = 0x0202" | "gate_code GATE_NONCE_REPLAY = 0x0301"
| "gate_code GATE_SEQUENCE_REPLAY = 0x0401" | "gate_code GATE_SEQUENCE_GAP = 0x0402"
| "gate_code GATE_WRONG_NODE = 0x0501" | "gate_code GATE_AUTHORITY_INSUFFICIENT = 0x0601"
| "gate_code GATE_COMMAND_BLOCKED = 0x0701" | "gate_code GATE_INTERLOCK_UNSAFE = 0x0801"
| "gate_code GATE_PAYLOAD_CORRUPT = 0x0901"

definition CMD_SETPOINT :: u8 where "CMD_SETPOINT = 2"
definition CMD_SAFETY_DISABLE :: u8 where "CMD_SAFETY_DISABLE = 0xF5"

text \<open>\<open>0x%04X\<close>.\<close>

definition show_code :: "GateResult \<Rightarrow> string" where
  "show_code r = (let h = hexadecimal (gate_code r) in ''0x'' @ replicate (4 - length h) (CHR ''0'') @ h)"

record test_state =
  test_gate :: Gate
  rng_state :: u64
  tests_run :: u32
  tests_passed :: u32
  printed :: "string list"

definition expect :: "string \<Rightarrow> GateResult \<Rightarrow> GateResult \<Rightarrow> test_state \<Rightarrow> test_state" where
  "expect name actual expected s =
     (let s = s\<lparr>tests_run := tests_run s + 1\<rparr> in
      if actual = expected then
        s\<lparr>tests_passed := tests_passed s + 1,
          printed := printed s @ [''[PASS] '' @ pad_right 35 name @ '' result='' @ show_code actual @ newline]\<rparr>
      else
        s\<lparr>printed := printed s @ [''[FAIL] '' @ pad_right 35 name @ '' expected='' @ show_code expected @
            '' actual='' @ show_code actual @ newline]\<rparr>)"

definition command_make :: "u32 \<Rightarrow> u32 \<Rightarrow> u64 \<Rightarrow> u64 \<Rightarrow> test_state \<Rightarrow> Command \<times> test_state" where
  "command_make sender node seq now s =
     (let (n, rng) = make_nonce (rng_state s) in
      (\<lparr>cmd_sender_id = sender, cmd_node_id = node, cmd_sequence = seq, cmd_issued_at_ns = now,
        cmd_expires_at_ns = now + 10000000000, cmd_nonce = n, cmd_type = CMD_SETPOINT,
        sender_authority = AUTH_ADMIN, cmd_required_authority = Authority.AUTH_OPERATOR,
        payload_hash_expected = 0xAABBCCDD, payload_hash_actual = 0xAABBCCDD\<rparr>,
       s\<lparr>rng_state := rng\<rparr>))"

definition gate_start_ns :: u64 where "gate_start_ns = 100000000000"

text \<open>One test: make a command for sender 100, change it, expect a result.\<close>

definition gate_test ::
  "string \<Rightarrow> u32 \<Rightarrow> u64 \<Rightarrow> (Command \<Rightarrow> Command) \<Rightarrow> GateResult \<Rightarrow> test_state \<Rightarrow> test_state" where
  "gate_test name node seq change expected s =
     (let (cmd, s) = command_make 100 node seq gate_start_ns s;
          (r, g) = gate_evaluate (test_gate s) (change cmd) gate_start_ns
      in expect name r expected (s\<lparr>test_gate := g\<rparr>))"

definition deterministic_banner :: string where
  "deterministic_banner =
     (let line = newline @ ''========================================'' in
      line @ newline @ ''GATE ZERO DETERMINISTIC ADVERSARIAL TEST'' @ line @ newline @ newline)"

definition run_deterministic_tests :: "test_state \<Rightarrow> Command \<times> Command \<times> test_state" where
  "run_deterministic_tests s =
     (let s = s\<lparr>test_gate := zero_gate, printed := printed s @ [deterministic_banner]\<rparr>;
          s = gate_test ''bootstrap seq=1'' 7 1 id GATE_ACCEPT s;
          s = gate_test ''sequential seq=2'' 7 2 id GATE_ACCEPT s;
          s = gate_test ''replay seq=2'' 7 2 id GATE_SEQUENCE_REPLAY s;
          s = gate_test ''sequence gap seq=4'' 7 4 id GATE_SEQUENCE_GAP s;
          s = gate_test ''gap recovery seq=3'' 7 3 id GATE_ACCEPT s;
          s = gate_test ''retry seq=4'' 7 4 id GATE_ACCEPT s;
          s = gate_test ''wrong node'' 999 5 id GATE_WRONG_NODE s;
          s = gate_test ''insufficient authority'' 7 5
                (\<lambda>c. c\<lparr>cmd_required_authority := AUTH_EMERGENCY\<rparr>) GATE_AUTHORITY_INSUFFICIENT s;
          s = gate_test ''blocked safety bypass'' 7 5
                (\<lambda>c. c\<lparr>cmd_type := CMD_SAFETY_DISABLE\<rparr>) GATE_COMMAND_BLOCKED s;
          s = gate_test ''expired command'' 7 5
                (\<lambda>c. c\<lparr>cmd_expires_at_ns := gate_start_ns - 1\<rparr>) GATE_EXPIRED s;
          s = gate_test ''future timestamp'' 7 5
                (\<lambda>c. c\<lparr>cmd_issued_at_ns := gate_start_ns + CLOCK_SKEW_NS + 1\<rparr>) GATE_FUTURE_TIMESTAMP s;
          s = gate_test ''payload corruption'' 7 5
                (\<lambda>c. c\<lparr>payload_hash_actual := payload_hash_actual c XOR 1\<rparr>) GATE_PAYLOAD_CORRUPT s;
          (first, s) = command_make 100 7 5 gate_start_ns s;
          (second, s) = command_make 100 7 6 gate_start_ns s
      in (first, second, s))"

definition adversarial_start :: test_state where
  "adversarial_start = \<lparr>test_gate = zero_gate, rng_state = 0xC0FFEE123456789A, tests_run = 0, tests_passed = 0,
     printed = []\<rparr>"

section \<open>The generator, evaluated\<close>

text \<open>The generator on integers, where numerals stay below \<open>2 ^ 64\<close>.\<close>

definition shift_left :: "int \<Rightarrow> int \<Rightarrow> int" where
  "shift_left k n = n XOR (n * k mod 18446744073709551616)"

definition shift_right :: "int \<Rightarrow> int \<Rightarrow> int" where
  "shift_right k n = n XOR (n div k)"

definition rng_int :: "int \<Rightarrow> int" where
  "rng_int n = shift_left 131072 (shift_right 128 (shift_left 8192 n))"

lemma uint_rng_next: "uint (rng_next x) = rng_int (uint x)"
proof -
  have l: "uint (y XOR push_bit k y) = shift_left (2 ^ k) (uint y)" for y :: u64 and k
    by (simp add: shift_left_def unsigned_xor_eq unsigned_push_bit_eq push_bit_eq_mult [of k "uint y"] take_bit_eq_mod)
  have r: "uint (y XOR drop_bit k y) = shift_right (2 ^ k) (uint y)" for y :: u64 and k
  proof -
    have "take_bit 64 (uint y) = uint y" using uint_bounded [of y] by (simp add: take_bit_int_eq_self_iff)
    then show ?thesis
      by (simp add: shift_right_def unsigned_xor_eq unsigned_drop_bit_eq drop_bit_eq_div [of k "uint y"])
  qed
  have "uint (rng_next x) = shift_left (2 ^ 17) (shift_right (2 ^ 7) (shift_left (2 ^ 13) (uint x)))"
    unfolding rng_next_def Let_def by (simp only: l r)
  then show ?thesis by (simp add: rng_int_def)
qed

lemma rng_next_word_of_int:
  "0 \<le> n \<Longrightarrow> n < 18446744073709551616 \<Longrightarrow> rng_next (word_of_int n) = word_of_int (rng_int n)"
proof -
  assume "0 \<le> n" "n < 18446744073709551616"
  then have "uint (word_of_int n :: u64) = n" by (simp add: unsigned_of_int take_bit_int_eq_self_iff)
  then have "uint (rng_next (word_of_int n)) = rng_int n" by (simp only: uint_rng_next)
  then show ?thesis by (metis word_of_int_uint)
qed

text \<open>What a nonce begins with and where it leaves the generator.\<close>

lemma make_nonce_loop_state: "snd (make_nonce_loop n x) = (rng_next ^^ n) x"
  by (induction n arbitrary: x) (simp_all add: Let_def split_beta funpow_swap1)

lemma make_nonce_facts:
  "snd (make_nonce x) = (rng_next ^^ 16) x"
  "hd (fst (make_nonce x)) = ucast (rng_next x AND 0xFF)"
  by (simp_all add: make_nonce_def make_nonce_loop_state) (simp add: numeral_eq_Suc Let_def split_beta)

lemma rng_power_word_of_int:
  assumes "0 \<le> n" and "n < 18446744073709551616"
  shows "(rng_next ^^ k) (word_of_int n) = word_of_int ((rng_int ^^ k) n) \<and>
    0 \<le> (rng_int ^^ k) n \<and> (rng_int ^^ k) n < 18446744073709551616"
proof (induction k)
  case 0
  then show ?case using assms by simp
next
  case (Suc k)
  let ?n = "(rng_int ^^ k) n"
  have "uint (word_of_int ?n :: u64) = ?n" using Suc by (simp add: unsigned_of_int take_bit_int_eq_self_iff)
  then have "rng_int ?n = uint (rng_next (word_of_int ?n))" by (simp only: uint_rng_next)
  then have "0 \<le> rng_int ?n \<and> rng_int ?n < 18446744073709551616"
    using uint_bounded [of "rng_next (word_of_int ?n)"] by simp
  then show ?case using Suc rng_next_word_of_int by simp
qed

definition seed_after :: "int \<Rightarrow> int" where "seed_after n = (rng_int ^^ 16) n"
definition first_byte :: "int \<Rightarrow> int" where "first_byte n = rng_int n mod 256"

lemma make_nonce_ints:
  assumes "0 \<le> n" and "n < 18446744073709551616"
  shows "snd (make_nonce (word_of_int n)) = word_of_int (seed_after n)"
    and "hd (fst (make_nonce (word_of_int n))) = word_of_int (first_byte n)"
proof -
  show "snd (make_nonce (word_of_int n)) = word_of_int (seed_after n)"
    using rng_power_word_of_int [OF assms, of 16] by (simp only: make_nonce_facts(1) seed_after_def)
  have m: "(255 :: u64) = mask 8" by (simp add: mask_eq_exp_minus_1)
  show "hd (fst (make_nonce (word_of_int n))) = word_of_int (first_byte n)"
    unfolding make_nonce_facts(2) rng_next_word_of_int [OF assms] first_byte_def m take_bit_eq_mask [symmetric]
    by (rule bit_word_eqI) (simp add: bit_simps flip: take_bit_eq_mod [of 8, simplified])
qed

text \<open>The first eight draws of the program: where they leave the generator, and their first bytes, which differ.\<close>

lemmas draw_eval = seed_after_def first_byte_def rng_int_def shift_left_def shift_right_def numeral_eq_Suc

lemma draw_0: "snd (make_nonce 13907095936298285210) = 81787851117710055" "hd (fst (make_nonce 13907095936298285210)) = 235"
  using make_nonce_ints [of 13907095936298285210] by (simp_all add: draw_eval)

lemma draw_1: "snd (make_nonce 81787851117710055) = 2305917767235106057" "hd (fst (make_nonce 81787851117710055)) = 178"
  using make_nonce_ints [of 81787851117710055] by (simp_all add: draw_eval)

lemma draw_2: "snd (make_nonce 2305917767235106057) = 9564555383613717597" "hd (fst (make_nonce 2305917767235106057)) = 163"
  using make_nonce_ints [of 2305917767235106057] by (simp_all add: draw_eval)

lemma draw_3: "snd (make_nonce 9564555383613717597) = 6064759945305195080" "hd (fst (make_nonce 9564555383613717597)) = 229"
  using make_nonce_ints [of 9564555383613717597] by (simp_all add: draw_eval)

lemma draw_4: "snd (make_nonce 6064759945305195080) = 2980102965847416617" "hd (fst (make_nonce 6064759945305195080)) = 76"
  using make_nonce_ints [of 6064759945305195080] by (simp_all add: draw_eval)

lemma draw_5: "snd (make_nonce 2980102965847416617) = 562406783973893090" "hd (fst (make_nonce 2980102965847416617)) = 215"
  using make_nonce_ints [of 2980102965847416617] by (simp_all add: draw_eval)

lemma draw_6: "snd (make_nonce 562406783973893090) = 9867996531543543630" "hd (fst (make_nonce 562406783973893090)) = 37"
  using make_nonce_ints [of 562406783973893090] by (simp_all add: draw_eval)

lemma draw_7: "snd (make_nonce 9867996531543543630) = 16944999279850262847" "hd (fst (make_nonce 9867996531543543630)) = 208"
  using make_nonce_ints [of 9867996531543543630] by (simp_all add: draw_eval)

lemmas draws = draw_0 draw_1 draw_2 draw_3 draw_4 draw_5 draw_6 draw_7

lemma nonces_differ:
  "hd (fst (make_nonce a)) \<noteq> hd (fst (make_nonce b)) \<Longrightarrow> (fst (make_nonce a) = fst (make_nonce b)) = False"
  by auto

section \<open>The tests, one by one\<close>

text \<open>The gate after the commands 1 to \<open>q\<close> of sender 100 were accepted with the nonces \<open>ns\<close>.\<close>

definition enrolled :: "u64 \<Rightarrow> bytes list \<Rightarrow> Gate" where
  "enrolled q ns = zero_gate\<lparr>senders := \<lparr>st_used = True, st_sender_id = 100, allowed_node = 7, current_seq = q,
     st_authority = AUTH_ADMIN\<rparr> # replicate 31 zero_sender_state, nonces := ns\<rparr>"

definition made :: "u64 \<Rightarrow> u32 \<Rightarrow> u64 \<Rightarrow> Command" where
  "made r node seq = \<lparr>cmd_sender_id = 100, cmd_node_id = node, cmd_sequence = seq, cmd_issued_at_ns = gate_start_ns,
     cmd_expires_at_ns = gate_start_ns + 10000000000, cmd_nonce = fst (make_nonce r), cmd_type = CMD_SETPOINT,
     sender_authority = AUTH_ADMIN, cmd_required_authority = Authority.AUTH_OPERATOR,
     payload_hash_expected = 0xAABBCCDD, payload_hash_actual = 0xAABBCCDD\<rparr>"

text \<open>After \<open>k\<close> passed tests.\<close>

definition passed :: "Gate \<Rightarrow> u64 \<Rightarrow> u32 \<Rightarrow> test_state \<Rightarrow> bool" where
  "passed g r k s \<longleftrightarrow> test_gate s = g \<and> rng_state s = r \<and> tests_run s = k \<and> tests_passed s = k"

lemma gate_test_passes:
  assumes "passed g r k s" and "gate_evaluate g (change (made r node seq)) gate_start_ns = (expected, g')"
    and "snd (make_nonce r) = r'" and "k + 1 = k'"
  shows "passed g' r' k' (gate_test name node seq change expected s)"
  using assms by (auto simp: passed_def gate_test_def command_make_def made_def expect_def split_beta Let_def)

lemma command_make_passed: "passed g r k s \<Longrightarrow> passed g (snd (make_nonce r)) k (snd (command_make i node seq now s))"
  by (simp add: passed_def command_make_def split_beta Let_def)

lemma bootstrap_accepted:
  "gate_evaluate zero_gate (made r 7 1) gate_start_ns = (GATE_ACCEPT, enrolled 1 [fst (make_nonce r)])"
proof -
  have "admissible zero_gate (made r 7 1) gate_start_ns"
    by (simp add: admissible_def made_def gate_start_ns_def CLOCK_SKEW_NS_def CMD_SETPOINT_def command_is_blocked_def
        interlocks_safe_def nonce_seen_def zero_gate_def)
  moreover have "find_sender zero_gate 100 = None"
    by (simp add: find_sender_def zero_gate_def find_index_None zero_sender_state_def)
  moreover have "senders zero_gate = zero_sender_state # replicate 31 zero_sender_state"
    by (simp add: zero_gate_def flip: replicate_Suc)
  ultimately show ?thesis
    by (simp add: gate_admitted made_def bootstrap_sender_def zero_sender_state_def enrolled_def
        nonce_record_def MAX_NONCES_def) (simp add: zero_gate_def)
qed

lemma enrolled_evaluate:
  assumes "cmd_sender_id cmd = 100" and "payload_hash_expected cmd = payload_hash_actual cmd"
    and "gate_start_ns \<le> cmd_expires_at_ns cmd" and "cmd_issued_at_ns cmd \<le> gate_start_ns + CLOCK_SKEW_NS"
    and "\<not> command_is_blocked (cmd_type cmd)" and "cmd_nonce cmd \<notin> set ns" and "length ns < 256"
  shows "gate_evaluate (enrolled q ns) cmd gate_start_ns =
     (if cmd_node_id cmd \<noteq> 7 then (GATE_WRONG_NODE, enrolled q ns)
      else if AUTH_ADMIN < cmd_required_authority cmd then (GATE_AUTHORITY_INSUFFICIENT, enrolled q ns)
      else if cmd_sequence cmd \<le> q then (GATE_SEQUENCE_REPLAY, enrolled q ns)
      else if cmd_sequence cmd > q + 1 then (GATE_SEQUENCE_GAP, enrolled q ns)
      else (GATE_ACCEPT, enrolled (cmd_sequence cmd) (ns @ [cmd_nonce cmd])))"
proof -
  have "admissible (enrolled q ns) cmd gate_start_ns"
    using assms by (simp add: admissible_def interlocks_safe_def nonce_seen_def enrolled_def zero_gate_def list_ex_iff)
  moreover have "find_sender (enrolled q ns) 100 = Some 0" by (simp add: find_sender_def enrolled_def)
  ultimately show ?thesis
    using assms(1,7) by (simp add: gate_admitted enrolled_def nonce_record_def MAX_NONCES_def Let_def)
qed

lemmas made_defs = made_def gate_start_ns_def CLOCK_SKEW_NS_def CMD_SETPOINT_def CMD_SAFETY_DISABLE_def command_is_blocked_def

lemma enrolled_made:
  assumes "fst (make_nonce r) \<notin> set ns" and "length ns < 256"
  shows "gate_evaluate (enrolled q ns) (made r node seq) gate_start_ns =
     (if node \<noteq> 7 then (GATE_WRONG_NODE, enrolled q ns)
      else if seq \<le> q then (GATE_SEQUENCE_REPLAY, enrolled q ns)
      else if seq > q + 1 then (GATE_SEQUENCE_GAP, enrolled q ns)
      else (GATE_ACCEPT, enrolled seq (ns @ [fst (make_nonce r)])))"
    and "gate_evaluate (enrolled q ns) ((made r 7 seq)\<lparr>cmd_required_authority := AUTH_EMERGENCY\<rparr>) gate_start_ns =
     (GATE_AUTHORITY_INSUFFICIENT, enrolled q ns)"
  using assms by (subst enrolled_evaluate; simp add: made_defs less_Authority_def)+

lemma enrolled_results:
  "gate_evaluate (enrolled 1 [fst (make_nonce 13907095936298285210)])
     ((made 81787851117710055 7 2)) gate_start_ns = (GATE_ACCEPT, enrolled 2 [fst (make_nonce 13907095936298285210), fst (make_nonce 81787851117710055)])"
  "gate_evaluate (enrolled 2 [fst (make_nonce 13907095936298285210), fst (make_nonce 81787851117710055)])
     ((made 2305917767235106057 7 2)) gate_start_ns = (GATE_SEQUENCE_REPLAY, enrolled 2 [fst (make_nonce 13907095936298285210), fst (make_nonce 81787851117710055)])"
  "gate_evaluate (enrolled 2 [fst (make_nonce 13907095936298285210), fst (make_nonce 81787851117710055)])
     ((made 9564555383613717597 7 4)) gate_start_ns = (GATE_SEQUENCE_GAP, enrolled 2 [fst (make_nonce 13907095936298285210), fst (make_nonce 81787851117710055)])"
  "gate_evaluate (enrolled 2 [fst (make_nonce 13907095936298285210), fst (make_nonce 81787851117710055)])
     ((made 6064759945305195080 7 3)) gate_start_ns = (GATE_ACCEPT, enrolled 3 [fst (make_nonce 13907095936298285210), fst (make_nonce 81787851117710055), fst (make_nonce 6064759945305195080)])"
  "gate_evaluate (enrolled 3 [fst (make_nonce 13907095936298285210), fst (make_nonce 81787851117710055), fst (make_nonce 6064759945305195080)])
     ((made 2980102965847416617 7 4)) gate_start_ns = (GATE_ACCEPT, enrolled 4 [fst (make_nonce 13907095936298285210), fst (make_nonce 81787851117710055), fst (make_nonce 6064759945305195080), fst (make_nonce 2980102965847416617)])"
  "gate_evaluate (enrolled 4 [fst (make_nonce 13907095936298285210), fst (make_nonce 81787851117710055), fst (make_nonce 6064759945305195080), fst (make_nonce 2980102965847416617)])
     ((made 562406783973893090 999 5)) gate_start_ns = (GATE_WRONG_NODE, enrolled 4 [fst (make_nonce 13907095936298285210), fst (make_nonce 81787851117710055), fst (make_nonce 6064759945305195080), fst (make_nonce 2980102965847416617)])"
  "gate_evaluate (enrolled 4 [fst (make_nonce 13907095936298285210), fst (make_nonce 81787851117710055), fst (make_nonce 6064759945305195080), fst (make_nonce 2980102965847416617)])
     ((made 9867996531543543630 7 5)\<lparr>cmd_required_authority := AUTH_EMERGENCY\<rparr>) gate_start_ns = (GATE_AUTHORITY_INSUFFICIENT, enrolled 4 [fst (make_nonce 13907095936298285210), fst (make_nonce 81787851117710055), fst (make_nonce 6064759945305195080), fst (make_nonce 2980102965847416617)])"
  by (simp_all add: enrolled_made nonces_differ draws word_le_nat_alt)

text \<open>The tests whose command is refused before the nonce is looked at.\<close>

lemma refused_early:
  "gate_evaluate g ((made r 7 5)\<lparr>cmd_type := CMD_SAFETY_DISABLE\<rparr>) gate_start_ns = (GATE_COMMAND_BLOCKED, g)"
  "gate_evaluate g ((made r 7 5)\<lparr>cmd_expires_at_ns := gate_start_ns - 1\<rparr>) gate_start_ns = (GATE_EXPIRED, g)"
  "gate_evaluate g ((made r 7 5)\<lparr>cmd_issued_at_ns := gate_start_ns + CLOCK_SKEW_NS + 1\<rparr>) gate_start_ns =
     (GATE_FUTURE_TIMESTAMP, g)"
  "gate_evaluate g ((made r 7 5)\<lparr>payload_hash_actual := payload_hash_actual (made r 7 5) XOR 1\<rparr>) gate_start_ns =
     (GATE_PAYLOAD_CORRUPT, g)"
  by (simp_all add: gate_evaluate_def made_defs)

section \<open>Properties\<close>

text \<open>the gate passes its deterministic tests. From the seed of the program, all twelve tests that the file
  contains give the expected verdict, and the gate ends with sender 100 at number 4 and the nonces of the four
  accepted commands.\<close>

theorem deterministic_tests_pass:
  "let (first, second, s) = run_deterministic_tests adversarial_start in
     tests_run s = 12 \<and> tests_passed s = 12 \<and> adv_counter 100 (test_gate s) = 4 \<and> length (nonces (test_gate s)) = 4"
proof -
  let ?n = "\<lambda>r. fst (make_nonce r)"
  let ?fin = "enrolled 4 [?n 13907095936298285210, ?n 81787851117710055, ?n 6064759945305195080, ?n 2980102965847416617]"
  define s0 where "s0 = adversarial_start\<lparr>test_gate := zero_gate, printed := printed adversarial_start @ [deterministic_banner]\<rparr>"
  define s1 where "s1 = gate_test ''bootstrap seq=1'' 7 1 id GATE_ACCEPT s0"
  define s2 where "s2 = gate_test ''sequential seq=2'' 7 2 id GATE_ACCEPT s1"
  define s3 where "s3 = gate_test ''replay seq=2'' 7 2 id GATE_SEQUENCE_REPLAY s2"
  define s4 where "s4 = gate_test ''sequence gap seq=4'' 7 4 id GATE_SEQUENCE_GAP s3"
  define s5 where "s5 = gate_test ''gap recovery seq=3'' 7 3 id GATE_ACCEPT s4"
  define s6 where "s6 = gate_test ''retry seq=4'' 7 4 id GATE_ACCEPT s5"
  define s7 where "s7 = gate_test ''wrong node'' 999 5 id GATE_WRONG_NODE s6"
  define s8 where "s8 = gate_test ''insufficient authority'' 7 5 (\<lambda>c. c\<lparr>cmd_required_authority := AUTH_EMERGENCY\<rparr>) GATE_AUTHORITY_INSUFFICIENT s7"
  define s9 where "s9 = gate_test ''blocked safety bypass'' 7 5 (\<lambda>c. c\<lparr>cmd_type := CMD_SAFETY_DISABLE\<rparr>) GATE_COMMAND_BLOCKED s8"
  define s10 where "s10 = gate_test ''expired command'' 7 5 (\<lambda>c. c\<lparr>cmd_expires_at_ns := gate_start_ns - 1\<rparr>) GATE_EXPIRED s9"
  define s11 where "s11 = gate_test ''future timestamp'' 7 5 (\<lambda>c. c\<lparr>cmd_issued_at_ns := gate_start_ns + CLOCK_SKEW_NS + 1\<rparr>) GATE_FUTURE_TIMESTAMP s10"
  define s12 where "s12 = gate_test ''payload corruption'' 7 5 (\<lambda>c. c\<lparr>payload_hash_actual := payload_hash_actual c XOR 1\<rparr>) GATE_PAYLOAD_CORRUPT s11"
  let ?next = "\<lambda>r. snd (make_nonce r)"
  have "passed zero_gate 13907095936298285210 0 s0" by (simp add: passed_def s0_def adversarial_start_def)
  then have "passed (enrolled 1 [?n 13907095936298285210]) 81787851117710055 1 s1"
    unfolding s1_def by (rule gate_test_passes) (simp_all add: bootstrap_accepted draws)
  then have "passed (enrolled 2 [?n 13907095936298285210, ?n 81787851117710055]) 2305917767235106057 2 s2"
    unfolding s2_def by (rule gate_test_passes) (simp_all add: enrolled_results draws)
  then have "passed (enrolled 2 [?n 13907095936298285210, ?n 81787851117710055]) 9564555383613717597 3 s3"
    unfolding s3_def by (rule gate_test_passes) (simp_all add: enrolled_results draws)
  then have "passed (enrolled 2 [?n 13907095936298285210, ?n 81787851117710055]) 6064759945305195080 4 s4"
    unfolding s4_def by (rule gate_test_passes) (simp_all add: enrolled_results draws)
  then have "passed (enrolled 3 [?n 13907095936298285210, ?n 81787851117710055, ?n 6064759945305195080]) 2980102965847416617 5 s5"
    unfolding s5_def by (rule gate_test_passes) (simp_all add: enrolled_results draws)
  then have "passed ?fin 562406783973893090 6 s6"
    unfolding s6_def by (rule gate_test_passes) (simp_all add: enrolled_results draws)
  then have "passed ?fin 9867996531543543630 7 s7"
    unfolding s7_def by (rule gate_test_passes) (simp_all add: enrolled_results draws)
  then have "passed ?fin 16944999279850262847 8 s8"
    unfolding s8_def by (rule gate_test_passes) (simp_all add: enrolled_results draws)
  then have "passed ?fin (?next 16944999279850262847) 9 s9"
    unfolding s9_def by (rule gate_test_passes) (simp_all add: refused_early)
  then have "passed ?fin (?next (?next 16944999279850262847)) 10 s10"
    unfolding s10_def by (rule gate_test_passes) (simp_all add: refused_early)
  then have "passed ?fin (?next (?next (?next 16944999279850262847))) 11 s11"
    unfolding s11_def by (rule gate_test_passes) (simp_all add: refused_early)
  then have "passed ?fin (?next (?next (?next (?next 16944999279850262847)))) 12 s12"
    unfolding s12_def by (rule gate_test_passes) (simp_all add: refused_early)
  then have "passed ?fin (?next (?next (?next (?next (?next (?next 16944999279850262847)))))) 12 (snd (command_make 100 7 6 gate_start_ns (snd (command_make 100 7 5 gate_start_ns s12))))"
    by (intro command_make_passed)
  moreover have "snd (snd (run_deterministic_tests adversarial_start)) =
      snd (command_make 100 7 6 gate_start_ns (snd (command_make 100 7 5 gate_start_ns s12)))"
    unfolding s12_def s11_def s10_def s9_def s8_def s7_def s6_def s5_def s4_def s3_def s2_def s1_def s0_def
    by (simp only: run_deterministic_tests_def Let_def case_prod_unfold fst_conv snd_conv)
  moreover have "adv_counter 100 (enrolled q ns) = q" "length (nonces (enrolled q ns)) = length ns" for q ns
    by (simp_all add: adv_counter_def find_sender_def enrolled_def)
  ultimately show ?thesis by (simp add: case_prod_unfold Let_def passed_def)
qed

end
