(* ===== verification/Gate_Tests.thy ===== *)
theory Gate_Tests
  imports Core Pure_Core Posix
begin

text \<open>
  \<open>tests/test_gate0.c\<close> on the evaluator of \<open>src/core.c\<close> and \<open>tests/gate0_adversarial.c\<close>, the
  harness of 100,000 trials, on the evaluator of \<open>src/pure_core.c\<close>. A failed \<open>assert\<close> aborts the program; both are built without
  \<open>NDEBUG\<close>. Keys and signing are parameters.
\<close>

section \<open>Programs with assertions\<close>

text \<open>The exit code and the lines printed, or the assertion that failed and the lines printed before.\<close>

datatype run_outcome = Returned int "string list" | Aborted string "string list"

section \<open>\<open>tests/test_gate0.c\<close>\<close>

definition test_sender :: "bytes \<Rightarrow> SenderRecord" where
  "test_sender pk = \<lparr>public_key = pk, last_sequence = 10, used = True\<rparr>"

definition test_envelope :: "u64 \<Rightarrow> CommandEnvelope" where
  "test_envelope seq = \<lparr>env_version = 1, env_command_id = 0, env_sequence = seq, env_timestamp_ns = 0,
     env_sender_id = replicate 32 0, env_payload = replicate 256 0, env_payload_len = 0,
     env_issued_at_ns = 1000, env_expires_at_ns = 5000\<rparr>"

definition signed_test :: "(bytes \<Rightarrow> bytes \<Rightarrow> bytes) \<Rightarrow> bytes \<Rightarrow> CommandEnvelope \<Rightarrow> SignedCommand" where
  "signed_test sign sk e = \<lparr>envelope = e, signature = sign sk (envelope_bytes e)\<rparr>"

definition test_gate0_main ::
  "bool \<Rightarrow> int \<Rightarrow> (bytes \<Rightarrow> bytes \<Rightarrow> bytes) \<Rightarrow> sig_verify \<Rightarrow> bytes \<Rightarrow> bytes \<Rightarrow> run_outcome" where
  "test_gate0_main sim sodium sign vf sk pk =
     (if sodium < 0 then Returned 1 [''[!] Sodium initialization failed'']
      else
        let out = [''[+] Initializing Gate Zero Custom Test Suite...''];
            cmd = signed_test sign sk (test_envelope 11);
            (res, sender, interlocks) = evaluate_command sim vf cmd (test_sender pk) zero_interlocks 2000
        in if res \<noteq> GO_OK then Aborted ''res == G0_OK'' out else
        let out = out @ [''[+] Test A (Valid Command & Signature): PASSED''];
            (res, sender, interlocks) = evaluate_command sim vf cmd sender interlocks 2000
        in if res \<noteq> GO_SEQUENCE_INVALID then Aborted ''res == G0_SEQUENCE_INVALID'' out else
        let out = out @ [''[+] Test B (Replay Protection): PASSED''];
            cmd = signed_test sign sk (test_envelope 12);
            (res, sender, interlocks) = evaluate_command sim vf cmd sender interlocks 6000
        in if res \<noteq> GO_EXPIRED then Aborted ''res == G0_EXPIRED'' out else
        let out = out @ [''[+] Test C (Expiration Bound Check): PASSED''];
            interlocks = check_interlocks (interlocks\<lparr>estop := 1\<rparr>);
            (res, sender, interlocks) = evaluate_command sim vf cmd sender interlocks 2000
        in if res \<noteq> GO_INTERLOCK_TRIPPED then Aborted ''res == G0_INTERLOCK_TRIPPED'' out else
        Returned 0 (out @ [''[+] Test D (Hardware Interlock Latch): PASSED'',
          ''[+] All Gate Zero test vectors verified successfully.'']))"

section \<open>\<open>tests/gate0_adversarial.c\<close>\<close>

definition base_time :: u64 where "base_time = 1750000000000000"

definition harness_envelope :: "u64 \<Rightarrow> AuthEnvelope" where
  "harness_envelope seq =
     \<lparr>protocol_version = 1, command_id = 100, node_id = 1, issued_at_ns = base_time,
      expires_at_ns = base_time + 1000000000, sequence_number = seq, nonce = replicate 16 0,
      command_type = 1, parameters_len = 0, parameters = replicate 256 0, required_authority = AUTH_OPERATOR\<rparr>"

definition signed_auth :: "(bytes \<Rightarrow> bytes \<Rightarrow> bytes) \<Rightarrow> bytes \<Rightarrow> bytes \<Rightarrow> AuthEnvelope \<Rightarrow> AuthCommand" where
  "signed_auth sign sk pk e =
     \<lparr>auth_envelope = e, auth_signature = sign sk (auth_envelope_bytes e), auth_sender_pubkey = pk\<rparr>"

text \<open>\<open>signature[0] ^= 0xFF\<close>.\<close>

definition flip_first :: "bytes \<Rightarrow> bytes" where
  "flip_first sg = sg[0 := (sg ! 0) XOR 0xFF]"

text \<open>The command of trial \<open>i\<close>, made from the last command of the four tests, which has number 4.\<close>

definition fuzz_command :: "(bytes \<Rightarrow> bytes \<Rightarrow> bytes) \<Rightarrow> bytes \<Rightarrow> bytes \<Rightarrow> u64 \<Rightarrow> nat \<Rightarrow> AuthCommand" where
  "fuzz_command sign sk pk seq_before i =
     (let cmd = signed_auth sign sk pk (harness_envelope 4); e = auth_envelope cmd in
      if i mod 5 = 0 then signed_auth sign sk pk (e\<lparr>sequence_number := 999\<rparr>)
      else if i mod 5 = 1 then signed_auth sign sk pk (e\<lparr>sequence_number := 2\<rparr>)
      else if i mod 5 = 2 then signed_auth sign sk pk (e\<lparr>command_type := 0xF0\<rparr>)
      else if i mod 5 = 3 then cmd\<lparr>auth_signature := flip_first (auth_signature cmd)\<rparr>
      else signed_auth sign sk pk (e\<lparr>sequence_number := seq_before + 1\<rparr>))"

text \<open>One trial: the failed assertion, or the sender and \<open>seq_before\<close> after it.\<close>

definition harness_trial ::
  "(bytes \<Rightarrow> bytes \<Rightarrow> bytes) \<Rightarrow> sig_verify \<Rightarrow> bytes \<Rightarrow> bytes \<Rightarrow> nat \<Rightarrow> AuthSender \<times> u64 \<Rightarrow> string + AuthSender \<times> u64" where
  "harness_trial sign vf sk pk i st =
     (let (sender, seq_before) = st;
          seq_prior_trial = current_sequence sender;
          (trial_res, sender) = pure_evaluate_command vf (fuzz_command sign sk pk seq_before i) sender zero_bool_interlocks base_time
      in if trial_res = G0_OK then
           (if current_sequence sender = seq_prior_trial + 1 then Inr (sender, current_sequence sender)
            else Inl ''sender.current_sequence == seq_prior_trial + 1'')
         else
           (if current_sequence sender = seq_prior_trial then Inr (sender, seq_before)
            else Inl ''sender.current_sequence == seq_prior_trial''))"

primrec harness_trials ::
  "(bytes \<Rightarrow> bytes \<Rightarrow> bytes) \<Rightarrow> sig_verify \<Rightarrow> bytes \<Rightarrow> bytes \<Rightarrow> nat list \<Rightarrow> AuthSender \<times> u64 \<Rightarrow> string + AuthSender \<times> u64" where
  "harness_trials sign vf sk pk [] st = Inr st"
| "harness_trials sign vf sk pk (i # is) st =
     (case harness_trial sign vf sk pk i st of
        Inl failed \<Rightarrow> Inl failed
      | Inr st \<Rightarrow> harness_trials sign vf sk pk is st)"

text \<open>One of the four tests before the campaign: sign number \<open>seq\<close>, expect a verdict and a counter.\<close>

definition harness_step ::
  "(bytes \<Rightarrow> bytes \<Rightarrow> bytes) \<Rightarrow> sig_verify \<Rightarrow> bytes \<Rightarrow> bytes \<Rightarrow> u64 \<Rightarrow> Gate0Result \<Rightarrow> u64 \<Rightarrow> AuthSender \<Rightarrow> string + AuthSender" where
  "harness_step sign vf sk pk seq verdict counter sender =
     (let (res, sender) = pure_evaluate_command vf (signed_auth sign sk pk (harness_envelope seq)) sender
            zero_bool_interlocks base_time
      in if res \<noteq> verdict then Inl ''res''
         else if current_sequence sender \<noteq> counter then Inl ''sender.current_sequence''
         else Inr sender)"

definition harness_main ::
  "int \<Rightarrow> (bytes \<Rightarrow> bytes \<Rightarrow> bytes) \<Rightarrow> sig_verify \<Rightarrow> bytes \<Rightarrow> bytes \<Rightarrow> run_outcome \<times> AuthSender" where
  "harness_main sodium sign vf sk pk =
     (if sodium < 0 then
        (Returned 1 [''[-] Failed to initialize libsodium in adversarial harness''], zero_auth_sender)
      else
        let out = [''[*] Initializing Gate Zero 100,000-Trial Adversarial Harness...''];
            sender = zero_auth_sender
        in case harness_step sign vf sk pk 1 G0_OK 1 sender of Inl a \<Rightarrow> (Aborted a out, sender) | Inr sender \<Rightarrow>
        let out = out @ [''[+] Test 1: Bootstrap Seq=1 PASSED''] in
        case harness_step sign vf sk pk 2 G0_OK 2 sender of Inl a \<Rightarrow> (Aborted a out, sender) | Inr sender \<Rightarrow>
        let out = out @ [''[+] Test 2: Sequential Seq=2 PASSED''] in
        case harness_step sign vf sk pk 2 G0_SEQUENCE_REPLAY 2 sender of Inl a \<Rightarrow> (Aborted a out, sender) | Inr sender \<Rightarrow>
        let out = out @ [''[+] Test 3: Sequence Replay rejection PASSED''] in
        case harness_step sign vf sk pk 4 G0_SEQUENCE_GAP 2 sender of Inl a \<Rightarrow> (Aborted a out, sender) | Inr sender \<Rightarrow>
        let out = out @ [''[+] Test 4: Sequence Gap rejection PASSED''] in
        case harness_trials sign vf sk pk [0..<100000] (sender, current_sequence sender) of
          Inl a \<Rightarrow> (Aborted a out, sender)
        | Inr (sender, _) \<Rightarrow>
            (Returned 0 (out @ [''[+] 100,000-Trial Adversarial Property Campaign: 100% PASSED (Zero invariant violations)'']), sender))"

section \<open>Properties\<close>

text \<open>the unit test of the gate aborts at its fourth test. With a signature scheme that verifies what it signs, tests A to C
  pass, and then the command that test D expects to be stopped by the emergency stop is accepted, in a
  normal build as in a simulation build: \<open>check_interlocks\<close> clears the stop that the test has just set.\<close>

theorem test_gate0_aborts:
  assumes "0 \<le> sodium" and "\<And>m. vf (sign sk m) m pk = 0"
  shows "test_gate0_main sim sodium sign vf sk pk =
     Aborted ''res == G0_INTERLOCK_TRIPPED''
       [''[+] Initializing Gate Zero Custom Test Suite...'', ''[+] Test A (Valid Command & Signature): PASSED'',
        ''[+] Test B (Replay Protection): PASSED'', ''[+] Test C (Expiration Bound Check): PASSED'']"
proof -
  have clear: "\<not> interlock_tripped (if sim then zero_interlocks else il)" if "\<not> interlock_tripped il" for il
    using that by simp
  let ?il = "if sim then zero_interlocks else zero_interlocks"
  have a: "evaluate_command sim vf (signed_test sign sk (test_envelope 11)) (test_sender pk) zero_interlocks 2000 =
      (GO_OK, (test_sender pk)\<lparr>last_sequence := 11\<rparr>, zero_interlocks)"
    using assms(2) by (simp add: evaluate_command_alt Let_def judged_sender_def test_sender_def signed_test_def
        test_envelope_def within_window_def signed_by_def)
  have b: "evaluate_command sim vf (signed_test sign sk (test_envelope 11)) ((test_sender pk)\<lparr>last_sequence := 11\<rparr>) zero_interlocks 2000 =
      (GO_SEQUENCE_INVALID, (test_sender pk)\<lparr>last_sequence := 11\<rparr>, zero_interlocks)"
    by (simp add: evaluate_command_alt Let_def judged_sender_def test_sender_def signed_test_def test_envelope_def)
  have c: "evaluate_command sim vf (signed_test sign sk (test_envelope 12)) ((test_sender pk)\<lparr>last_sequence := 11\<rparr>) zero_interlocks 6000 =
      (GO_EXPIRED, (test_sender pk)\<lparr>last_sequence := 11\<rparr>, zero_interlocks)"
    by (simp add: evaluate_command_alt Let_def judged_sender_def test_sender_def signed_test_def test_envelope_def
        within_window_def)
  have d: "fst (evaluate_command sim vf (signed_test sign sk (test_envelope 12)) ((test_sender pk)\<lparr>last_sequence := 11\<rparr>)
      (check_interlocks (zero_interlocks\<lparr>estop := 1\<rparr>)) 2000) = GO_OK"
    using assms(2) by (simp add: evaluate_command_alt Let_def judged_sender_def test_sender_def signed_test_def
        test_envelope_def within_window_def signed_by_def)
  show ?thesis using assms(1) d by (simp add: test_gate0_main_def a b c split_beta Let_def)
qed

theorem test_gate0_aborts_witness:
  "test_gate0_main False 0 (\<lambda>sk m. sk) (\<lambda>sg m pk. if sg = pk then 0 else -1) [3] [3] =
     Aborted ''res == G0_INTERLOCK_TRIPPED''
       [''[+] Initializing Gate Zero Custom Test Suite...'', ''[+] Test A (Valid Command & Signature): PASSED'',
        ''[+] Test B (Replay Protection): PASSED'', ''[+] Test C (Expiration Bound Check): PASSED'']"
  by (rule test_gate0_aborts) simp_all

text \<open>The sender of the harness after \<open>q\<close> accepted commands, and what it says to a command of the harness.\<close>

definition harness_sender :: "bytes \<Rightarrow> u64 \<Rightarrow> AuthSender" where
  "harness_sender pk q = \<lparr>auth_used = True, auth_public_key = pk, current_sequence = q, allowed_nodes = 1, authority = 1\<rparr>"

lemma harness_evaluate:
  assumes "\<And>m. vf (sign sk m) m pk = 0"
  shows "pure_evaluate_command vf (signed_auth sign sk pk ((harness_envelope s)\<lparr>command_type := c\<rparr>)) (harness_sender pk q)
      zero_bool_interlocks base_time =
     (if s \<le> q then (G0_SEQUENCE_REPLAY, harness_sender pk q)
      else if q + 1 < s then (G0_SEQUENCE_GAP, harness_sender pk q)
      else if is_blocked_command c then (G0_BLOCKED_COMMAND, harness_sender pk q)
      else (G0_OK, harness_sender pk s))"
  using assms
  by (simp add: pure_evaluate_command_def signed_auth_def harness_envelope_def harness_sender_def base_time_def
      zero_bool_interlocks_def system_unsafe_def AUTH_OPERATOR_def Let_def)

lemma harness_envelope_updates:
  "(harness_envelope s)\<lparr>sequence_number := s'\<rparr> = (harness_envelope s')\<lparr>command_type := 1\<rparr>"
  "harness_envelope s = (harness_envelope s)\<lparr>command_type := 1\<rparr>"
  by (simp_all add: harness_envelope_def)

lemma not_blocked_1: "\<not> is_blocked_command 1"
  by (simp add: is_blocked_command_def word_le_nat_alt)

lemma harness_steps:
  assumes "\<And>m. vf (sign sk m) m pk = 0"
  shows "harness_step sign vf sk pk 1 G0_OK 1 zero_auth_sender = Inr (harness_sender pk 1)"
    and "harness_step sign vf sk pk 2 G0_OK 2 (harness_sender pk 1) = Inr (harness_sender pk 2)"
    and "harness_step sign vf sk pk 2 G0_SEQUENCE_REPLAY 2 (harness_sender pk 2) = Inr (harness_sender pk 2)"
    and "harness_step sign vf sk pk 4 G0_SEQUENCE_GAP 2 (harness_sender pk 2) = Inr (harness_sender pk 2)"
proof -
  note eval = harness_evaluate [where c = 1 and vf = vf and sign = sign and sk = sk and pk = pk, folded harness_envelope_updates(2), OF assms] not_blocked_1
  have q: "current_sequence (harness_sender pk q) = q" for q by (simp add: harness_sender_def)
  show "harness_step sign vf sk pk 1 G0_OK 1 zero_auth_sender = Inr (harness_sender pk 1)"
    using assms not_blocked_1
    by (simp add: harness_step_def pure_evaluate_command_def signed_auth_def harness_envelope_def harness_sender_def
        base_time_def zero_bool_interlocks_def system_unsafe_def AUTH_OPERATOR_def zero_auth_sender_def auth_bootstrap_def Let_def)
  show "harness_step sign vf sk pk 2 G0_OK 2 (harness_sender pk 1) = Inr (harness_sender pk 2)"
    and "harness_step sign vf sk pk 2 G0_SEQUENCE_REPLAY 2 (harness_sender pk 2) = Inr (harness_sender pk 2)"
    and "harness_step sign vf sk pk 4 G0_SEQUENCE_GAP 2 (harness_sender pk 2) = Inr (harness_sender pk 2)"
    by (simp_all add: harness_step_def eval q word_le_nat_alt word_less_nat_alt)
qed

text \<open>The counter after \<open>n\<close> trials: every fifth one is accepted, and number 999 once, when its turn comes.\<close>

definition trial_counter :: "nat \<Rightarrow> nat" where
  "trial_counter n = 2 + n div 5 + (if 4980 < n then 1 else 0)"

lemma trial_counter_Suc:
  "trial_counter (Suc n) = trial_counter n + (if n mod 5 = 4 \<or> n = 4980 then 1 else 0)"
  by (cases "n = 4980") (auto simp: trial_counter_def div_Suc mod_Suc dvd_eq_mod_eq_0)

lemma fuzz_commands:
  "n mod 5 = 0 \<Longrightarrow> fuzz_command sign sk pk q n = signed_auth sign sk pk ((harness_envelope 999)\<lparr>command_type := 1\<rparr>)"
  "n mod 5 = 1 \<Longrightarrow> fuzz_command sign sk pk q n = signed_auth sign sk pk ((harness_envelope 2)\<lparr>command_type := 1\<rparr>)"
  "n mod 5 = 2 \<Longrightarrow> fuzz_command sign sk pk q n = signed_auth sign sk pk ((harness_envelope 4)\<lparr>command_type := 0xF0\<rparr>)"
  "n mod 5 = 4 \<Longrightarrow> fuzz_command sign sk pk q n = signed_auth sign sk pk ((harness_envelope (q + 1))\<lparr>command_type := 1\<rparr>)"
  by (simp_all add: fuzz_command_def signed_auth_def harness_envelope_def Let_def)

lemma fuzz_flipped:
  assumes "\<And>m. vf (flip_first (sign sk m)) m pk \<noteq> 0" and "n mod 5 = 3"
  shows "pure_evaluate_command vf (fuzz_command sign sk pk q n) s il now = (G0_SIGNATURE_INVALID, s)"
  using assms by (simp add: fuzz_command_def signed_auth_def pure_evaluate_command_def Let_def)

lemma harness_trial_run:
  assumes "\<And>m. vf (sign sk m) m pk = 0" and "\<And>m. vf (flip_first (sign sk m)) m pk \<noteq> 0" and "n < 100000"
  shows "harness_trial sign vf sk pk n (harness_sender pk (of_nat (trial_counter n)), of_nat (trial_counter n)) =
     Inr (harness_sender pk (of_nat (trial_counter (Suc n))), of_nat (trial_counter (Suc n)))"
proof -
  define q :: u64 where "q = of_nat (trial_counter n)"
  have c: "trial_counter n \<le> 20003" using assms(3) by (auto simp: trial_counter_def)
  then have q: "unat q = trial_counter n" by (simp add: q_def unsigned_of_nat take_bit_nat_eq_self_iff)
  have q1: "unat (q + 1) = Suc (trial_counter n)" using c q by (subst unat_Suc_word) (auto simp: unsigned_minus_1_eq_mask mask_eq_exp_minus_1)
  have two: "2 \<le> trial_counter n" by (simp add: trial_counter_def)
  have s: "current_sequence (harness_sender pk q) = q" for q by (simp add: harness_sender_def)
  have suc: "of_nat (trial_counter (Suc n)) = (if n mod 5 = 4 \<or> n = 4980 then q + 1 else q)"
    by (simp add: trial_counter_Suc q_def)
  note eval = harness_evaluate [where vf = vf and sign = sign and sk = sk and pk = pk, OF assms(1)]
  consider (far) "n mod 5 = 0" | (old) "n mod 5 = 1" | (blocked) "n mod 5 = 2" | (flipped) "n mod 5 = 3" | (fresh) "n mod 5 = 4"
    by linarith
  then show ?thesis
  proof cases
    case far
    have "n = 4980 \<longleftrightarrow> trial_counter n = 998" using far assms(3) by (auto simp: trial_counter_def)
    then have "n = 4980 \<longleftrightarrow> q + 1 = 999" using q1 by (auto simp: word_unat_eq_iff)
    moreover have "999 \<le> q \<or> q + 1 < 999 \<or> q + 1 = 999"
      using q q1 by (auto simp: word_le_nat_alt word_less_nat_alt word_unat_eq_iff)
    ultimately show ?thesis using far
      unfolding q_def [symmetric] suc by (auto simp: harness_trial_def Let_def fuzz_commands eval s not_blocked_1)
  next
    case old
    have "(2 :: u64) \<le> q" using two q by (simp add: word_le_nat_alt)
    with old show ?thesis
      unfolding q_def [symmetric] suc by (auto simp: harness_trial_def Let_def fuzz_commands eval s)
  next
    case blocked
    then show ?thesis
      unfolding q_def [symmetric] suc by (auto simp: harness_trial_def Let_def fuzz_commands eval s is_blocked_command_def word_le_nat_alt)
  next
    case flipped
    then show ?thesis
      unfolding q_def [symmetric] suc by (auto simp: harness_trial_def Let_def fuzz_flipped [where vf = vf and sign = sign and sk = sk and pk = pk, OF assms(2)] s)
  next
    case fresh
    have "\<not> q + 1 \<le> q" using q q1 by (simp add: word_le_nat_alt)
    with fresh show ?thesis
      unfolding q_def [symmetric] suc by (auto simp: harness_trial_def Let_def fuzz_commands eval s not_blocked_1)
  qed
qed

lemma harness_trials_run:
  assumes "\<And>m. vf (sign sk m) m pk = 0" and "\<And>m. vf (flip_first (sign sk m)) m pk \<noteq> 0"
  shows "n + k \<le> 100000 \<Longrightarrow>
    harness_trials sign vf sk pk [n..<n + k] (harness_sender pk (of_nat (trial_counter n)), of_nat (trial_counter n)) =
      Inr (harness_sender pk (of_nat (trial_counter (n + k))), of_nat (trial_counter (n + k)))"
proof (induction k arbitrary: n)
  case (Suc k)
  have "[n..<n + Suc k] = n # [Suc n..<Suc n + k]" by (simp add: upt_conv_Cons del: upt_Suc)
  with Suc.IH [of "Suc n"] Suc.prems harness_trial_run [where vf = vf and sign = sign and sk = sk and pk = pk, OF assms, of n]
  show ?case by (simp del: upt_Suc)
qed simp

text \<open>C40: the harness passes, and what it covers. With a scheme that verifies what it signs and rejects the
  flipped signatures, no assertion of the four tests or of the 100,000 trials fails, the
  program prints success and returns 0, and the sender's counter ends at 20003: two tests, one command in
  every five trials, and number 999 the one time it is the next.\<close>

theorem harness_passes:
  assumes "0 \<le> sodium" and "\<And>m. vf (sign sk m) m pk = 0" and "\<And>m. vf (flip_first (sign sk m)) m pk \<noteq> 0"
  shows "harness_main sodium sign vf sk pk =
     (Returned 0
       [''[*] Initializing Gate Zero 100,000-Trial Adversarial Harness...'', ''[+] Test 1: Bootstrap Seq=1 PASSED'',
        ''[+] Test 2: Sequential Seq=2 PASSED'', ''[+] Test 3: Sequence Replay rejection PASSED'',
        ''[+] Test 4: Sequence Gap rejection PASSED'',
        ''[+] 100,000-Trial Adversarial Property Campaign: 100% PASSED (Zero invariant violations)''],
      harness_sender pk 20003)"
proof -
  have "trial_counter 0 = 2" "trial_counter 100000 = 20003" by (simp_all add: trial_counter_def)
  with harness_trials_run [where vf = vf and sign = sign and sk = sk and pk = pk, OF assms(2,3), of 0 100000]
  have trials: "harness_trials sign vf sk pk [0..<100000] (harness_sender pk 2, 2) = Inr (harness_sender pk 20003, 20003)"
    by simp
  have "current_sequence (harness_sender pk 2) = 2" by (simp add: harness_sender_def)
  then show ?thesis
    using assms(1) trials harness_steps [where vf = vf and sign = sign and sk = sk and pk = pk, OF assms(2)]
    by (simp add: harness_main_def Let_def del: upt_rec_numeral)
qed

theorem harness_passes_witness:
  "fst (harness_main 0 (\<lambda>sk m. sk) (\<lambda>sg m pk. if sg = pk then 0 else -1) [3] [3]) = Returned 0
       [''[*] Initializing Gate Zero 100,000-Trial Adversarial Harness...'', ''[+] Test 1: Bootstrap Seq=1 PASSED'',
        ''[+] Test 2: Sequential Seq=2 PASSED'', ''[+] Test 3: Sequence Replay rejection PASSED'',
        ''[+] Test 4: Sequence Gap rejection PASSED'',
        ''[+] 100,000-Trial Adversarial Property Campaign: 100% PASSED (Zero invariant violations)'']"
  by (subst harness_passes) (simp_all add: flip_first_def)

end
