(* ===== verification/Reports.thy ===== *)
theory Reports
  imports State_Engine Consequence Socket_Transport Rolling_Cage Phantom Mtk
begin

text \<open>
  What the monitors report: \<open>state_log\<close> of \<open>state_engine.c\<close>, \<open>dark_log\<close> of \<open>dark_controller.c\<close> and
  \<open>cs_print_state\<close> of \<open>consequence_state.c\<close>, and the lines that \<open>rolling_cage.c\<close>, \<open>phantom.c\<close> and \<open>mtk.c\<close> print
  at the end of an operation. The lines can be read back: a line determines every field it shows.
\<close>

section \<open>The reports\<close>

primrec state_code :: "ControllerState \<Rightarrow> nat" where
  "state_code STATE_INIT = 0" | "state_code STATE_ACTIVE = 1" | "state_code STATE_DEGRADED = 2"
| "state_code STATE_FAILSAFE = 3" | "state_code STATE_LOCKOUT = 4"

primrec mode_code :: "DarkMode \<Rightarrow> nat" where
  "mode_code DARK_OFF = 0" | "mode_code DARK_ON = 1" | "mode_code DARK_HARD = 2"

definition state_log :: "StateEngine \<Rightarrow> string" where
  "state_log s = ''[STATE] current='' @ decimal (state_code (current s)) @
     '' previous='' @ decimal (state_code (previous s)) @ '' misses='' @ decimal (unat (heartbeat_misses s)) @
     '' transitions='' @ decimal (unat (transition_count s)) @
     '' locked='' @ decimal (if lockout_hard s then 1 else 0) @ newline"

definition dark_log :: "DarkController \<Rightarrow> string" where
  "dark_log d = ''[DARK] mode='' @ decimal (mode_code (dark_mode d)) @ '' triggers='' @ decimal (unat (trigger_count d)) @
     '' suppressed='' @ decimal (unat (packets_suppressed d)) @ newline"

text \<open>A null pointer prints nothing.\<close>

definition cs_print_state :: "'a ConsequenceState_scheme option \<Rightarrow> string option" where
  "cs_print_state cs = map_option (\<lambda>cs. c_string (cs_suspension_reason cs) @ newline) cs"

text \<open>The lines of the deception components, over the state the operation has left.\<close>

definition cage_opened_line :: "'a CageSession \<Rightarrow> string" where
  "cage_opened_line c = ''[CAGE] opened id='' @ hex 16 (unat (cage_id c)) @ newline"

definition cage_rolled_line :: "'a CageSession \<Rightarrow> string" where
  "cage_rolled_line c = ''[CAGE] rolled round='' @ decimal (unat (cage_round c)) @ newline"

definition cage_recaptured_line :: "'a CageSession \<Rightarrow> string" where
  "cage_recaptured_line c = ''[CAGE] recaptured round='' @ decimal (unat (cage_round c)) @ newline"

definition cage_closed_line :: "'a CageSession \<Rightarrow> string" where
  "cage_closed_line c = ''[CAGE] closed attempts='' @ decimal (unat (escape_attempts c)) @ newline"

definition phantom_trip_line :: "'a PhantomController \<Rightarrow> string" where
  "phantom_trip_line p = ''[PHANTOM] port='' @ decimal (unat (ph_port p)) @ '' tripped hits='' @
     decimal (unat (hit_count p)) @ newline"

definition phantom_status_line :: "'a PhantomController list \<Rightarrow> string" where
  "phantom_status_line farm =
     (let (active, tripped, caged) = phantom_status farm
      in ''[PHANTOM] active='' @ decimal active @ '' tripped='' @ decimal tripped @ '' caged='' @ decimal caged @ newline)"

definition mtk_rotated_line :: "MTKState \<Rightarrow> string" where
  "mtk_rotated_line m = ''[MTK] rotated counter='' @ decimal (unat (mtk_counter m)) @ newline"

definition mtk_verify_line :: "bool \<Rightarrow> MTKState \<Rightarrow> string" where
  "mtk_verify_line valid m = ''[MTK] '' @ (if valid then ''valid'' else ''invalid'') @ '' counter='' @
     decimal (unat (mtk_counter m)) @ newline"

section \<open>Reading a line back\<close>

definition is_digit :: "char \<Rightarrow> bool" where
  "is_digit c \<longleftrightarrow> 48 \<le> (of_char c :: nat) \<and> (of_char c :: nat) \<le> 57"

lemma decimal_digits: "list_all is_digit (decimal n)"
proof (induction n rule: decimal.induct)
  case (1 n)
  have "is_digit (char_of (48 + d))" if "d < 10" for d :: nat
    using that by (simp add: is_digit_def)
  then show ?case using 1 by (subst decimal.simps) simp
qed

lemma decimal_then:
  assumes "\<not> is_digit c" and "\<not> is_digit c'"
  shows "decimal m @ c # xs = decimal n @ c' # ys \<longleftrightarrow> m = n \<and> c = c' \<and> xs = ys"
proof
  assume eq: "decimal m @ c # xs = decimal n @ c' # ys"
  have "takeWhile is_digit (decimal k @ c # zs) = decimal k" if "\<not> is_digit c" for k c zs
    using that decimal_digits [of k] by (simp add: list_all_iff takeWhile_append2)
  from this [OF assms(1)] this [OF assms(2)] eq have "decimal m = decimal n" by metis
  with eq show "m = n \<and> c = c' \<and> xs = ys" by (simp add: decimal_inject)
qed simp

lemma state_code_inject: "state_code a = state_code b \<longleftrightarrow> a = b"
  by (cases a; cases b) simp_all

lemma mode_code_inject: "mode_code c = mode_code d \<longleftrightarrow> c = d"
  by (cases c; cases d) simp_all

lemma flag_inject: "(if a then 1 else 0 :: nat) = (if b then 1 else 0) \<longleftrightarrow> a = b"
  by simp

text \<open>A line of the log determines what it shows. Two engines with the same line agree in every field but the time
  of entry, and two dark controllers with the same line in the mode and both counters.\<close>

lemma logs_determine:
  "state_log s = state_log s' \<longleftrightarrow> current s = current s' \<and> previous s = previous s' \<and>
     heartbeat_misses s = heartbeat_misses s' \<and> transition_count s = transition_count s' \<and>
     lockout_hard s = lockout_hard s'"
  "dark_log d = dark_log d' \<longleftrightarrow> dark_mode d = dark_mode d' \<and> trigger_count d = trigger_count d' \<and>
     packets_suppressed d = packets_suppressed d'"
  by (simp_all only: state_log_def dark_log_def newline_def append.simps append_assoc list.inject simp_thms)
    (simp_all add: decimal_then decimal_inject is_digit_def state_code_inject mode_code_inject flag_inject word_unat_eq_iff del: if_split)

lemma lines_determine:
  "cage_opened_line c = cage_opened_line c' \<longleftrightarrow> cage_id c = cage_id c'"
  "phantom_trip_line p = phantom_trip_line p' \<longleftrightarrow> ph_port p = ph_port p' \<and> hit_count p = hit_count p'"
  "phantom_status_line farm = phantom_status_line farm' \<longleftrightarrow> phantom_status farm = phantom_status farm'"
  "mtk_verify_line v m = mtk_verify_line v' m' \<longleftrightarrow> v = v' \<and> mtk_counter m = mtk_counter m'"
proof -
  have "unat w < 16 ^ 16" for w :: u64 using unsigned_less [of w] by simp
  from hex_inject [OF this this] show "cage_opened_line c = cage_opened_line c' \<longleftrightarrow> cage_id c = cage_id c'"
    by (simp add: cage_opened_line_def word_unat_eq_iff del: hex.simps)
qed (simp_all add: phantom_trip_line_def phantom_status_line_def mtk_verify_line_def split_beta newline_def
    decimal_then decimal_inject is_digit_def word_unat_eq_iff prod_eq_iff)

end
