(* ===== verification/Python_Clients.thy ===== *)
theory Python_Clients
  imports Evidence_Core Executive_Calls "HOL-Library.Monad_Syntax" "HOL-Library.Sublist"
begin

text \<open>
  The Python programs of the repository that talk to the C code through the frame layout of
  \<open>evidence/g0_integration_pass/gate0.h\<close>: those that call an evaluator of a shared library directly
  (\<open>gate0_signed_test.py\<close>, \<open>g0_adversarial.py\<close>) and those that connect to a server (\<open>gate0_client.py\<close>,
  \<open>gate0_bridge.py\<close>, \<open>tests/test_three_tier.py\<close>, \<open>tests/run_full_matrix.py\<close>). An exception of the
  interpreter is the value \<open>None\<close> in a computation and the result \<open>Raised\<close> of a program. The signature
  (\<open>sign\<close>, from a message to 64 bytes, under the key pair the program has made), the public key and the clock are
  parameters; Python's integers are unbounded.
\<close>

section \<open>The module struct\<close>

text \<open>Formats after \<open>"<"\<close>: little-endian, no padding. \<open>struct.pack\<close> raises an exception when the number of
  values is not the number of items, when a value is of the wrong type and when a number is out of range; a byte string is
  cut or padded to its width.\<close>

datatype fmt = Fmt_B | Fmt_H | Fmt_I | Fmt_Q | Fmt_s nat

datatype py_value = Py_int int | Py_bytes bytes

definition in_range :: "nat \<Rightarrow> int \<Rightarrow> bool" where
  "in_range w n \<longleftrightarrow> 0 \<le> n \<and> n < 2 ^ w"

fun pack_item :: "fmt \<Rightarrow> py_value \<Rightarrow> bytes option" where
  "pack_item Fmt_B (Py_int n) = (if in_range 8 n then Some (le_bytes 1 (word_of_int n :: u8)) else None)"
| "pack_item Fmt_H (Py_int n) = (if in_range 16 n then Some (le_bytes 2 (word_of_int n :: u16)) else None)"
| "pack_item Fmt_I (Py_int n) = (if in_range 32 n then Some (le_bytes 4 (word_of_int n :: u32)) else None)"
| "pack_item Fmt_Q (Py_int n) = (if in_range 64 n then Some (le_bytes 8 (word_of_int n :: u64)) else None)"
| "pack_item (Fmt_s k) (Py_bytes bs) = Some (take k bs @ replicate (k - length bs) 0)"
| "pack_item _ _ = None"

fun struct_pack :: "fmt list \<Rightarrow> py_value list \<Rightarrow> bytes option" where
  "struct_pack [] [] = Some []"
| "struct_pack (f # fs) (v # vs) = do { bs \<leftarrow> pack_item f v; rest \<leftarrow> struct_pack fs vs; Some (bs @ rest) }"
| "struct_pack _ _ = None"

text \<open>\<open>buf[i:j] = bs\<close> on a \<open>bytearray\<close>, and \<open>struct.pack_into\<close>, which does not move the rest.\<close>

definition slice_assign :: "nat \<Rightarrow> nat \<Rightarrow> bytes \<Rightarrow> bytes \<Rightarrow> bytes" where
  "slice_assign i j bs buf = take i buf @ bs @ drop (max i j) buf"

definition pack_into :: "fmt \<Rightarrow> nat \<Rightarrow> int \<Rightarrow> bytes \<Rightarrow> bytes option" where
  "pack_into f off n buf =
     (case pack_item f (Py_int n) of
        None \<Rightarrow> None
      | Some bs \<Rightarrow> if off + length bs \<le> length buf then Some (slice_assign off (off + length bs) bs buf) else None)"

fun fmt_size :: "fmt \<Rightarrow> nat" where
  "fmt_size Fmt_B = 1"
| "fmt_size Fmt_H = 2"
| "fmt_size Fmt_I = 4"
| "fmt_size Fmt_Q = 8"
| "fmt_size (Fmt_s k) = k"

lemma pack_item_length [byte_len]: "pack_item f v = Some bs \<Longrightarrow> length bs = fmt_size f"
  by (cases "(f, v)" rule: pack_item.cases) (auto split: if_splits)

text \<open>A packed structure has the length of its format, whatever the values; too few or too many of them raise.\<close>

lemma struct_pack_length:
  "struct_pack fs vs = Some bs \<Longrightarrow> length bs = sum_list (map fmt_size fs) \<and> length vs = length fs"
proof (induction fs vs arbitrary: bs rule: struct_pack.induct)
  case (2 f fs v vs)
  then show ?case by (auto simp: pack_item_length bind_eq_Some_conv)
qed simp_all

lemma struct_pack_arity: "length vs \<noteq> length fs \<Longrightarrow> struct_pack fs vs = None"
  using struct_pack_length by (metis not_Some_eq)

text \<open>A number in range is packed as the C type reads it.\<close>

lemma in_range_u64 [simp]: "in_range 64 (uint (w :: u64))"
  using uint_lt2p [of w] by (simp add: in_range_def)

lemma slice_assign_length [byte_len]:
  "i \<le> j \<Longrightarrow> j \<le> length buf \<Longrightarrow> length bs = j - i \<Longrightarrow> length (slice_assign i j bs buf) = length buf"
  by (simp add: slice_assign_def)

section \<open>The packets\<close>

text \<open>\<open>create_gate0_packet\<close> of \<open>gate0_client.py\<close>: the key is the first thing in the payload.\<close>

definition client_py_packet :: "(bytes \<Rightarrow> bytes) \<Rightarrow> bytes \<Rightarrow> int \<Rightarrow> bytes option" where
  "client_py_packet sign pk now =
     do { env \<leftarrow> pack_into Fmt_I 0 1 (replicate 448 0);
          env \<leftarrow> pack_into Fmt_Q 4 1 env;
          env \<leftarrow> pack_into Fmt_Q 12 now env;
          env \<leftarrow> pack_into Fmt_Q 20 (now + 10000000000) env;
          let env = slice_assign 28 60 pk env;
          let env = env[60 := 1];
          env \<leftarrow> pack_into Fmt_I 284 1 env;
          Some (take 64 (sign env) @ env) }"

text \<open>\<open>build_packet\<close> of \<open>tests/run_full_matrix.py\<close>: the key stands behind a bootstrap token.\<close>

definition ENVELOPE_FMT :: "fmt list" where
  "ENVELOPE_FMT = [Fmt_I, Fmt_Q, Fmt_Q, Fmt_Q, Fmt_s 256, Fmt_I, Fmt_s 32, Fmt_s 32, Fmt_s 32, Fmt_s 64]"

definition ascii :: "string \<Rightarrow> bytes" where
  "ascii = map (\<lambda>c. of_nat (of_char c))"

definition matrix_packet :: "(bytes \<Rightarrow> bytes) \<Rightarrow> bytes \<Rightarrow> int \<Rightarrow> int \<Rightarrow> bool \<Rightarrow> nat \<Rightarrow> bytes option" where
  "matrix_packet sign pk now seq expired trunc =
     (let (issued, expires) = (if expired then (1000, 2000) else (now, now + 10000000000)) in
      do { token \<leftarrow> struct_pack [Fmt_I] [Py_int 0xDEADBEEF];
           let payload = token @ pk @ replicate (256 - 4 - 32) 0;
           env \<leftarrow> struct_pack ENVELOPE_FMT
             [Py_int 1, Py_int seq, Py_int issued, Py_int expires, Py_bytes payload, Py_int 1,
              Py_bytes (ascii ''Linux''), Py_bytes (ascii ''Release''), Py_bytes (ascii ''Arch''), Py_bytes (ascii ''Hostname'')];
           let packet = sign env @ env;
           Some (if 0 < trunc then take (length packet - trunc) packet else packet) })"

text \<open>The packet of \<open>tests/test_three_tier.py\<close>, in a layout of its own.\<close>

definition three_tier_packet :: "(bytes \<Rightarrow> bytes) \<Rightarrow> bytes \<Rightarrow> int \<Rightarrow> bytes option" where
  "three_tier_packet sign pk now =
     do { env \<leftarrow> struct_pack [Fmt_I, Fmt_Q, Fmt_Q, Fmt_Q, Fmt_s 16, Fmt_I, Fmt_I, Fmt_s 256, Fmt_I]
            [Py_int 1, Py_int 101, Py_int now, Py_int (now + 10000000000), Py_bytes (replicate 16 0), Py_int 1, Py_int 1,
             Py_bytes (1 # replicate 255 0), Py_int 1];
          Some (env @ sign env @ pk) }"

text \<open>The envelope of \<open>gate0_bridge.py\<close>; its format has an item less than there are values.\<close>

definition bridge_envelope :: "bytes \<Rightarrow> int \<Rightarrow> bytes option" where
  "bridge_envelope nonce now =
     struct_pack [Fmt_B, Fmt_I, Fmt_I, Fmt_Q, Fmt_Q, Fmt_Q, Fmt_s 16, Fmt_H, Fmt_s 256, Fmt_B]
       [Py_int 1, Py_int 701, Py_int 1, Py_int now, Py_int (now + 1000000000), Py_int 1, Py_bytes nonce, Py_int 1, Py_int 0,
        Py_bytes (replicate 256 0), Py_int 1]"

section \<open>The programs that call the evaluator\<close>

text \<open>\<open>evaluate_command\<close> of the library that is loaded, on structures that the program owns.\<close>

type_synonym loaded_evaluator =
  "EvidenceCommand \<Rightarrow> SenderRecord \<Rightarrow> EvidenceInterlocks \<Rightarrow> u64 \<Rightarrow> GateOResult \<times> SenderRecord \<times> EvidenceInterlocks"

definition clear_interlocks :: EvidenceInterlocks where
  "clear_interlocks = \<lparr>ev_estop = False, ev_overspeed = False, ev_overtemp = False, ev_overvoltage = False\<rparr>"

definition zero_device :: DeviceInfo where
  "zero_device = \<lparr>os_name = replicate 32 0, os_release = replicate 32 0, machine_arch = replicate 32 0,
     hostname = replicate 64 0\<rparr>"

text \<open>The command of \<open>gate0_signed_test.py\<close>, with or without the bootstrap token.\<close>

definition signed_test_envelope :: "bool \<Rightarrow> bytes \<Rightarrow> u64 \<Rightarrow> EvidenceEnvelope" where
  "signed_test_envelope token pub now =
     \<lparr>ev_version = 1, ev_sequence = 1, ev_issued_at_ns = now, ev_expires_at_ns = now + 5000000000,
      ev_payload = (if token then le_bytes 4 (0xDEADBEEF :: u32) else replicate 4 0) @ pub @ replicate 220 0,
      ev_required_authority = 0, ev_device = zero_device\<rparr>"

definition signed_test_command :: "(bytes \<Rightarrow> bytes) \<Rightarrow> bool \<Rightarrow> bytes \<Rightarrow> u64 \<Rightarrow> EvidenceCommand" where
  "signed_test_command sign token pub now =
     (let env = signed_test_envelope token pub now
      in \<lparr>ev_signature = sign (evidence_envelope_bytes env), ev_envelope = env\<rparr>)"

definition signed_test_main :: "loaded_evaluator \<Rightarrow> (bytes \<Rightarrow> bytes) \<Rightarrow> bytes \<Rightarrow> u64 \<Rightarrow> GateOResult" where
  "signed_test_main ev sign pub now = fst (ev (signed_test_command sign True pub now) zero_sender clear_interlocks now)"

definition test_missing_token :: "loaded_evaluator \<Rightarrow> (bytes \<Rightarrow> bytes) \<Rightarrow> bytes \<Rightarrow> u64 \<Rightarrow> GateOResult" where
  "test_missing_token ev sign pub now = fst (ev (signed_test_command sign False pub now) zero_sender clear_interlocks now)"

definition test_bad_signature :: "loaded_evaluator \<Rightarrow> (bytes \<Rightarrow> bytes) \<Rightarrow> bytes \<Rightarrow> u64 \<Rightarrow> GateOResult" where
  "test_bad_signature ev sign pub now =
     (let cmd = signed_test_command sign True pub now;
          env = ev_envelope cmd;
          cmd = cmd\<lparr>ev_envelope := env\<lparr>ev_payload := (ev_payload env)[10 := 0xFF]\<rparr>\<rparr>
      in fst (ev cmd zero_sender clear_interlocks now))"

definition test_replay :: "loaded_evaluator \<Rightarrow> (bytes \<Rightarrow> bytes) \<Rightarrow> bytes \<Rightarrow> u64 \<Rightarrow> GateOResult" where
  "test_replay ev sign pub now =
     fst (ev (signed_test_command sign True pub now) (zero_sender\<lparr>used := True, last_sequence := 1\<rparr>) clear_interlocks now)"

text \<open>\<open>test_time_anomaly\<close> of \<open>g0_adversarial.py\<close> fills the 512 bytes of a command by hand.\<close>

definition sign_envelope :: "(bytes \<Rightarrow> bytes) \<Rightarrow> bytes \<Rightarrow> bytes" where
  "sign_envelope sign cmd = slice_assign 0 64 (sign (field_at 64 448 cmd)) cmd"

definition test_time_anomaly :: "loaded_evaluator \<Rightarrow> (bytes \<Rightarrow> bytes) \<Rightarrow> bytes \<Rightarrow> GateOResult" where
  "test_time_anomaly ev sign pub =
     (let cmd = replicate 512 0;
          cmd = slice_assign 92 96 (le_bytes 4 (0xDEADBEEF :: u32)) cmd;
          cmd = slice_assign 96 128 pub cmd;
          cmd = slice_assign 68 76 (le_bytes 8 (1 :: u64)) cmd;
          cmd = slice_assign 76 84 (le_bytes 8 (2000000000 :: u64)) cmd;
          cmd = slice_assign 84 92 (le_bytes 8 (1000000000 :: u64)) cmd;
          cmd = sign_envelope sign cmd
      in fst (ev (evidence_command_of_bytes cmd) zero_sender clear_interlocks 1500000000))"

section \<open>What the evaluator of the evidence directory says\<close>

text \<open>It takes the first 32 bytes of the payload for the key.\<close>

lemma evidence_fresh:
  "fst (evidence_evaluate_command sim vf cmd zero_sender clear_interlocks now) =
     (if ev_sequence (ev_envelope cmd) = 0 then GO_SEQUENCE_INVALID
      else if now < ev_issued_at_ns (ev_envelope cmd) \<or> ev_expires_at_ns (ev_envelope cmd) < now then GO_EXPIRED
      else if vf (ev_signature cmd) (evidence_envelope_bytes (ev_envelope cmd)) (take 32 (ev_payload (ev_envelope cmd))) \<noteq> 0
      then GO_SIGNATURE_INVALID else GO_OK)"
  by (simp add: evidence_evaluate_command_def evidence_tripped_def clear_interlocks_def zero_sender_def Let_def)

lemma no_wrap_u64:
  fixes now :: u64
  assumes "unat now + k < 2 ^ 64"
  shows "\<not> now + of_nat k < now" "unat (now + of_nat k) = unat now + k"
proof -
  have "unat (of_nat k :: u64) = k" using assms by (simp add: unsigned_of_nat take_bit_nat_eq_self_iff)
  then show sum: "unat (now + of_nat k) = unat now + k" using assms by (simp add: unat_word_ariths)
  show "\<not> now + of_nat k < now" using sum by (simp add: word_less_nat_alt)
qed

lemma token_key:
  assumes "length pub = 32" and "length tok = 4" and "take 4 pub \<noteq> tok"
  shows "take 32 (tok @ pub @ rest) \<noteq> pub"
proof
  assume "take 32 (tok @ pub @ rest) = pub"
  then have "take 4 (take 32 (tok @ pub @ rest)) = take 4 pub" by simp
  with assms(2,3) show False by simp
qed

text \<open>\<open>gate0_signed_test.py\<close> runs against an evaluator it was not written for. It puts the key behind a token, the
  evaluator of the evidence directory, the only one in the tree with these structures, takes it from the front: the
  good command is refused, and of the three tests the one for the missing token fails.\<close>

theorem signed_test_verdicts:
  assumes "length pub = 32" and "unat now + 5000000000 < 2 ^ 64"
    and "\<And>m m' k. k \<noteq> pub \<Longrightarrow> vf (sign m) m' k \<noteq> 0"
    and "take 4 pub \<noteq> le_bytes 4 (0xDEADBEEF :: u32)" and "take 4 pub \<noteq> replicate 4 0"
  shows "let ev = evidence_evaluate_command sim vf in
    [signed_test_main ev sign pub now, test_missing_token ev sign pub now, test_bad_signature ev sign pub now,
     test_replay ev sign pub now] =
    [GO_SIGNATURE_INVALID, GO_SIGNATURE_INVALID, GO_SIGNATURE_INVALID, GO_SEQUENCE_INVALID]"
proof -
  let ?tok = "\<lambda>token. if token then le_bytes 4 (0xDEADBEEF :: u32) else replicate 4 0"
  have key: "vf (sign m) m' (take 32 (?tok token @ pub @ rest)) \<noteq> 0" for m m' token rest
    by (rule assms(3), rule token_key) (use assms(1,4,5) in auto)
  have bad: "take 32 ((?tok True @ pub @ rest)[10 := b]) \<noteq> pub" for rest :: bytes and b
  proof
    assume "take 32 ((?tok True @ pub @ rest)[10 := b]) = pub"
    then have "take 4 (take 32 ((?tok True @ pub @ rest)[10 := b])) = take 4 pub" by simp
    with assms(4) show False by (simp add: list_update_append)
  qed
  have time: "\<not> now + 5000000000 < now" using no_wrap_u64(1) [of now 5000000000] assms(2) by simp
  show ?thesis
    unfolding Let_def list.inject
  proof (intro conjI refl)
    show "signed_test_main (evidence_evaluate_command sim vf) sign pub now = GO_SIGNATURE_INVALID"
      using key [where token = True and rest = "replicate 220 0"] time assms(1)
      by (simp add: signed_test_main_def evidence_fresh signed_test_command_def signed_test_envelope_def Let_def)
    show "test_missing_token (evidence_evaluate_command sim vf) sign pub now = GO_SIGNATURE_INVALID"
      using key [where token = False and rest = "replicate 220 0"] time assms(1)
      by (simp add: test_missing_token_def evidence_fresh signed_test_command_def signed_test_envelope_def Let_def)
    show "test_bad_signature (evidence_evaluate_command sim vf) sign pub now = GO_SIGNATURE_INVALID"
      using assms(3) [OF bad [of "replicate 220 0"]] time assms(1)
      by (simp add: test_bad_signature_def evidence_fresh signed_test_command_def signed_test_envelope_def Let_def)
    show "test_replay (evidence_evaluate_command sim vf) sign pub now = GO_SEQUENCE_INVALID"
      by (simp add: test_replay_def evidence_evaluate_command_def evidence_tripped_def clear_interlocks_def
          signed_test_command_def signed_test_envelope_def Let_def)
  qed
qed

theorem signed_test_verdicts_witness:
  "let ev = evidence_evaluate_command False demo_verify; sign = (\<lambda>m. replicate 64 9); pub = replicate 32 9 in
    [signed_test_main ev sign pub 7, test_missing_token ev sign pub 7, test_bad_signature ev sign pub 7,
     test_replay ev sign pub 7] =
    [GO_SIGNATURE_INVALID, GO_SIGNATURE_INVALID, GO_SIGNATURE_INVALID, GO_SEQUENCE_INVALID]"
proof -
  have "le_bytes 4 (0xDEADBEEF :: u32) ! 0 \<noteq> 9" by (simp add: nth_le_bytes)
  then have "replicate 4 9 \<noteq> le_bytes 4 (0xDEADBEEF :: u32)" by (metis nth_replicate zero_less_numeral)
  then show ?thesis
    unfolding Let_def
    by (intro signed_test_verdicts [unfolded Let_def]) (simp_all add: demo_verify_def)
qed

text \<open>The anomaly of \<open>g0_adversarial.py\<close>, issued after it expires, is found before the signature is looked at.\<close>

theorem time_anomaly_verdict:
  assumes "length pub = 32" and "\<And>m. length (sign m) = 64"
  shows "test_time_anomaly (evidence_evaluate_command sim vf) sign pub = GO_EXPIRED"
proof -
  let ?cmd = "replicate 68 0 @ le_bytes 8 (1 :: u64) @ le_bytes 8 (2000000000 :: u64) @ le_bytes 8 (1000000000 :: u64) @
    le_bytes 4 (0xDEADBEEF :: u32) @ pub @ replicate 384 0"
  have "slice_assign 84 92 (le_bytes 8 (1000000000 :: u64)) (slice_assign 76 84 (le_bytes 8 (2000000000 :: u64))
      (slice_assign 68 76 (le_bytes 8 (1 :: u64)) (slice_assign 96 128 pub
        (slice_assign 92 96 (le_bytes 4 (0xDEADBEEF :: u32)) (replicate 512 0))))) = ?cmd"
    using assms(1) by (simp add: slice_assign_def drop_Cons')
  moreover have "sign_envelope sign ?cmd = sign (field_at 64 448 ?cmd) @ replicate 4 0 @ drop 68 ?cmd"
    using assms(2) by (simp add: sign_envelope_def slice_assign_def)
  moreover have "field_at 68 8 (sign m @ replicate 4 0 @ drop 68 ?cmd) = le_bytes 8 (1 :: u64)"
    "field_at 76 8 (sign m @ replicate 4 0 @ drop 68 ?cmd) = le_bytes 8 (2000000000 :: u64)" for m
    using assms(2) by (simp_all add: codec)
  ultimately show ?thesis
    unfolding test_time_anomaly_def Let_def
    by (simp add: evidence_fresh evidence_command_of_bytes_def codec)
qed

text \<open>Writing behind what has been written.\<close>

lemma pack_into_next:
  assumes "pack_item f (Py_int v) = Some bs" and "off = length xs" and "fmt_size f \<le> n"
  shows "pack_into f off v (xs @ replicate n 0) = Some ((xs @ bs) @ replicate (n - fmt_size f) 0)"
  using assms pack_item_length [OF assms(1)] by (simp add: pack_into_def slice_assign_def)

lemma client_py_packet_bytes:
  assumes "length pk = 32" and "0 \<le> now" and "now + 10000000000 < 2 ^ 64"
  shows "client_py_packet sign pk now =
    (let env = evidence_envelope_bytes \<lparr>ev_version = 1, ev_sequence = 1, ev_issued_at_ns = word_of_int now,
           ev_expires_at_ns = word_of_int (now + 10000000000), ev_payload = pk @ 1 # replicate 223 0,
           ev_required_authority = 1, ev_device = zero_device\<rparr>
     in Some (take 64 (sign env) @ env))"
proof -
  define i e :: u64 where "i = word_of_int now" and "e = word_of_int (now + 10000000000)"
  let ?x1 = "le_bytes 4 (1 :: u32)"
  let ?x2 = "?x1 @ le_bytes 8 (1 :: u64)"
  let ?x3 = "?x2 @ le_bytes 8 i"
  let ?x4 = "?x3 @ le_bytes 8 e"
  let ?x5 = "?x4 @ pk @ 1 # replicate 223 0"
  have packed: "pack_item Fmt_I (Py_int 1) = Some (le_bytes 4 (1 :: u32))"
    "pack_item Fmt_Q (Py_int 1) = Some (le_bytes 8 (1 :: u64))" "pack_item Fmt_Q (Py_int now) = Some (le_bytes 8 i)"
    "pack_item Fmt_Q (Py_int (now + 10000000000)) = Some (le_bytes 8 e)"
    using assms(2,3) by (simp_all add: in_range_def i_def e_def)
  have head: "pack_into Fmt_I 0 1 (replicate 448 0) = Some (?x1 @ replicate 444 0)"
    "pack_into Fmt_Q 4 1 (?x1 @ replicate 444 0) = Some (?x2 @ replicate 436 0)"
    "pack_into Fmt_Q 12 now (?x2 @ replicate 436 0) = Some (?x3 @ replicate 428 0)"
    "pack_into Fmt_Q 20 (now + 10000000000) (?x3 @ replicate 428 0) = Some (?x4 @ replicate 420 0)"
    "pack_into Fmt_I 284 1 (?x5 @ replicate 164 0) = Some ((?x5 @ le_bytes 4 (1 :: u32)) @ replicate 160 0)"
    using pack_into_next [OF packed(1), of 0 "[]" 448] pack_into_next [OF packed(2), of 4 ?x1 444]
      pack_into_next [OF packed(3), of 12 ?x2 436] pack_into_next [OF packed(4), of 20 ?x3 428]
      pack_into_next [OF packed(1), of 284 ?x5 164] assms(1) by simp_all
  have rest: "replicate 388 (0 :: u8) = 0 # replicate 223 0 @ replicate 164 0"
    by (simp flip: replicate_Suc replicate_add)
  have key: "(slice_assign 28 60 pk (?x4 @ replicate 420 0))[60 := 1] = ?x5 @ replicate 164 0"
    using assms(1) by (simp add: slice_assign_def list_update_append) (simp add: rest)
  have zeros: "replicate 160 (0 :: u8) = replicate 32 0 @ replicate 32 0 @ replicate 32 0 @ replicate 64 0"
    by (simp flip: replicate_add)
  show ?thesis
    unfolding client_py_packet_def Let_def i_def [symmetric] e_def [symmetric]
    by (simp only: head key bind.bind_lunit option.simps)
      (simp add: evidence_envelope_bytes_def device_bytes_def zero_device_def zeros)
qed

text \<open>\<open>gate0_client.py\<close> is the program that fits: a fresh evaluator of the evidence directory enrols the key and
  accepts the command, if the signature scheme verifies what it signs.\<close>

theorem client_py_accepted:
  assumes "length pk = 32" and "0 \<le> now" and "now + 10000000000 < 2 ^ 64"
    and "\<And>m. length (sign m) = 64" and "\<And>m. vf (sign m) m pk = 0"
    and "now \<le> uint t" and "uint t \<le> now + 10000000000"
  shows "\<exists>packet. client_py_packet sign pk now = Some packet \<and> length packet = 512 \<and>
    evidence_evaluate_command sim vf (evidence_command_of_bytes packet) zero_sender clear_interlocks t =
      (GO_OK, \<lparr>public_key = pk, last_sequence = 1, used = True\<rparr>, clear_interlocks)"
proof -
  let ?env = "\<lparr>ev_version = 1, ev_sequence = 1, ev_issued_at_ns = word_of_int now,
    ev_expires_at_ns = word_of_int (now + 10000000000), ev_payload = pk @ 1 # replicate 223 0,
    ev_required_authority = 1, ev_device = zero_device\<rparr>"
  let ?c = "\<lparr>ev_signature = sign (evidence_envelope_bytes ?env), ev_envelope = ?env\<rparr>"
  have wf: "wf_evidence ?c"
    using assms(1,4) by (simp add: wf_evidence_def wf_device_def zero_device_def)
  have packet: "client_py_packet sign pk now = Some (evidence_command_bytes ?c)"
    using client_py_packet_bytes [OF assms(1-3), of sign] assms(4) by (simp add: evidence_command_bytes_def Let_def)
  have "uint (word_of_int n :: u64) = n" if "0 \<le> n" "n < 2 ^ 64" for n
    using that by (simp add: uint_word_of_int_eq take_bit_int_eq_self_iff)
  then have time: "\<not> t < word_of_int now" "\<not> word_of_int (now + 10000000000) < t"
    using assms(2,3,6,7) by (simp_all add: word_less_def del: of_int_add)
  have "evidence_evaluate_command sim vf ?c zero_sender clear_interlocks t =
      (GO_OK, \<lparr>public_key = pk, last_sequence = 1, used = True\<rparr>, clear_interlocks)"
    using time assms(1,5)
    by (simp add: evidence_evaluate_command_def evidence_tripped_def clear_interlocks_def zero_sender_def Let_def
        del: of_int_add)
  with packet evidence_frame_length [OF wf] evidence_frame_decodes [OF wf] show ?thesis by simp
qed

theorem client_py_accepted_witness:
  "\<exists>packet. client_py_packet (\<lambda>m. replicate 64 9) (replicate 32 9) 7 = Some packet \<and> length packet = 512 \<and>
    evidence_evaluate_command False demo_verify (evidence_command_of_bytes packet) zero_sender clear_interlocks 8 =
      (GO_OK, \<lparr>public_key = replicate 32 9, last_sequence = 1, used = True\<rparr>, clear_interlocks)"
  by (rule client_py_accepted) (simp_all add: demo_verify_def)

section \<open>The programs that connect to a server\<close>

datatype py_exit = Returned | Raised

text \<open>\<open>print\<close> of a text; \<open>sendall\<close> is one call, which fails or sends everything; the bytes that \<open>recv\<close> returns; the text
  of an exception is a parameter.\<close>

definition py_print :: "string \<Rightarrow> 'a io \<Rightarrow> 'a io" where
  "py_print text m = Sys (Print (text @ newline)) (\<lambda>_. m)"

definition recv_bytes :: "sys_reply \<Rightarrow> bytes" where
  "recv_bytes r = take (nat (ret r)) (stored r)"

lemma recv_failed [simp]: "ret r < 0 \<Longrightarrow> recv_bytes r = []"
  by (simp add: recv_bytes_def)

text \<open>\<open>tests/test_three_tier.py\<close>; \<open>home\<close> is what \<open>~\<close> stands for.\<close>

definition daemon_path :: "string \<Rightarrow> string" where
  "daemon_path home = home @ ''/gate0/run/gate0.sock''"

definition three_tier_code_text :: "int \<Rightarrow> string" where
  "three_tier_code_text n = ''[+] Daemon Response Code: '' @ show_int n @ '' (G0_OK = 0)''"

definition success_text :: string where
  "success_text = ''[+] SUCCESS: Three-tier pipeline validated. Cryptographic enforcement passed, WAL hash-chain updated.''"

definition rejected_text :: "int \<Rightarrow> string" where
  "rejected_text n = ''[!] REJECTED: Executive returned error code '' @ show_int n"

definition three_tier_response :: "int \<Rightarrow> sys_reply \<Rightarrow> py_exit io" where
  "three_tier_response sock r =
     (let resp = recv_bytes r; close = Sys (Close sock) (\<lambda>_. Done Returned) in
      if resp = [] then py_print ''[-] No response received from executive daemon.'' close
      else if length resp \<noteq> 4 then Done Raised
      else let code = sint (le_word resp :: u32) in
        py_print (three_tier_code_text code)
          (if code = 0 then py_print success_text close else py_print (rejected_text code) close))"

definition three_tier_main :: "(bytes \<Rightarrow> bytes) \<Rightarrow> bytes \<Rightarrow> string \<Rightarrow> int \<Rightarrow> py_exit io" where
  "three_tier_main sign pk home now =
     py_print ''[+] Initializing libsodium...''
     (case three_tier_packet sign pk now of
        None \<Rightarrow> Done Raised
      | Some packet \<Rightarrow>
          py_print (''[+] Total payload assembled: '' @ decimal (length packet) @ '' bytes (Expected: 408 bytes)'')
          (py_print (''[+] Connecting to daemon socket at '' @ daemon_path home @ ''...'')
          (Sys (Socket AF_UNIX) (\<lambda>s. let sock = ret s in
           if sock < 0 then Done Raised else
           Sys (Connect sock (Unix_addr (daemon_path home))) (\<lambda>c.
           if ret c < 0 then Done Raised else
           py_print ''[+] Transmitting signed command packet...''
           (Sys (Send sock packet) (\<lambda>w.
            if ret w < 0 then Done Raised else
            Sys (Recv sock 4) (\<lambda>r.
            if ret r < 0 then Done Raised else three_tier_response sock r))))))))"

text \<open>\<open>tests/run_full_matrix.py\<close>: \<open>send_packet\<close> returns a number, or the text of the exception.\<close>

definition matrix_send :: "(sys_reply \<Rightarrow> string) \<Rightarrow> string \<Rightarrow> bytes \<Rightarrow> (int + string) io" where
  "matrix_send exn home packet =
     Sys (Socket AF_UNIX) (\<lambda>s. let sock = ret s in
     if sock < 0 then Done (Inr (exn s)) else
     Sys (Connect sock (Unix_addr (daemon_path home))) (\<lambda>c.
     if ret c < 0 then Done (Inr (exn c)) else
     Sys (Send sock packet) (\<lambda>w.
     if ret w < 0 then Done (Inr (exn w)) else
     Sys (Recv sock 4) (\<lambda>r.
     if ret r < 0 then Done (Inr (exn r)) else
     Sys (Close sock) (\<lambda>_.
     Done (Inl (if length (recv_bytes r) = 4 then uint (le_word (recv_bytes r) :: u32) else -1)))))))"

definition matrix_line :: "string \<Rightarrow> string \<Rightarrow> int + string \<Rightarrow> string" where
  "matrix_line test expected r =
     ''[TEST] '' @ test @ '' -> Result: '' @ case_sum show_int (\<lambda>t. t) r @ '' (Expected: '' @ expected @ '')''"

text \<open>A test is its name, its packet and the text that says what is expected; the results are the value of the run.\<close>

primrec matrix_tests ::
    "(sys_reply \<Rightarrow> string) \<Rightarrow> string \<Rightarrow> (string \<times> bytes option \<times> string) list \<Rightarrow> (int + string) list option io" where
  "matrix_tests exn home [] = Done (Some [])"
| "matrix_tests exn home (t # ts) =
     (case fst (snd t) of
        None \<Rightarrow> Done None
      | Some packet \<Rightarrow>
          io_bind (matrix_send exn home packet) (\<lambda>r.
          py_print (matrix_line (fst t) (snd (snd t)) r)
          (io_bind (matrix_tests exn home ts) (\<lambda>rs. Done (map_option (Cons r) rs)))))"

definition matrix_main ::
    "(sys_reply \<Rightarrow> string) \<Rightarrow> (bytes \<Rightarrow> bytes) \<Rightarrow> bytes \<Rightarrow> string \<Rightarrow> (nat \<Rightarrow> int) \<Rightarrow> (int + string) list option io" where
  "matrix_main exn sign pk home clock =
     py_print ''[*] Running Full Matrix Execution...''
     (matrix_tests exn home
       [(''Control Valid (Seq 1)'', matrix_packet sign pk (clock 0) 1 False 0, ''0''),
        (''Expired Timestamp'', matrix_packet sign pk (clock 1) 2 True 0, ''2''),
        (''Truncated Packet'', matrix_packet sign pk (clock 2) 3 False 64, ''Closed/Error'')])"

text \<open>\<open>gate0_client.py\<close>: the \<open>with\<close> block closes the socket, and every exception inside is printed.\<close>

definition client_py_send :: "(sys_reply \<Rightarrow> string) \<Rightarrow> bytes \<Rightarrow> py_exit io" where
  "client_py_send exn packet =
     (let failed = (\<lambda>r. py_print (''[-] Error: '' @ exn r) (Done Returned)) in
      Sys (Socket AF_INET) (\<lambda>s. let sock = ret s in
      if sock < 0 then failed s else
      Sys (Connect sock (Inet_addr 0x7F000001 9090)) (\<lambda>c.
      if ret c < 0 then Sys (Close sock) (\<lambda>_. failed c) else
      Sys (Send sock packet) (\<lambda>w.
      if ret w < 0 then Sys (Close sock) (\<lambda>_. failed w) else
      py_print ''[+] Packet sent. Waiting for response...''
      (Sys (Recv sock 4) (\<lambda>r.
       if ret r < 0 then Sys (Close sock) (\<lambda>_. failed r) else
       let close = Sys (Close sock) (\<lambda>_. Done Returned) in
       if recv_bytes r = [] then close
       else py_print (''[+] Daemon Response Code: '' @ show_int (uint (le_word (recv_bytes r) :: u32))) close))))))"

definition client_py_main :: "(sys_reply \<Rightarrow> string) \<Rightarrow> (bytes \<Rightarrow> bytes) \<Rightarrow> bytes \<Rightarrow> int \<Rightarrow> py_exit io" where
  "client_py_main exn sign pk now =
     py_print (''[+] Generated Public Key: '' @ concat (map (\<lambda>b. hex 2 (unat b)) pk))
     (case client_py_packet sign pk now of
        None \<Rightarrow> Done Raised
      | Some pkt \<Rightarrow>
          if length pkt = 512 then client_py_send exn pkt
          else py_print (''[-] Packet size error: '' @ decimal (length pkt)) (Done Returned))"

text \<open>\<open>gate0_bridge.py\<close>, after whose \<open>struct.pack\<close> the rest of \<open>main\<close> would be.\<close>

definition bridge_socket_path :: string where
  "bridge_socket_path = ''/data/data/com.termux/files/home/gate0/kernel.sock''"

definition bridge_main :: "(bytes \<Rightarrow> bytes) \<Rightarrow> bytes \<Rightarrow> bytes \<Rightarrow> int \<Rightarrow> bool \<Rightarrow> py_exit io" where
  "bridge_main sign pk nonce now exists =
     py_print ''[*] Initializing Python-to-C Gate Zero IPC Bridge...''
     (case bridge_envelope nonce now of
        None \<Rightarrow> Done Raised
      | Some env \<Rightarrow>
          if \<not> exists then
            py_print (''[-] Error: Socket not found at '' @ bridge_socket_path @ ''. Is gate0_daemon running?'') (Done Returned)
          else
            Sys (Socket AF_UNIX) (\<lambda>s. let client = ret s in
            if client < 0 then Done Raised else
            Sys (Connect client (Unix_addr bridge_socket_path)) (\<lambda>c.
            if ret c < 0 then Done Raised else
            Sys (Send client (env @ sign env @ pk)) (\<lambda>w.
            if ret w < 0 then Done Raised else
            Sys (Recv client 4) (\<lambda>r.
            if ret r < 0 then Done Raised else
            Sys (Close client) (\<lambda>_.
            if length (recv_bytes r) = 4 then
              py_print (''[+] KERNEL IPC RESPONSE: Code '' @ show_int (sint (le_word (recv_bytes r) :: u32)) @
                '' ('' @ [CHR 0x27, CHR ''0'', CHR 0x27] @ '' = G0_OK Authorized)'') (Done Returned)
            else py_print ''[-] Error: Malformed response received from C11 daemon.'' (Done Returned)))))))"

section \<open>Against the server of the evidence directory\<close>

text \<open>The only bytes that server ever writes are the four of the result 0.\<close>

definition writes_zero :: "sys_call \<Rightarrow> bool" where
  "writes_zero c \<longleftrightarrow> (case c of Write _ bs \<Rightarrow> bs = le_bytes 4 (0 :: u32) | _ \<Rightarrow> True)"

lemma evidence_main_writes_zero: "always writes_zero (evidence_main n)"
  unfolding evidence_main_def exec_setup_def Let_def
  by (auto simp: writes_zero_def evidence_round_def exec_cleanup_def Let_def intro!: always_bind always_loop split: sum.split)

lemma evidence_writes: "w \<in> set (writes (fst (run_io (evidence_main n) rs))) \<Longrightarrow> w = replicate 4 0"
  using always_sound [OF evidence_main_writes_zero, of _ _ n rs]
  by (fastforce simp: writes_def writes_zero_def numeral_eq_Suc split: sys_call.splits)

text \<open>What one program receives comes, perhaps cut short, from a reply that the other has written.\<close>

definition served_by :: "event list \<Rightarrow> event list \<Rightarrow> bool" where
  "served_by es es' \<longleftrightarrow>
     list_all (\<lambda>(c, r). case c of Recv _ _ \<Rightarrow> 0 < ret r \<longrightarrow> (\<exists>w \<in> set (writes es'). prefix (recv_bytes r) w) | _ \<Rightarrow> True) es"

lemma served_by_simps [simp]:
  "served_by [] es'"
  "served_by ((c, r) # es) es' \<longleftrightarrow> (case c of Recv _ _ \<Rightarrow> 0 < ret r \<longrightarrow> (\<exists>w \<in> set (writes es'). prefix (recv_bytes r) w) | _ \<Rightarrow> True) \<and>
     served_by es es'"
  "served_by (es1 @ es2) es' \<longleftrightarrow> served_by es1 es' \<and> served_by es2 es'"
  by (simp_all add: served_by_def)

abbreviation evidence_run :: "nat \<Rightarrow> sys_reply list \<Rightarrow> event list" where
  "evidence_run n rs \<equiv> fst (run_io (evidence_main n) rs)"

lemma zero_reply:
  assumes "\<exists>w \<in> set (writes (evidence_run n rs)). prefix bs w" and "length bs = 4"
  shows "bs = replicate 4 0"
proof -
  obtain w where "prefix bs w" "w = replicate 4 0" using assms(1) evidence_writes by blast
  with assms(2) show ?thesis by (auto simp: prefix_def append_eq_conv_conj dest: sym [of "replicate 4 0"])
qed

lemma le_word_zeros [simp]: "le_word (replicate n 0) = 0"
  by (induction n) simp_all

text \<open>The answers that \<open>served_by\<close> allows.\<close>

definition zero_answer :: "event \<Rightarrow> bool" where
  "zero_answer e \<longleftrightarrow> (case fst e of Recv _ _ \<Rightarrow> length (recv_bytes (snd e)) = 4 \<longrightarrow> recv_bytes (snd e) = replicate 4 0 | _ \<Rightarrow> True)"

lemma served_zero: "served_by es (evidence_run n rd) \<Longrightarrow> list_all zero_answer es"
proof (induction es)
  case (Cons e es)
  obtain c r where e: "e = (c, r)" by fastforce
  have "0 < ret r" if "length (recv_bytes r) = 4" using that by (cases "0 < ret r") (auto simp: recv_bytes_def)
  then have "zero_answer e" using Cons.prems zero_reply by (auto simp: zero_answer_def e split: sys_call.splits)
  with Cons e show ?case by simp
qed simp

section \<open>What the tests report\<close>

definition says :: "event list \<Rightarrow> string \<Rightarrow> bool" where
  "says es text \<longleftrightarrow> list_ex (\<lambda>e. fst e = Print (text @ newline)) es"

definition answered :: "event list \<Rightarrow> bool" where
  "answered es \<longleftrightarrow> list_ex (\<lambda>e. case fst e of Recv _ _ \<Rightarrow> length (recv_bytes (snd e)) = 4 | _ \<Rightarrow> False) es"

lemma says_simps [simp]: "\<not> says [] t" "says (e # es) t \<longleftrightarrow> fst e = Print (t @ newline) \<or> says es t"
  "says (es @ es') t \<longleftrightarrow> says es t \<or> says es' t"
  by (auto simp: says_def)

lemma answered_simps [simp]: "\<not> answered []" "answered (e # es) \<longleftrightarrow> (case fst e of Recv _ _ \<Rightarrow> length (recv_bytes (snd e)) = 4 | _ \<Rightarrow> False) \<or> answered es"
  "answered (es @ es') \<longleftrightarrow> answered es \<or> answered es'"
  by (auto simp: answered_def)

lemma three_tier_ensures:
  "ensures zero_answer (three_tier_main sign pk home now) [] (\<lambda>es x. (\<forall>c. \<not> says es (rejected_text c)) \<and>
     (answered es \<longrightarrow> x = Returned \<and> says es (three_tier_code_text 0) \<and> says es success_text))"
  by (auto simp: three_tier_main_def three_tier_response_def py_print_def Let_def rejected_text_def zero_answer_def
        three_tier_code_text_def success_text_def
      split: option.split)

text \<open>C33: the integration test cannot fail. Run against the server of the evidence directory, \<open>test_three_tier.py\<close> never
  reports a rejection, and whenever it gets a complete reply it announces that the signature was enforced and the chain
  was updated, whatever the signature, the key and the time are.\<close>

theorem three_tier_passes_anything:
  assumes "run_io (three_tier_main sign pk home now) rt = (es, Some (x, rt'))"
    and "served_by es (evidence_run n rd)"
  shows "(\<forall>c. \<not> says es (rejected_text c)) \<and>
     (answered es \<longrightarrow> x = Returned \<and> says es (three_tier_code_text 0) \<and> says es success_text)"
  using ensures_sound [OF three_tier_ensures assms(1) served_zero [OF assms(2)]] by simp

definition demo_server_answers :: "sys_reply list" where
  "demo_server_answers = map answer [0, 0, 3, 0, 0, 0, 0, 4, 0, 408, 0, 4, 0, 0]"

definition demo_test_answers :: "sys_reply list" where
  "demo_test_answers = map answer [0, 0, 0, 3, 0, 0, 408] @ (answer 4)\<lparr>stored := le_bytes 4 (0 :: u32)\<rparr> # map answer [0, 0, 0]"

lemma demo_server_writes: "le_bytes 4 (0 :: u32) \<in> set (writes (evidence_run 1 demo_server_answers))"
  by (simp add: demo_server_answers_def evidence_main_def exec_setup_def evidence_round_def Let_def run_io_steps call_simps
      cong: io_congs del: run_io.simps(2))

text \<open>A test with an unsigned packet.\<close>

theorem three_tier_passes_anything_witness:
  "says (fst (run_io (three_tier_main (\<lambda>m. replicate 64 0) (replicate 32 0) ''/home'' 5) demo_test_answers)) success_text"
proof -
  let ?m = "three_tier_main (\<lambda>m. replicate 64 0) (replicate 32 0) ''/home'' 5"
  let ?r = "run_io ?m demo_test_answers"
  obtain packet where packet: "three_tier_packet (\<lambda>m. replicate 64 0) (replicate 32 0) 5 = Some packet"
    by (simp add: three_tier_packet_def in_range_def)
  have code: "sint (le_word (le_bytes 4 (0 :: u32)) :: u32) = 0" "le_bytes 4 (0 :: u32) \<noteq> []"
    by (simp_all add: le_word_le_bytes) (simp flip: length_0_conv)
  have ran: "snd ?r = Some (Returned, [])" "answered (fst ?r)"
    "\<forall>w. le_bytes 4 (0 :: u32) \<in> set (writes w) \<longrightarrow> served_by (fst ?r) w"
    by (auto simp: three_tier_main_def packet three_tier_response_def py_print_def code
        demo_test_answers_def recv_bytes_def Let_def run_io_steps call_simps cong: io_congs simp del: run_io.simps(2))
  obtain es where es: "?r = (es, Some (Returned, []))" using ran(1) by (metis prod.collapse)
  have "served_by es (evidence_run 1 demo_server_answers)" using ran(3) demo_server_writes by (simp add: es)
  from three_tier_passes_anything [OF es this] ran(2) show ?thesis by (simp add: es)
qed

definition unrefused :: "int + string \<Rightarrow> bool" where
  "unrefused r \<longleftrightarrow> (case r of Inl n \<Rightarrow> n = 0 \<or> n = -1 | Inr _ \<Rightarrow> True)"

lemma matrix_send_ensures: "ensures zero_answer (matrix_send exn home packet) es (\<lambda>es r. unrefused r)"
  by (auto simp: matrix_send_def Let_def unrefused_def zero_answer_def)

lemma matrix_tests_ensures:
  "ensures zero_answer (matrix_tests exn home ts) es
     (\<lambda>es x. case x of None \<Rightarrow> True | Some rs \<Rightarrow> length rs = length ts \<and> list_all unrefused rs)"
proof (induction ts arbitrary: es)
  case (Cons t ts)
  show ?case
  proof (cases "fst (snd t)")
    case (Some packet)
    have "ensures zero_answer (matrix_send exn home packet) es (\<lambda>es r. unrefused r)" by (rule matrix_send_ensures)
    then show ?thesis unfolding matrix_tests.simps Some option.case ensures_bind
      by (rule ensures_mono) (auto simp: py_print_def intro!: ensures_mono [OF Cons.IH] split: option.splits)
  qed simp
qed simp

text \<open>the matrix test never sees a refusal either: a complete reply is 0 for the expired and for the truncated packet
  as for the good one.\<close>

theorem matrix_never_refused:
  assumes "run_io (matrix_main exn sign pk home clock) rt = (es, Some (Some rs, rt'))"
    and "served_by es (evidence_run n rd)"
  shows "length rs = 3 \<and> list_all unrefused rs"
proof -
  have "ensures zero_answer (matrix_main exn sign pk home clock) []
      (\<lambda>es x. case x of None \<Rightarrow> True | Some rs \<Rightarrow> length rs = 3 \<and> list_all unrefused rs)"
    unfolding matrix_main_def py_print_def ensures.simps
    by (intro allI impI, rule ensures_mono [OF matrix_tests_ensures]) (simp split: option.splits)
  from ensures_sound [OF this assms(1) served_zero [OF assms(2)]] show ?thesis by simp
qed

text \<open>the bridge never gets to the socket: its \<open>struct.pack\<close> has eleven values for a format of ten items, so
  after the first line of output it raises an exception, whatever the keys, the time and the file system are.\<close>

theorem bridge_never_connects:
  "run_io (bridge_main sign pk nonce now exists) rs =
     (case rs of
        [] \<Rightarrow> ([], None)
      | r # rs \<Rightarrow> ([(Print (''[*] Initializing Python-to-C Gate Zero IPC Bridge...'' @ newline), r)], Some (Raised, rs)))"
proof -
  have "bridge_envelope nonce now = None" by (simp add: bridge_envelope_def struct_pack_arity)
  then show ?thesis by (simp add: bridge_main_def py_print_def split: list.split)
qed

end
