(* ===== verification/Attrib_Threads.thy ===== *)
theory Attrib_Threads
  imports Attrib
begin

text \<open>
  \<open>attrib.c\<close> with \<open>attrib_record_event\<close> running on several threads at once, which is what its atomic counter and flag are
  for. Each access to the table is a step of its own, and the steps of the threads interleave (sequential consistency); the comparison
  and the copy of a fingerprint, and the entry in the event log, are taken as one step each. The number of actors, the
  loop over them and the bound of the array are where the threads meet. No file of the repository starts a thread: the
  threads are the environment, as many as there are.
\<close>

section \<open>The steps\<close>

text \<open>Where a thread is in \<open>find_or_create\<close> (with the counter it has loaded) and in the rest of
  \<open>attrib_record_event\<close>. \<open>Overrun\<close> is a read behind the array.\<close>

datatype report_point =
    Outside
  | Scan nat nat               \<comment> \<open>the counter loaded, the next index\<close>
  | Write_print nat | Write_seen nat | Write_unknown nat | Write_active nat | Add_count nat
  | Read_score nat | Write_score nat u32 | Write_tier nat | Write_log nat
  | Overrun

record reporter =
  at :: report_point
  arg_fp :: bytes
  arg_evt :: AttribEvent

definition update_actor :: "nat \<Rightarrow> (ActorRecord \<Rightarrow> ActorRecord) \<Rightarrow> AttribTable \<Rightarrow> AttribTable" where
  "update_actor i f t = t\<lparr>actors := (actors t)[i := f (actors t ! i)]\<rparr>"

definition raise_tier :: "ActorRecord \<Rightarrow> ActorRecord" where
  "raise_tier a =
     (if score a \<ge> 60 then a\<lparr>tier := TIER_PERSISTENT\<rparr>
      else if score a \<ge> 35 then a\<lparr>tier := TIER_ACTIVE\<rparr>
      else if score a \<ge> 15 then a\<lparr>tier := TIER_PROBING\<rparr>
      else a)"

definition log_event :: "AttribEvent \<Rightarrow> u64 \<Rightarrow> ActorRecord \<Rightarrow> ActorRecord" where
  "log_event evt now a = a\<lparr>event_log := (event_log a)[unat (event_count a mod ATTRIB_EVENT_LOG_SIZE) := (evt, now)],
     actor_last_seen_ns := now, event_count := event_count a + 1\<rparr>"

inductive report_step :: "AttribTable \<times> reporter \<Rightarrow> AttribTable \<times> reporter \<Rightarrow> bool" where
  enter: "at r = Outside \<Longrightarrow> report_step (t, r) (t, \<lparr>at = Scan (actor_count t) 0, arg_fp = f, arg_evt = e\<rparr>)"
| overrun: "at r = Scan n i \<Longrightarrow> i < n \<Longrightarrow> length (actors t) \<le> i \<Longrightarrow> report_step (t, r) (t, r\<lparr>at := Overrun\<rparr>)"
| same: "at r = Scan n i \<Longrightarrow> i < n \<Longrightarrow> i < length (actors t) \<Longrightarrow> fingerprint (actors t ! i) = arg_fp r \<Longrightarrow>
     report_step (t, r) (t, r\<lparr>at := Read_score i\<rparr>)"
| other: "at r = Scan n i \<Longrightarrow> i < n \<Longrightarrow> i < length (actors t) \<Longrightarrow> fingerprint (actors t ! i) \<noteq> arg_fp r \<Longrightarrow>
     report_step (t, r) (t, r\<lparr>at := Scan n (Suc i)\<rparr>)"
| full: "at r = Scan n n \<Longrightarrow> ATTRIB_MAX_ACTORS \<le> n \<Longrightarrow> report_step (t, r) (t, r\<lparr>at := Outside\<rparr>)"
| room: "at r = Scan n n \<Longrightarrow> n < ATTRIB_MAX_ACTORS \<Longrightarrow> report_step (t, r) (t, r\<lparr>at := Write_print n\<rparr>)"
| fingerprint: "at r = Write_print n \<Longrightarrow>
     report_step (t, r) (update_actor n (\<lambda>a. a\<lparr>fingerprint := arg_fp r\<rparr>) t, r\<lparr>at := Write_seen n\<rparr>)"
| first_seen: "at r = Write_seen n \<Longrightarrow>
     report_step (t, r) (update_actor n (\<lambda>a. a\<lparr>actor_first_seen_ns := now\<rparr>) t, r\<lparr>at := Write_unknown n\<rparr>)"
| unknown: "at r = Write_unknown n \<Longrightarrow>
     report_step (t, r) (update_actor n (\<lambda>a. a\<lparr>tier := TIER_UNKNOWN\<rparr>) t, r\<lparr>at := Write_active n\<rparr>)"
| active: "at r = Write_active n \<Longrightarrow>
     report_step (t, r) (update_actor n (\<lambda>a. a\<lparr>active := True\<rparr>) t, r\<lparr>at := Add_count n\<rparr>)"
| add: "at r = Add_count n \<Longrightarrow>
     report_step (t, r) (t\<lparr>actor_count := actor_count t + 1\<rparr>, r\<lparr>at := Read_score n\<rparr>)"
| load_score: "at r = Read_score n \<Longrightarrow> report_step (t, r) (t, r\<lparr>at := Write_score n (score (actors t ! n))\<rparr>)"
| store_score: "at r = Write_score n x \<Longrightarrow>
     report_step (t, r) (update_actor n (\<lambda>a. a\<lparr>score := x + score_for (arg_evt r)\<rparr>) t, r\<lparr>at := Write_tier n\<rparr>)"
| store_tier: "at r = Write_tier n \<Longrightarrow> report_step (t, r) (update_actor n raise_tier t, r\<lparr>at := Write_log n\<rparr>)"
| store_log: "at r = Write_log n \<Longrightarrow>
     report_step (t, r) (update_actor n (log_event (arg_evt r) now) t, r\<lparr>at := Outside\<rparr>)"

text \<open>The threads share the table; one of them makes a step.\<close>

record attrib_sys =
  table :: AttribTable
  reporters :: "reporter list"

inductive attrib_step :: "attrib_sys \<Rightarrow> attrib_sys \<Rightarrow> bool" where
  run: "j < length (reporters s) \<Longrightarrow> report_step (table s, reporters s ! j) (t, r) \<Longrightarrow>
     attrib_step s \<lparr>table = t, reporters = (reporters s)[j := r]\<rparr>"

definition attrib_threads :: "nat \<Rightarrow> attrib_sys" where
  "attrib_threads k =
     \<lparr>table = attrib_init, reporters = replicate k \<lparr>at = Outside, arg_fp = [], arg_evt = EVT_REPLAY\<rparr>\<rparr>"

inductive_cases attrib_stepE: "attrib_step s s'"

section \<open>How far the counter goes\<close>

text \<open>A thread that has loaded a counter below the limit and has not added to it yet.\<close>

definition pending :: "reporter \<Rightarrow> bool" where
  "pending r \<longleftrightarrow> (case at r of
       Scan n i \<Rightarrow> n < ATTRIB_MAX_ACTORS
     | Write_print n \<Rightarrow> True | Write_seen n \<Rightarrow> True | Write_unknown n \<Rightarrow> True | Write_active n \<Rightarrow> True | Add_count n \<Rightarrow> True
     | _ \<Rightarrow> False)"

definition pendings :: "reporter list \<Rightarrow> nat" where
  "pendings rs = length (filter pending rs)"

lemma pendings_update:
  "j < length rs \<Longrightarrow> pendings (rs[j := r]) + of_bool (pending (rs ! j)) = pendings rs + of_bool (pending r)"
proof (induction rs arbitrary: j)
  case (Cons x rs)
  then show ?case by (cases j) (auto simp: pendings_def)
qed simp

lemma pendings_le: "pendings rs \<le> length rs"
  by (simp add: pendings_def)

text \<open>What a thread knows of the counter.\<close>

definition reporter_ok :: "nat \<Rightarrow> reporter \<Rightarrow> bool" where
  "reporter_ok c r \<longleftrightarrow> (case at r of Scan n i \<Rightarrow> n \<le> c \<and> i \<le> n | Overrun \<Rightarrow> ATTRIB_MAX_ACTORS < c | _ \<Rightarrow> True)"

definition attrib_sys_ok :: "attrib_sys \<Rightarrow> bool" where
  "attrib_sys_ok s \<longleftrightarrow> length (actors (table s)) = ATTRIB_MAX_ACTORS \<and>
     actor_count (table s) + pendings (reporters s) < ATTRIB_MAX_ACTORS + length (reporters s) \<and>
     list_all (reporter_ok (actor_count (table s))) (reporters s)"

lemma report_step_ok:
  assumes "report_step (t, r) (t', r')" and "length (actors t) = ATTRIB_MAX_ACTORS" and "reporter_ok (actor_count t) r"
  shows "length (actors t') = ATTRIB_MAX_ACTORS \<and> actor_count t \<le> actor_count t' \<and> reporter_ok (actor_count t') r' \<and>
    (actor_count t' + of_bool (pending r') \<le> actor_count t + of_bool (pending r) \<or>
     t' = t \<and> \<not> pending r \<and> actor_count t < ATTRIB_MAX_ACTORS)"
  using assms by (cases rule: report_step.cases) (auto simp: update_actor_def reporter_ok_def pending_def)

lemma reporter_ok_mono: "reporter_ok c r \<Longrightarrow> c \<le> c' \<Longrightarrow> reporter_ok c' r"
  by (auto simp: reporter_ok_def split: report_point.splits)

lemma attrib_step_ok:
  assumes "attrib_step s s'" and "attrib_sys_ok s"
  shows "attrib_sys_ok s' \<and> length (reporters s') = length (reporters s)"
proof -
  from assms(1) obtain j t r where j: "j < length (reporters s)"
    and step: "report_step (table s, reporters s ! j) (t, r)" and s': "s' = \<lparr>table = t, reporters = (reporters s)[j := r]\<rparr>"
    by (cases rule: attrib_step.cases) auto
  let ?r = "reporters s ! j"
  have ok: "length (actors (table s)) = ATTRIB_MAX_ACTORS" "list_all (reporter_ok (actor_count (table s))) (reporters s)"
    "actor_count (table s) + pendings (reporters s) < ATTRIB_MAX_ACTORS + length (reporters s)"
    using assms(2) by (simp_all add: attrib_sys_ok_def)
  have "reporter_ok (actor_count (table s)) ?r" using ok(2) j by (simp add: list_all_length)
  note st = report_step_ok [OF step ok(1) this]
  have "list_all (reporter_ok (actor_count t)) ((reporters s)[j := r])"
    using ok(2) st j by (auto simp: list_all_length nth_list_update intro: reporter_ok_mono)
  moreover have "actor_count t + pendings ((reporters s)[j := r]) < ATTRIB_MAX_ACTORS + length (reporters s)"
    using st pendings_update [OF j, of r] ok(3) pendings_le [of "(reporters s)[j := r]"] by auto
  ultimately show ?thesis using st by (simp add: s' attrib_sys_ok_def)
qed

lemma attrib_threads_ok:
  assumes "attrib_step\<^sup>*\<^sup>* (attrib_threads k) s"
  shows "attrib_sys_ok s \<and> length (reporters s) = k"
  using assms
proof (induction rule: rtranclp_induct)
  case base
  show ?case
    by (simp add: attrib_sys_ok_def attrib_threads_def attrib_init_def ATTRIB_MAX_ACTORS_def pendings_def reporter_ok_def
        pending_def list_all_iff)
next
  case (step s s')
  then show ?case using attrib_step_ok by metis
qed

section \<open>One thread at a time\<close>

text \<open>A thread that is not interrupted makes the call that \<open>attrib_record_event\<close> describes.\<close>

lemma scan_on:
  assumes "i \<le> m" and "m \<le> n" and "m \<le> length (actors t)" and "\<forall>j. i \<le> j \<and> j < m \<longrightarrow> fingerprint (actors t ! j) \<noteq> arg_fp r"
  shows "report_step\<^sup>*\<^sup>* (t, r\<lparr>at := Scan n i\<rparr>) (t, r\<lparr>at := Scan n m\<rparr>)"
  using assms
proof (induction rule: dec_induct)
  case (step m)
  then have "report_step (t, r\<lparr>at := Scan n m\<rparr>) (t, r\<lparr>at := Scan n (Suc m)\<rparr>)"
    using report_step.other [of "r\<lparr>at := Scan n m\<rparr>" n m t] by simp
  with step show ?case by (simp add: rtranclp.rtrancl_into_rtrancl)
qed simp

lemma record_steps:
  assumes "n < length (actors t)"
  shows "report_step\<^sup>*\<^sup>* (t, r\<lparr>at := Read_score n\<rparr>)
    (update_actor n (record_on_actor (arg_evt r) now) t, r\<lparr>at := Outside\<rparr>)"
proof -
  let ?a = "actors t ! n"
  let ?t1 = "update_actor n (\<lambda>a. a\<lparr>score := score ?a + score_for (arg_evt r)\<rparr>) t"
  let ?t2 = "update_actor n raise_tier ?t1"
  let ?t3 = "update_actor n (log_event (arg_evt r) now) ?t2"
  have "?t3 = update_actor n (record_on_actor (arg_evt r) now) t"
    using assms by (simp add: update_actor_def record_on_actor_def raise_tier_def log_event_def Let_def)
  moreover have "report_step (t, r\<lparr>at := Read_score n\<rparr>) (t, r\<lparr>at := Write_score n (score ?a)\<rparr>)"
    "report_step (t, r\<lparr>at := Write_score n (score ?a)\<rparr>) (?t1, r\<lparr>at := Write_tier n\<rparr>)"
    "report_step (?t1, r\<lparr>at := Write_tier n\<rparr>) (?t2, r\<lparr>at := Write_log n\<rparr>)"
    "report_step (?t2, r\<lparr>at := Write_log n\<rparr>) (?t3, r\<lparr>at := Outside\<rparr>)"
    using report_step.load_score [of "r\<lparr>at := Read_score n\<rparr>" n t]
      report_step.store_score [of "r\<lparr>at := Write_score n (score ?a)\<rparr>" n "score ?a" t]
      report_step.store_tier [of "r\<lparr>at := Write_tier n\<rparr>" n ?t1] report_step.store_log [of "r\<lparr>at := Write_log n\<rparr>" n ?t2 now]
    by simp_all
  ultimately show ?thesis by (metis (no_types, lifting) converse_rtranclp_into_rtranclp rtranclp.rtrancl_refl)
qed

definition claim_actor :: "bytes \<Rightarrow> u64 \<Rightarrow> ActorRecord \<Rightarrow> ActorRecord" where
  "claim_actor fp now a = a\<lparr>fingerprint := fp, actor_first_seen_ns := now, tier := TIER_UNKNOWN, active := True\<rparr>"

lemma claim_steps:
  assumes "n < length (actors t)"
  shows "report_step\<^sup>*\<^sup>* (t, r\<lparr>at := Write_print n\<rparr>) (update_actor n (claim_actor (arg_fp r) now) t, r\<lparr>at := Add_count n\<rparr>)"
proof -
  let ?t1 = "update_actor n (\<lambda>a. a\<lparr>fingerprint := arg_fp r\<rparr>) t"
  let ?t2 = "update_actor n (\<lambda>a. a\<lparr>actor_first_seen_ns := now\<rparr>) ?t1"
  let ?t3 = "update_actor n (\<lambda>a. a\<lparr>tier := TIER_UNKNOWN\<rparr>) ?t2"
  let ?t4 = "update_actor n (\<lambda>a. a\<lparr>active := True\<rparr>) ?t3"
  have "?t4 = update_actor n (claim_actor (arg_fp r) now) t"
    using assms by (simp add: update_actor_def claim_actor_def)
  moreover have "report_step (t, r\<lparr>at := Write_print n\<rparr>) (?t1, r\<lparr>at := Write_seen n\<rparr>)"
    "report_step (?t1, r\<lparr>at := Write_seen n\<rparr>) (?t2, r\<lparr>at := Write_unknown n\<rparr>)"
    "report_step (?t2, r\<lparr>at := Write_unknown n\<rparr>) (?t3, r\<lparr>at := Write_active n\<rparr>)"
    "report_step (?t3, r\<lparr>at := Write_active n\<rparr>) (?t4, r\<lparr>at := Add_count n\<rparr>)"
    using report_step.fingerprint [of "r\<lparr>at := Write_print n\<rparr>" n t]
      report_step.first_seen [of "r\<lparr>at := Write_seen n\<rparr>" n ?t1 now]
      report_step.unknown [of "r\<lparr>at := Write_unknown n\<rparr>" n ?t2] report_step.active [of "r\<lparr>at := Write_active n\<rparr>" n ?t3]
    by simp_all
  ultimately show ?thesis by (metis (no_types, lifting) converse_rtranclp_into_rtranclp rtranclp.rtrancl_refl)
qed

abbreviation reporter_at :: "report_point \<Rightarrow> bytes \<Rightarrow> AttribEvent \<Rightarrow> reporter" where
  "reporter_at p fp evt \<equiv> \<lparr>at = p, arg_fp = fp, arg_evt = evt\<rparr>"

text \<open>A thread that finds no room below the counter it has loaded goes on to claim the cell at that index.\<close>

lemma unknown_steps:
  assumes "actor_count t \<le> length (actors t)" and "at r = Outside" and "find_actor fp t = None"
  shows "report_step\<^sup>*\<^sup>* (t, r) (t, reporter_at (Scan (actor_count t) (actor_count t)) fp evt)"
proof -
  let ?r = "reporter_at Outside fp evt" and ?n = "actor_count t"
  have "\<forall>j. 0 \<le> j \<and> j < ?n \<longrightarrow> fingerprint (actors t ! j) \<noteq> arg_fp ?r"
    using assms(1,3) by (simp add: find_actor_def find_index_None set_conv_nth) (metis nth_take)
  from scan_on [OF _ _ assms(1) this] have "report_step\<^sup>*\<^sup>* (t, reporter_at (Scan ?n 0) fp evt) (t, reporter_at (Scan ?n ?n) fp evt)"
    by simp
  then show ?thesis using report_step.enter [OF assms(2), of t fp evt] by (rule converse_rtranclp_into_rtranclp [rotated])
qed

lemma known_steps:
  assumes "actor_count t \<le> length (actors t)" and "at r = Outside" and "find_actor fp t = Some i"
  shows "report_step\<^sup>*\<^sup>* (t, r) (t, reporter_at (Read_score i) fp evt)"
proof -
  let ?r = "reporter_at Outside fp evt" and ?n = "actor_count t"
  have i: "i < ?n" "i < length (actors t)" "fingerprint (actors t ! i) = fp" "\<forall>j < i. fingerprint (actors t ! j) \<noteq> fp"
    using assms(3) by (auto simp: find_actor_def find_index_Some)
  then have "report_step\<^sup>*\<^sup>* (t, reporter_at (Scan ?n 0) fp evt) (t, reporter_at (Scan ?n i) fp evt)"
    using scan_on [of 0 i ?n t ?r] by simp
  moreover have "report_step (t, reporter_at (Scan ?n i) fp evt) (t, reporter_at (Read_score i) fp evt)"
    using report_step.same [of "reporter_at (Scan ?n i) fp evt" ?n i t] i by simp
  ultimately show ?thesis using report_step.enter [OF assms(2), of t fp evt]
    by (metis converse_rtranclp_into_rtranclp rtranclp.rtrancl_into_rtrancl)
qed

lemma serial_call:
  assumes "length (actors t) = ATTRIB_MAX_ACTORS" and "actor_count t \<le> ATTRIB_MAX_ACTORS" and "at r = Outside"
  shows "report_step\<^sup>*\<^sup>* (t, r) (snd (attrib_record_event fp evt t1 t2 t), reporter_at Outside fp evt)"
proof (cases "find_actor fp t")
  case (Some i)
  have "i < length (actors t)" using Some by (auto simp: find_actor_def dest: find_index_SomeD)
  then show ?thesis using known_steps [OF _ assms(3) Some, of evt] record_steps [of i t "reporter_at Outside fp evt" t2] assms(1,2)
    by (simp add: attrib_record_event_def find_or_create_def Some update_actor_def)
next
  case None
  let ?n = "actor_count t"
  have scanned: "report_step\<^sup>*\<^sup>* (t, r) (t, reporter_at (Scan ?n ?n) fp evt)"
    using unknown_steps [OF _ assms(3) None] assms(1,2) by simp
  show ?thesis
  proof (cases "ATTRIB_MAX_ACTORS \<le> ?n")
    case True
    then have "report_step (t, reporter_at (Scan ?n ?n) fp evt) (t, reporter_at Outside fp evt)"
      using report_step.full [of "reporter_at (Scan ?n ?n) fp evt" ?n t] by simp
    with scanned show ?thesis using True
      by (simp add: attrib_record_event_def find_or_create_def None Let_def rtranclp.rtrancl_into_rtrancl)
  next
    case False
    let ?r = "reporter_at Outside fp evt"
    let ?t1 = "update_actor ?n (claim_actor fp t1) t"
    let ?t2 = "?t1\<lparr>actor_count := ?n + 1\<rparr>"
    have n: "?n < length (actors t)" "?n < length (actors ?t2)" using False assms(1) by (simp_all add: update_actor_def)
    have "report_step (t, reporter_at (Scan ?n ?n) fp evt) (t, reporter_at (Write_print ?n) fp evt)"
      using report_step.room [of "reporter_at (Scan ?n ?n) fp evt" ?n t] False by simp
    moreover have "report_step\<^sup>*\<^sup>* (t, reporter_at (Write_print ?n) fp evt) (?t1, reporter_at (Add_count ?n) fp evt)"
      using claim_steps [OF n(1), of ?r t1] by simp
    moreover have "report_step (?t1, reporter_at (Add_count ?n) fp evt) (?t2, reporter_at (Read_score ?n) fp evt)"
      using report_step.add [of "reporter_at (Add_count ?n) fp evt" ?n ?t1] by (simp add: update_actor_def)
    moreover have "report_step\<^sup>*\<^sup>* (?t2, reporter_at (Read_score ?n) fp evt)
        (update_actor ?n (record_on_actor evt t2) ?t2, ?r)"
      using record_steps [OF n(2), of ?r t2] by simp
    moreover have "update_actor ?n (record_on_actor evt t2) ?t2 = snd (attrib_record_event fp evt t1 t2 t)"
      using n False by (simp add: attrib_record_event_def find_or_create_def None Let_def update_actor_def claim_actor_def)
    ultimately show ?thesis using scanned by (metis (no_types, lifting) rtranclp.rtrancl_into_rtrancl rtranclp_trans)
  qed
qed

text \<open>The other threads stay where they are.\<close>

lemma one_thread_runs:
  assumes "report_step\<^sup>*\<^sup>* (t, r) (t', r')" and "j < length rs" and "rs ! j = r"
  shows "attrib_step\<^sup>*\<^sup>* \<lparr>table = t, reporters = rs\<rparr> \<lparr>table = t', reporters = rs[j := r']\<rparr>"
  using assms(1)
proof (induction rule: rtranclp_induct2)
  case refl
  then show ?case using assms(3) by (auto simp: list_update_same_conv)
next
  case (step t1 r1 t2 r2)
  have "attrib_step \<lparr>table = t1, reporters = rs[j := r1]\<rparr> \<lparr>table = t2, reporters = rs[j := r2]\<rparr>"
    using attrib_step.run [of j "\<lparr>table = t1, reporters = rs[j := r1]\<rparr>" t2 r2] step.hyps(2) assms(2) by simp
  with step.IH show ?case by (rule rtranclp.rtrancl_into_rtrancl)
qed

section \<open>Two threads in a race\<close>

text \<open>Both have loaded the counter before either adds to it: they claim the same cell, and add twice.\<close>

definition raced :: "bytes \<Rightarrow> AttribEvent \<Rightarrow> bytes \<Rightarrow> AttribEvent \<Rightarrow> AttribTable \<Rightarrow> AttribTable" where
  "raced f0 e0 f1 e1 t = update_actor (actor_count t)
     (record_on_actor e1 0 \<circ> record_on_actor e0 0 \<circ> claim_actor f1 0 \<circ> claim_actor f0 0) (t\<lparr>actor_count := actor_count t + 2\<rparr>)"

lemma room_steps:
  assumes "actor_count t < ATTRIB_MAX_ACTORS" and "length (actors t) = ATTRIB_MAX_ACTORS" and "at r = Outside" and "find_actor fp t = None"
  shows "report_step\<^sup>*\<^sup>* (t, r) (t, reporter_at (Write_print (actor_count t)) fp evt)"
  using unknown_steps [OF _ assms(3,4), of evt] assms(1,2)
    report_step.room [of "reporter_at (Scan (actor_count t) (actor_count t)) fp evt" "actor_count t" t]
  by (simp add: rtranclp.rtrancl_into_rtrancl)

lemma add_steps:
  assumes "n < length (actors t)"
  shows "report_step\<^sup>*\<^sup>* (t, reporter_at (Add_count n) fp evt)
    (update_actor n (record_on_actor evt 0) (t\<lparr>actor_count := actor_count t + 1\<rparr>), reporter_at Outside fp evt)"
  using record_steps [of n "t\<lparr>actor_count := actor_count t + 1\<rparr>" "reporter_at Outside fp evt" 0] assms
    report_step.add [of "reporter_at (Add_count n) fp evt" n t]
  by (simp add: converse_rtranclp_into_rtranclp)

lemma race_runs:
  assumes "actor_count t < ATTRIB_MAX_ACTORS" and "length (actors t) = ATTRIB_MAX_ACTORS"
    and "find_actor f0 t = None" and "find_actor f1 t = None" and "at r0 = Outside" and "at r1 = Outside"
  shows "attrib_step\<^sup>*\<^sup>* \<lparr>table = t, reporters = [r0, r1]\<rparr>
    \<lparr>table = raced f0 e0 f1 e1 t, reporters = [reporter_at Outside f0 e0, reporter_at Outside f1 e1]\<rparr>"
proof -
  define n where "n = actor_count t"
  define t1 where "t1 = update_actor n (claim_actor f0 0) t"
  define t2 where "t2 = update_actor n (claim_actor f1 0) t1"
  define t3 where "t3 = update_actor n (record_on_actor e0 0) (t2\<lparr>actor_count := actor_count t2 + 1\<rparr>)"
  define t4 where "t4 = update_actor n (record_on_actor e1 0) (t3\<lparr>actor_count := actor_count t3 + 1\<rparr>)"
  have n: "n < length (actors t)" "n < length (actors t1)" "n < length (actors t2)" "n < length (actors t3)"
    using assms(1,2) by (simp_all add: n_def t1_def t2_def t3_def update_actor_def)
  have first: "attrib_step\<^sup>*\<^sup>* \<lparr>table = u, reporters = [p, q]\<rparr> \<lparr>table = u', reporters = [p', q]\<rparr>"
    if "report_step\<^sup>*\<^sup>* (u, p) (u', p')" for u u' p p' q
    using one_thread_runs [OF that, of 0 "[p, q]"] by simp
  have second: "attrib_step\<^sup>*\<^sup>* \<lparr>table = u, reporters = [p, q]\<rparr> \<lparr>table = u', reporters = [p, q']\<rparr>"
    if "report_step\<^sup>*\<^sup>* (u, q) (u', q')" for u u' p q q'
    using one_thread_runs [OF that, of 1 "[p, q]"] by simp
  have "report_step\<^sup>*\<^sup>* (t, reporter_at (Write_print n) f0 e0) (t1, reporter_at (Add_count n) f0 e0)"
    using claim_steps [OF n(1), of "reporter_at Outside f0 e0" 0] by (simp add: t1_def)
  moreover have "report_step\<^sup>*\<^sup>* (t1, reporter_at (Write_print n) f1 e1) (t2, reporter_at (Add_count n) f1 e1)"
    using claim_steps [OF n(2), of "reporter_at Outside f1 e1" 0] by (simp add: t2_def)
  moreover have "report_step\<^sup>*\<^sup>* (t2, reporter_at (Add_count n) f0 e0) (t3, reporter_at Outside f0 e0)"
    using add_steps [OF n(3)] by (simp add: t3_def)
  moreover have "report_step\<^sup>*\<^sup>* (t3, reporter_at (Add_count n) f1 e1) (t4, reporter_at Outside f1 e1)"
    using add_steps [OF n(4)] by (simp add: t4_def)
  ultimately have "attrib_step\<^sup>*\<^sup>* \<lparr>table = t, reporters = [r0, r1]\<rparr>
      \<lparr>table = t4, reporters = [reporter_at Outside f0 e0, reporter_at Outside f1 e1]\<rparr>"
    using room_steps [OF assms(1,2,5,3), of e0, folded n_def] room_steps [OF assms(1,2,6,4), of e1, folded n_def]
    by (meson first second rtranclp_trans)
  moreover have "t4 = raced f0 e0 f1 e1 t"
    using n(1) by (simp add: raced_def t1_def t2_def t3_def t4_def n_def update_actor_def)
  ultimately show ?thesis by simp
qed

lemma serial_run:
  assumes "card (fst ` set es) \<le> 256" and "25 * length es < 2 ^ 32" and "0 < length rs" and "\<forall>r \<in> set rs. at r = Outside"
  shows "\<exists>r. at r = Outside \<and>
    attrib_step\<^sup>*\<^sup>* \<lparr>table = attrib_init, reporters = rs\<rparr> \<lparr>table = attrib_run es attrib_init, reporters = rs[0 := r]\<rparr>"
  using assms(1,2)
proof (induction es rule: rev_induct)
  case Nil
  show ?case using assms(3,4) by (intro exI [of _ "rs ! 0"]) (simp add: attrib_run_def)
next
  case (snoc e es)
  obtain f evt t1 t2 where e: "e = (f, evt, t1, t2)" by (cases e)
  have "card (fst ` set es) \<le> card (fst ` set (es @ [e]))" by (rule card_mono) auto
  with snoc.prems have small: "card (fst ` set es) \<le> 256" "25 * length es < 2 ^ 32" by simp_all
  with snoc.IH obtain r where r: "at r = Outside"
    "attrib_step\<^sup>*\<^sup>* \<lparr>table = attrib_init, reporters = rs\<rparr> \<lparr>table = attrib_run es attrib_init, reporters = rs[0 := r]\<rparr>"
    by blast
  have "report_step\<^sup>*\<^sup>* (attrib_run es attrib_init, r) (attrib_run (es @ [e]) attrib_init, reporter_at Outside f evt)"
    using serial_call [OF _ _ r(1)] attrib_reprD [OF attrib_repr_run [OF small]]
    by (simp add: e attrib_run_snoc ATTRIB_MAX_ACTORS_def)
  from one_thread_runs [OF this, of 0 "rs[0 := r]"] r(2) assms(3)
  have "attrib_step\<^sup>*\<^sup>* \<lparr>table = attrib_init, reporters = rs\<rparr>
      \<lparr>table = attrib_run (es @ [e]) attrib_init, reporters = rs[0 := reporter_at Outside f evt]\<rparr>"
    by simp
  then show ?case by (intro exI [of _ "reporter_at Outside f evt"]) simp
qed

section \<open>Properties\<close>

text \<open>C23: how far the counter of actors runs. With \<open>k\<close> threads, under every interleaving, the counter exceeds the 256 cells by
  at most \<open>k - 1\<close>; a single thread never exceeds them and never reads behind the array.\<close>

theorem attrib_counter_bound:
  assumes "attrib_step\<^sup>*\<^sup>* (attrib_threads k) s"
  shows "actor_count (table s) < ATTRIB_MAX_ACTORS + k \<and> length (actors (table s)) = ATTRIB_MAX_ACTORS \<and>
    ((\<exists>r \<in> set (reporters s). at r = Overrun) \<longrightarrow> 1 < k)"
proof -
  have ok: "attrib_sys_ok s" "length (reporters s) = k" using attrib_threads_ok [OF assms] by simp_all
  then have count: "actor_count (table s) < ATTRIB_MAX_ACTORS + k" by (simp add: attrib_sys_ok_def)
  have "1 < k" if "r \<in> set (reporters s)" "at r = Overrun" for r
  proof -
    have "reporter_ok (actor_count (table s)) r" using ok(1) that(1) by (simp add: attrib_sys_ok_def list_all_iff)
    with that(2) count show ?thesis by (simp add: reporter_ok_def)
  qed
  with count ok(1) show ?thesis by (auto simp: attrib_sys_ok_def)
qed

definition numbered :: "nat \<Rightarrow> bytes" where
  "numbered i = word_of_nat i # replicate 31 1"

lemma numbered_inject: "i < 256 \<Longrightarrow> j < 256 \<Longrightarrow> numbered i = numbered j \<longleftrightarrow> i = j"
  by (simp add: numbered_def word_unat_eq_iff unsigned_of_nat take_bit_eq_mod)

lemma raced_count:
  "length (actors (raced f0 e0 f1 e1 t)) = length (actors t)" "actor_count (raced f0 e0 f1 e1 t) = actor_count t + 2"
  by (simp_all add: raced_def update_actor_def)

lemma raced_print:
  "i < length (actors t) \<Longrightarrow>
     fingerprint (actors (raced f0 e0 f1 e1 t) ! i) = (if i = actor_count t then f1 else fingerprint (actors t ! i))"
  by (auto simp: raced_def update_actor_def claim_actor_def record_on_actor_def Let_def nth_list_update)

text \<open>the array is overrun by two threads. When 255 fingerprints are known and two new ones arrive at once, the counter
  reaches 257, and the next call for an unknown fingerprint reads behind the 256 cells.\<close>

theorem attrib_overrun:
  "\<exists>s. attrib_step\<^sup>*\<^sup>* (attrib_threads 2) s \<and> actor_count (table s) = 257 \<and> (\<exists>r \<in> set (reporters s). at r = Overrun)"
proof -
  define es :: "attrib_event list" where "es = map (\<lambda>i. (numbered i, EVT_REPLAY, 0, 0)) [0..<255]"
  define t where "t = attrib_run es attrib_init"
  define u where "u = raced (numbered 255) EVT_REPLAY (replicate 32 0) EVT_REPLAY t"
  have prints: "fst ` set es = numbered ` {..<255}" by (force simp: es_def image_iff)
  then have card: "card (fst ` set es) = 255" by (simp add: card_image inj_on_def numbered_inject)
  have "length es = 255" by (simp add: es_def)
  then have small: "card (fst ` set es) \<le> 256" "25 * length es < 2 ^ 32" using card by simp_all
  note r = attrib_reprD [OF attrib_repr_run [OF small], folded t_def]
  have count: "actor_count t = 255" using r(3) card by simp
  have new: "find_actor x t = None" if "x \<notin> numbered ` {..<255}" for x
    using that r(4) prints unfolding find_actor_def find_index_None by (metis (mono_tags, lifting) image_eqI list.set_map)
  have other: "replicate 32 x \<noteq> numbered i" if "x \<noteq> 1" for x i
    using that by (auto simp: numbered_def dest!: arg_cong [of _ _ last])
  have fresh: "numbered 255 \<notin> numbered ` {..<255}" 
  proof
    assume "numbered 255 \<in> numbered ` {..<255}"
    then obtain i where "i < 255" "numbered 255 = numbered i" by auto
    with numbered_inject [of 255 i] show False by simp
  qed
  obtain q where q: "at q = Outside"
    "attrib_step\<^sup>*\<^sup>* (attrib_threads 2) \<lparr>table = t, reporters = [q, reporter_at Outside [] EVT_REPLAY]\<rparr>"
    using serial_run [OF small, of "reporters (attrib_threads 2)"] by (auto simp: attrib_threads_def t_def numeral_2_eq_2)
  let ?p1 = "reporter_at Outside (replicate 32 0) EVT_REPLAY"
  let ?p = "reporter_at Outside (replicate 32 2) EVT_REPLAY"
  have raced: "attrib_step\<^sup>*\<^sup>* \<lparr>table = t, reporters = [q, reporter_at Outside [] EVT_REPLAY]\<rparr>
      \<lparr>table = u, reporters = [reporter_at Outside (numbered 255) EVT_REPLAY, ?p1]\<rparr>"
    unfolding u_def using r(1) count q(1) fresh other [of 0]
    by (intro race_runs new) (auto simp: ATTRIB_MAX_ACTORS_def)
  have "fingerprint (actors u ! j) \<noteq> replicate 32 2" if "j < 256" for j
  proof (cases "j = 255")
    case True
    then show ?thesis using raced_print [of j t] r(1) count by (simp add: u_def)
  next
    case False
    then have "take 255 (actors t) ! j \<in> set (take 255 (actors t))" using that r(1) by (intro nth_mem) simp
    then have "fingerprint (actors t ! j) \<in> set (map fingerprint (take 255 (actors t)))"
      using False that by simp
    then have "fingerprint (actors t ! j) \<noteq> replicate 32 2" using r(4) prints count other [of 2] by fastforce
    with False that show ?thesis using raced_print [of j t] r(1) count by (simp add: u_def)
  qed
  then have "report_step\<^sup>*\<^sup>* (u, reporter_at (Scan 257 0) (replicate 32 2) EVT_REPLAY) (u, reporter_at (Scan 257 256) (replicate 32 2) EVT_REPLAY)"
    using scan_on [of 0 256 257 u ?p] r(1) by (simp add: u_def raced_count)
  moreover have "report_step (u, reporter_at Outside (numbered 255) EVT_REPLAY) (u, reporter_at (Scan 257 0) (replicate 32 2) EVT_REPLAY)"
    using report_step.enter [of "reporter_at Outside (numbered 255) EVT_REPLAY" u "replicate 32 2" EVT_REPLAY] count
    by (simp add: u_def raced_count)
  moreover have "report_step (u, reporter_at (Scan 257 256) (replicate 32 2) EVT_REPLAY) (u, reporter_at Overrun (replicate 32 2) EVT_REPLAY)"
    using report_step.overrun [of "reporter_at (Scan 257 256) (replicate 32 2) EVT_REPLAY" 257 256 u] r(1)
    by (simp add: u_def raced_count)
  ultimately have "report_step\<^sup>*\<^sup>* (u, reporter_at Outside (numbered 255) EVT_REPLAY) (u, reporter_at Overrun (replicate 32 2) EVT_REPLAY)"
    by (meson converse_rtranclp_into_rtranclp rtranclp.rtrancl_into_rtrancl)
  from one_thread_runs [OF this, of 0 "[reporter_at Outside (numbered 255) EVT_REPLAY, ?p1]"]
  have over: "attrib_step\<^sup>*\<^sup>* \<lparr>table = u, reporters = [reporter_at Outside (numbered 255) EVT_REPLAY, ?p1]\<rparr>
      \<lparr>table = u, reporters = [reporter_at Overrun (replicate 32 2) EVT_REPLAY, ?p1]\<rparr>"
    by simp
  have "actor_count u = 257" using count by (simp add: u_def raced_count)
  with rtranclp_trans [OF rtranclp_trans [OF q(2) raced] over] show ?thesis by force
qed

theorem attrib_counter_bound_witness:
  "\<exists>s. attrib_step\<^sup>*\<^sup>* (attrib_threads 2) s \<and> actor_count (table s) = 257 \<and> actor_count (table s) < ATTRIB_MAX_ACTORS + 2"
proof -
  obtain s where "attrib_step\<^sup>*\<^sup>* (attrib_threads 2) s" "actor_count (table s) = 257" using attrib_overrun by blast
  with attrib_counter_bound [of 2 s] show ?thesis by blast
qed

text \<open>a race blames the wrong peer. Two events of different new peers that arrive at once are both recorded as the
  second peer's, whose tier is then higher than its own event gives it, and the first peer is not known; one after
  the other, in either order, both are known with the tier of their own event.\<close>

theorem attrib_race_blames:
  assumes "f0 \<noteq> f1" and "f0 \<noteq> replicate 32 0"
  shows "(\<exists>s. attrib_step\<^sup>*\<^sup>* (attrib_threads 2) s \<and>
      reporters s = [reporter_at Outside f0 EVT_SIG_FLOOD, reporter_at Outside f1 EVT_SIG_FLOOD] \<and>
      attrib_score f0 (table s) = TIER_UNKNOWN \<and> attrib_score f1 (table s) = TIER_ACTIVE) \<and>
    (\<forall>f \<in> {f0, f1}. \<forall>es \<in> {[f0, f1], [f1, f0]}.
      attrib_score f (attrib_run (map (\<lambda>f. (f, EVT_SIG_FLOOD, 0, 0)) es) attrib_init) = TIER_PROBING)"
proof
  let ?s = "\<lparr>table = raced f0 EVT_SIG_FLOOD f1 EVT_SIG_FLOOD attrib_init,
    reporters = [reporter_at Outside f0 EVT_SIG_FLOOD, reporter_at Outside f1 EVT_SIG_FLOOD]\<rparr>"
  have "attrib_step\<^sup>*\<^sup>* \<lparr>table = attrib_init, reporters = reporters (attrib_threads 2)\<rparr> ?s"
    unfolding attrib_threads_def attrib_sys.simps numeral_2_eq_2 replicate.simps
    by (rule race_runs) (simp_all add: attrib_init_def ATTRIB_MAX_ACTORS_def find_actor_def)
  then have "attrib_step\<^sup>*\<^sup>* (attrib_threads 2) ?s" by (simp add: attrib_threads_def)
  moreover let ?a = "record_on_actor EVT_SIG_FLOOD 0 (record_on_actor EVT_SIG_FLOOD 0 (claim_actor f1 0 (claim_actor f0 0 zero_actor)))"
  have "replicate 256 zero_actor = zero_actor # replicate 255 zero_actor" by (simp flip: replicate_Suc)
  then have "raced f0 EVT_SIG_FLOOD f1 EVT_SIG_FLOOD attrib_init = \<lparr>actors = ?a # replicate 255 zero_actor, actor_count = 2\<rparr>"
    by (simp add: raced_def update_actor_def attrib_init_def)
  moreover have "take 2 (?a # replicate 255 zero_actor) = [?a, zero_actor]" by (simp add: take_Cons' numeral_2_eq_2)
  moreover have "fingerprint ?a = f1" "tier ?a = TIER_ACTIVE"
    by (simp_all add: record_on_actor_def claim_actor_def zero_actor_def Let_def)
  ultimately have "attrib_step\<^sup>*\<^sup>* (attrib_threads 2) ?s" "attrib_score f0 (table ?s) = TIER_UNKNOWN" "attrib_score f1 (table ?s) = TIER_ACTIVE"
    using assms by (simp_all add: attrib_score_def find_actor_def zero_actor_def)
  then show "\<exists>s. attrib_step\<^sup>*\<^sup>* (attrib_threads 2) s \<and>
      reporters s = [reporter_at Outside f0 EVT_SIG_FLOOD, reporter_at Outside f1 EVT_SIG_FLOOD] \<and>
      attrib_score f0 (table s) = TIER_UNKNOWN \<and> attrib_score f1 (table s) = TIER_ACTIVE"
    by (intro exI [of _ ?s]) simp
  have "attrib_score f (attrib_run (map (\<lambda>f. (f, EVT_SIG_FLOOD, 0, 0)) es) attrib_init) =
      tier_of (total_score f (map (\<lambda>f. (f, EVT_SIG_FLOOD, 0, 0)) es))" if "es \<in> {[f0, f1], [f1, f0]}" for f es
    using that by (intro attrib_repr_score attrib_repr_run) (auto simp: card_insert_if)
  then show "\<forall>f \<in> {f0, f1}. \<forall>es \<in> {[f0, f1], [f1, f0]}.
      attrib_score f (attrib_run (map (\<lambda>f. (f, EVT_SIG_FLOOD, 0, 0)) es) attrib_init) = TIER_PROBING"
    using assms(1) by (auto simp: total_score_def tier_of_def)
qed

end
