(* ===== verification/Spec2Isabelle.thy ===== *)
theory Spec2Isabelle
  imports
    Core Evidence_Core Multiclient Pure_Core Adversarial_Gate Executive
    Merkle_Tree Wal Audit_Log Gate0_Chain Persistence
    Telemetry Ring_Pool Heartbeat State_Engine
    Shadow Deception_Daemon Attrib Rolling_Cage Phantom Phantom_Calls Mtk Pending_State Consequence Mesh
    Posix Socket_Transport Executive_Calls Read_Exact Auth_Calls Daemon_Calls Deployment Ring_Interleaving Mtk_Hazards Tarpit
    Layout_Checks Demonstrations Adversarial_Tests Gate_Tests Reports Python_Clients
    Attrib_Threads
begin

text \<open>
  Gate Zero: a command gate in C11 for an industrial controller, with its logs, monitors and deception
  components. This library models the C sources function by function and proves what they
  guarantee and, where they fall short of what their comments or their shape promise, exactly how.

  \<^bold>\<open>The program.\<close> A client sends a signed command over a local socket. \<open>src/executive.c\<close> reads it
  into a buffer and calls \<open>evaluate_command\<close> (\<open>src/core.c\<close>), which judges it against the interlocks, the
  record of the one known sender, the sequence counter, the time window and the signature, and answers with a result code. There are four
  more evaluators: the predecessor under \<open>evidence/\<close>, one for many clients (\<open>src/core_multiclient.c\<close>), one with
  authorities and node masks (\<open>src/pure_core.c\<close> and its copy \<open>src/gate0_core.c\<close>, with a client and a
  one-shot daemon), and the gate of the adversarial test program. Around them stand the logs (Merkle
  frontier, write-ahead log, audit log, persisted sender records), the rings (telemetry, messages), the monitors
  (heartbeat, state engine, dark controller) and the deception side (shadow table with its TCP daemon,
  attribution, cages, phantoms, moving-target keys), a pending-command register, the limits that the
  signer consults, and votes between nodes.

  \<^bold>\<open>Conventions.\<close> The target is ELF64 AArch64, little endian. C integers are words of their width, so
  unsigned wrap-around is in the model; signed overflow, null dereference and reads out of bounds are values of
  type \<open>fault\<close>. Structs are records; where the program hashes, signs, sends or stores
  a struct, the record has an object representation (\<open>*_bytes\<close>), padding included. Enumerations are datatypes. Fixed
  arrays are lists, pointers into them indices. Static variables are an explicit state that every operation
  takes and returns. What the environment decides is an argument: clock readings, what \<open>open\<close>, \<open>read\<close>, \<open>write\<close>,
  \<open>recv\<close>, \<open>socket\<close> and \<open>bind\<close> return, random bytes, and the indeterminate content of stack buffers. libsodium is not part of the
  repository: signing, verification and hashing are arguments of the definitions. The only facts ever
  assumed of a hash are its output length and, where a property needs it, that it has no collision on the inputs named in
  the statement; nothing is assumed of signatures.

  \<^bold>\<open>Theories.\<close>
  \<^item> \<open>Gate0_Prelude\<close>: machine types, little-endian codecs, fields of byte images, the first-match search loop, circular
    arrays, clocks.
  \<^item> \<open>Gate_Interface\<close>: the contract of a command gate as locales: sequence counters that only grow, or
    only step by one, or both (\<open>monotone_gate\<close>, \<open>successor_gate\<close>, \<open>exact_gate\<close>) and gates that pin a key
    (\<open>keyed_gate\<close>, \<open>enrolling_gate\<close>), with what they give for whole runs. \<open>Store_Interface\<close>: logs that keep a window of the
    latest entries, and bounded queues. \<open>Hash_Chain\<close>: logs whose last digest commits to all entries. Each locale
    is interpreted in the theory of every component that provides the contract.
  \<^item> \<open>Gate0_Header\<close>: \<open>src/gate0.h\<close>. \<open>Core\<close>: \<open>src/core.c\<close>, \<open>src/interlocks.c\<close>, \<open>src/reference_core.c\<close>.
    \<open>Executive\<close>: \<open>src/executive.c\<close> and the reply of its predecessor. \<open>Evidence_Core\<close>, \<open>Multiclient\<close>,
    \<open>Pure_Core\<close>, \<open>Adversarial_Gate\<close> (root \<open>gate0_adversarial.c\<close>): the other evaluators.
  \<^item> \<open>Merkle_Tree\<close>: \<open>src/tree.c\<close>. \<open>Wal\<close>: \<open>src/wal.c\<close>. \<open>Audit_Log\<close>: \<open>src/audit_log.c\<close>. \<open>Gate0_Chain\<close>: \<open>gate0_chain.c\<close>.
    \<open>Persistence\<close>: \<open>src/persistence.c\<close>, \<open>wal_recover.c\<close>.
  \<^item> \<open>Telemetry\<close>: \<open>src/telemetry.c\<close>. \<open>Ring_Pool\<close>: \<open>src/mesh_sync.c\<close>. \<open>Heartbeat\<close>: \<open>src/heartbeat.c\<close>. \<open>State_Engine\<close>:
    \<open>state_engine.c\<close>, \<open>dark_controller.c\<close>.
  \<^item> \<open>Shadow\<close>: \<open>shadow.c\<close>. \<open>Deception_Daemon\<close>: \<open>gate0_daemon.c\<close>. \<open>Attrib\<close>: \<open>attrib.c\<close>. \<open>Rolling_Cage\<close>,
    \<open>Phantom\<close>, \<open>Mtk\<close>, \<open>Pending_State\<close>, \<open>Consequence\<close> (with \<open>gate0_signer.c\<close>), \<open>Mesh\<close>: the files of those names.
    \<open>Tarpit\<close>: \<open>tarpit_sim.c\<close>, with binary32 arithmetic as integers and the rounding written out. \<open>Reports\<close>: the
    log lines of the monitors.
  \<^item> \<open>Posix\<close>: the system-call level. A program is a tree of calls whose branches are the answers; a run is a
    list of answers; \<open>keeps_fds\<close> is the weakest precondition of a descriptor discipline over every answer the
    documentation of the calls allows (\<open>allowed\<close>). On it: \<open>Socket_Transport\<close> (\<open>src/transport.c\<close>, the trap server
    \<open>src/main.c\<close>, the root \<open>gate0_client.c\<close>), \<open>Executive_Calls\<close> (\<open>src/executive.c\<close> and its predecessor as a whole),
    \<open>Read_Exact\<close> (its \<open>read_exact\<close>), \<open>Auth_Calls\<close> (\<open>src/gate0_client.c\<close> and \<open>src/gate0_daemon.c\<close>, and the two of them
    joined), \<open>Daemon_Calls\<close> (the root \<open>gate0_daemon.c\<close> as a whole), \<open>Phantom_Calls\<close> (\<open>phantom_bind_all\<close>).
  \<^item> \<open>Deployment\<close>: components put together, down to the calls: what a run of the executive guarantees through the gate it
    runs, what is left of the daemon with the evaluator call it really makes, and the client of \<open>src/gate0_client.c\<close> in front of the executive.
  \<^item> \<open>Ring_Interleaving\<close>: \<open>src/mesh_sync.c\<close> with producer and consumer interleaved load by load and store by store.
    \<open>Mtk_Hazards\<close>: \<open>mtk.c\<close> with its rotation interleaved with readers that take and release hazard slots.
    \<open>Attrib_Threads\<close>: \<open>attrib.c\<close> with any number of threads recording events at once, access by access.
  \<^item> \<open>Layout_Checks\<close>: \<open>sizeof\<close> and \<open>offsetof\<close> over the headers in the tree, the programs that print them and
    \<open>gate0_crypto.h\<close>. \<open>Demonstrations\<close>: \<open>gate0_crypto.c\<close>, the root \<open>pure_core.c\<close>, \<open>gate0_test.c\<close>, \<open>wal_test.c\<close>,
    \<open>shadow_test.c\<close>. \<open>Adversarial_Tests\<close>: the tests of \<open>gate0_adversarial.c\<close>. \<open>Gate_Tests\<close>: \<open>tests/test_gate0.c\<close> and
    \<open>tests/gate0_adversarial.c\<close>. \<open>Python_Clients\<close>: the Python programs that pack frames for the predecessor, call its evaluator or
    connect to its server (\<open>gate0_client.py\<close>, \<open>gate0_bridge.py\<close>, \<open>gate0_signed_test.py\<close>, \<open>g0_adversarial.py\<close>,
    \<open>tests/test_three_tier.py\<close>, \<open>tests/run_full_matrix.py\<close>).

  \<^bold>\<open>What is shown.\<close> For the evaluators: the exact condition of every verdict, and for whole runs from a fresh state
  that accepted numbers are consecutive or increasing per sender, that accepted commands are
  authentic under the pinned key, that interlocks stop commands and that nonces do not
  recur within the memory; the executive loop is a refinement of the gate it runs, the program of system calls
  is a refinement of that loop, and the guarantees are carried over to its runs. The deception daemon's wake-ups, clients and clock readings are
  read off the answers of its run, and its connection model given those does what the run did, evictions included. The servers keep their descriptors: each call is on an open one, and what was opened is
  closed, but for the failed set-up of the daemon. For the stores:
  the frontier computes the recursive tree hash, the rings refine lists (the message ring under every interleaving too), the logs are chains that bind their entries, recovery returns the last
  completed record. For the monitors: escalation, finality of lockout, and what
  lockout silences: a dark tick in lockout suppresses every packet until one of the exported functions that set the mode
  directly is called, which they do whatever the engine's state is. For the deception side: eviction is exact, attribution scores are exact for one thread, and with more of them the counter
  overruns its array by less than their number; a moving-target
  key is good for one attempt, and a hazard slot guards it if it is taken before
  the rotation has looked at the slot, and in vain if later; strangers' frames do not keep the known sender from the executive, but one stranger who hangs up before the
  reply ends it. And the deviations: enrolment before
  authentication, the exhaustible sender table, a write-ahead log that its own check rejects and that
  does not cover its contents, torn writes that hide later ones, short frames completed from the stack, an eviction that moves referenced entries, a race of two new peers, the escape from failsafe, a heartbeat monitor
  that never recovers, a daemon that takes every peer for the first one and dies of the first full command, a client and a
  server that share a path and not a protocol, a signer that cannot refuse, a trap server that does not
  notice a failed \<open>socket\<close>, tests that abort or report failure on the code as it is, an integration test that cannot fail because the
  server in front of it evaluates nothing.

  \<^bold>\<open>Bounds.\<close> Every loop of the models is a total function with its measure, but for the server loops
  \<open>while (1)\<close> and the loop of \<open>read_exact\<close>, which have a number of rounds as argument (\<open>io_loop\<close>). Every round of a server makes a call, so more
  rounds than there are answers are enough: then the run ends by itself or is blocked in a call, and a larger number
  gives the same run (\<open>io_loop_enough\<close>, \<open>executive_rounds_enough\<close>); the theorems hold for any number. For \<open>read_exact\<close> the
  requested length and the interruptions bound the rounds (\<open>read_exact_returns\<close>). A wait that
  may never end (the hazard slots of \<open>mtk.c\<close>) and a list of \<open>read\<close> outcomes that runs out are the value \<open>None\<close>. Where a counter of
  the code wraps, a statement either holds modulo the width or carries the bound that excludes the wrap.

  \<^bold>\<open>Not modelled.\<close> Signals, but for SIGPIPE in \<open>exec_process\<close>: in the runs of \<open>Posix\<close> a process that a signal kills is one that stops at
  the call, and no theorem about runs that return or are still serving speaks of it. Compiler and hardware reordering, but for the one exchange in \<open>Ring_Interleaving\<close> that shows what it
  would do; the texts of \<open>strerror\<close> and \<open>perror\<close>; the functions that
  \<open>gate0_crypto.h\<close> declares, which have no code in the tree (parameters of \<open>ed25519_test_main\<close>); infinities of binary32,
  which the tarpit never reaches; the scripts that generate source text, two that fail in their first statements, and the JavaScript files, which have no contact with the C code. \<open>gate0_adversarial.c\<close> breaks off in the middle of its tests and
  is modelled up to there.
\<close>

end
